(* ===== verification/Ipc_Prelude.thy ===== *)
theory Ipc_Prelude
  imports Main "HOL-Library.Word"
begin

text \<open>
  Shared vocabulary of the development: the bytes and buffers the C++ code moves around, the
  faults an operation can end in, the bind that threads them, \<open>size_t\<close> subtraction with its
  wrap-around, little-endian words, and the checked accesses to a \<open>std::vector<char>\<close>.

  A C++ \<open>char\<close> is HOL's 256-element type \<open>char\<close>, so both \<open>std::string\<close> and
  \<open>std::vector<char>\<close> are \<open>char list\<close> and \<open>''...''\<close> is a string literal. The platforms
  the library is built for (Windows and macOS, 64 bit) are little-endian with an 8-byte
  \<open>size_t\<close>; both are fixed here.
\<close>

section \<open>Types\<close>

type_synonym buffer = "char list"
type_synonym u32 = "32 word"
type_synonym u64 = "64 word"

text \<open>
  How an operation that does not return normally ends: a C++ exception (named by the literal of
  its \<open>throw\<close>), a call of \<open>abort()\<close>, or an access outside the buffer it goes through. The
  last is undefined behaviour in C++; the model stops there and names it.
\<close>

datatype fault = Exception string | Abort | Bad_Access

type_synonym 'a result = "fault + 'a"

named_theorems codec_simps \<open>equations that run serialisation code over a decomposed buffer\<close>

section \<open>Sequencing operations that can fault\<close>

fun rbind :: "'a result \<Rightarrow> ('a \<Rightarrow> 'b result) \<Rightarrow> 'b result" where
  "rbind (Inl e) f = Inl e"
| "rbind (Inr x) f = f x"

lemma rbind_eq_Inr_iff: "rbind m f = Inr y \<longleftrightarrow> (\<exists>x. m = Inr x \<and> f x = Inr y)"
  by (cases m) auto

lemma rbind_eq_Inl_iff: "rbind m f = Inl e \<longleftrightarrow> m = Inl e \<or> (\<exists>x. m = Inr x \<and> f x = Inl e)"
  by (cases m) auto

lemma rbind_cong [fundef_cong]:
  "m = m' \<Longrightarrow> (\<And>x. m' = Inr x \<Longrightarrow> f x = f' x) \<Longrightarrow> rbind m f = rbind m' f'"
  by (cases m') auto

section \<open>\<open>size_t\<close>\<close>

text \<open>
  Sizes and offsets are \<open>nat\<close>. Sums of sizes are sizes of objects that lie in memory together
  and cannot reach \<open>2 ^ 64\<close>; a difference \<open>buf.size() - offset\<close> wraps around when the offset
  is past the end, which is kept.
\<close>

definition size_sub :: "nat \<Rightarrow> nat \<Rightarrow> nat" where
  "size_sub a b = unat ((of_nat a :: u64) - of_nat b)"

lemma size_sub_le: "b \<le> a \<Longrightarrow> a < 2 ^ 64 \<Longrightarrow> size_sub a b = a - b"
  by (simp add: size_sub_def unat_sub_if' unat_of_nat take_bit_nat_eq_self)

lemma size_sub_wraps: "a < b \<Longrightarrow> b < 2 ^ 64 \<Longrightarrow> size_sub a b = 2 ^ 64 - (b - a)"
  by (simp add: size_sub_def unat_sub_if' unat_of_nat take_bit_nat_eq_self)

lemma size_sub_zero [simp]: "a < 2 ^ 64 \<Longrightarrow> size_sub a 0 = a"
  by (simp add: size_sub_le)

section \<open>Little-endian integers\<close>

fun le_bytes :: "nat \<Rightarrow> nat \<Rightarrow> buffer" where
  "le_bytes 0 x = []"
| "le_bytes (Suc n) x = char_of x # le_bytes n (x div 256)"

fun le_val :: "buffer \<Rightarrow> nat" where
  "le_val [] = 0"
| "le_val (c # cs) = of_char c + 256 * le_val cs"

lemma length_le_bytes [simp]: "length (le_bytes n x) = n"
  by (induction n arbitrary: x) auto

lemma le_val_le_bytes: "le_val (le_bytes n x) = x mod 256 ^ n"
  by (induction n arbitrary: x) (auto simp: mod_mult2_eq)

lemma le_val_bound: "le_val bs < 256 ^ length bs"
proof (induction bs)
  case (Cons c cs)
  have "of_char c < (256 :: nat)" by simp
  with Cons have "of_char c + 256 * le_val cs < 256 * 256 ^ length cs"
    by linarith
  then show ?case by simp
qed simp

lemma le_bytes_le_val: "le_bytes (length bs) (le_val bs) = bs"
proof (induction bs)
  case (Cons c cs)
  have "char_of (of_char c + 256 * le_val cs) = (char_of (of_char c mod 256 :: nat) :: char)"
    by (metis char_of_mod_256 mod_mult_self2)
  moreover have "(of_char c + 256 * le_val cs) div 256 = le_val cs"
    using nat_of_char_less_256 [of c] by simp
  ultimately show ?case using Cons by simp
qed simp

definition u32_bytes :: "u32 \<Rightarrow> buffer" where
  "u32_bytes w = le_bytes 4 (unat w)"

definition u64_bytes :: "u64 \<Rightarrow> buffer" where
  "u64_bytes w = le_bytes 8 (unat w)"

definition u32_of_bytes :: "buffer \<Rightarrow> u32" where
  "u32_of_bytes bs = of_nat (le_val bs)"

definition u64_of_bytes :: "buffer \<Rightarrow> u64" where
  "u64_of_bytes bs = of_nat (le_val bs)"

lemma length_u32_bytes [simp]: "length (u32_bytes w) = 4"
  by (simp add: u32_bytes_def)

lemma length_u64_bytes [simp]: "length (u64_bytes w) = 8"
  by (simp add: u64_bytes_def)

lemma u32_of_u32_bytes [simp]: "u32_of_bytes (u32_bytes w) = w"
proof -
  have "unat w < 256 ^ 4" by (rule order_less_le_trans [OF unsigned_less]) simp
  then show ?thesis
    by (simp add: u32_of_bytes_def u32_bytes_def le_val_le_bytes)
qed

lemma u64_of_u64_bytes [simp]: "u64_of_bytes (u64_bytes w) = w"
proof -
  have "unat w < 256 ^ 8" by (rule order_less_le_trans [OF unsigned_less]) simp
  then show ?thesis
    by (simp add: u64_of_bytes_def u64_bytes_def le_val_le_bytes)
qed

lemma u32_bytes_of_bytes: "length bs = 4 \<Longrightarrow> u32_bytes (u32_of_bytes bs) = bs"
  using le_val_bound [of bs] le_bytes_le_val [of bs]
  by (simp add: u32_bytes_def u32_of_bytes_def unat_of_nat take_bit_nat_eq_self)

lemma u64_bytes_of_bytes: "length bs = 8 \<Longrightarrow> u64_bytes (u64_of_bytes bs) = bs"
  using le_val_bound [of bs] le_bytes_le_val [of bs]
  by (simp add: u64_bytes_def u64_of_bytes_def unat_of_nat take_bit_nat_eq_self)

lemma unat_of_nat_u32: "n < 2 ^ 32 \<Longrightarrow> unat (of_nat n :: u32) = n"
  by (simp add: unat_of_nat take_bit_nat_eq_self)

lemma unat_of_nat_u64: "n < 2 ^ 64 \<Longrightarrow> unat (of_nat n :: u64) = n"
  by (simp add: unat_of_nat take_bit_nat_eq_self)

section \<open>Access to a byte vector\<close>

text \<open>Reading \<open>n\<close> bytes at \<open>&buf[off]\<close>, and storing bytes there.\<close>

definition peek :: "buffer \<Rightarrow> nat \<Rightarrow> nat \<Rightarrow> buffer result" where
  "peek buf off n =
     (if off + n \<le> length buf then Inr (take n (drop off buf)) else Inl Bad_Access)"

definition poke :: "buffer \<Rightarrow> nat \<Rightarrow> buffer \<Rightarrow> buffer result" where
  "poke buf off bs =
     (if off + length bs \<le> length buf
      then Inr (take off buf @ bs @ drop (off + length bs) buf) else Inl Bad_Access)"

text \<open>
  Over a buffer written as \<open>pre @ mid @ post\<close> an access at \<open>length pre\<close> is an equation. The
  offsets the code computes are sums, so both carry the equality as a premise.
\<close>

lemma peek_mid: "off = length pre \<Longrightarrow> n = length mid \<Longrightarrow> peek (pre @ mid @ post) off n = Inr mid"
  by (simp add: peek_def)

lemma poke_mid:
  "off = length pre \<Longrightarrow> length bs = length mid \<Longrightarrow>
   poke (pre @ mid @ post) off bs = Inr (pre @ bs @ post)"
  by (simp add: poke_def)

lemma peek_InrD: "peek buf off n = Inr bs \<Longrightarrow> off + n \<le> length buf \<and> bs = take n (drop off buf) \<and> length bs = n"
  by (auto simp: peek_def split: if_splits)

lemma peek_inside: "off + n \<le> length buf \<Longrightarrow> peek buf off n = Inr (take n (drop off buf))"
  by (simp add: peek_def)

lemma peek_outside: "length buf < off + n \<Longrightarrow> peek buf off n = Inl Bad_Access"
  by (simp add: peek_def)

lemma length_poke: "poke buf off bs = Inr buf' \<Longrightarrow> length buf' = length buf"
  by (auto simp: poke_def split: if_splits)

lemma split_mid: "off + n \<le> length buf \<Longrightarrow>
  \<exists>pre mid post. buf = pre @ mid @ post \<and> length pre = off \<and> length mid = n"
  by (rule exI [of _ "take off buf"], rule exI [of _ "take n (drop off buf)"],
      rule exI [of _ "drop (off + n) buf"])
     (simp add: add.commute flip: drop_drop)

lemma take_drop_split: "take (m + n) (drop k xs) = take m (drop k xs) @ take n (drop (k + m) xs)"
  by (simp add: take_add add.commute)

text \<open>\<open>std::string::c_str()\<close> as the C functions see it: the characters before the first NUL.\<close>

definition c_str :: "string \<Rightarrow> string" where
  "c_str s = takeWhile (\<lambda>c. c \<noteq> CHR 0x00) s"

lemma c_str_id: "CHR 0x00 \<notin> set s \<Longrightarrow> c_str s = s"
  by (auto simp: c_str_def takeWhile_eq_all_conv)

lemma c_str_no_nul: "CHR 0x00 \<notin> set (c_str s)"
  by (auto simp: c_str_def dest: set_takeWhileD)

text \<open>\<open>resize\<close> of a byte vector: cut, or filled up with zeros.\<close>

definition resize_bytes :: "nat \<Rightarrow> buffer \<Rightarrow> buffer" where
  "resize_bytes n buf = take n buf @ replicate (n - length buf) (CHR 0x00)"

lemma length_resize_bytes [simp]: "length (resize_bytes n buf) = n"
  by (simp add: resize_bytes_def min_def)

section \<open>State machines\<close>

text \<open>
  The components with threads are step relations. What they share: an invariant that holds at the start
  and is kept by every step holds in every state the steps lead to.
\<close>

locale state_machine =
  fixes start :: "'s \<Rightarrow> bool"
    and step :: "'s \<Rightarrow> 's \<Rightarrow> bool"
    and inv :: "'s \<Rightarrow> bool"
  assumes inv_start: "start s \<Longrightarrow> inv s"
    and inv_step: "step s s' \<Longrightarrow> inv s \<Longrightarrow> inv s'"
begin

lemma inv_steps: "step\<^sup>*\<^sup>* s s' \<Longrightarrow> inv s \<Longrightarrow> inv s'"
  by (induction rule: rtranclp_induct) (auto intro: inv_step)

lemma reachable_inv: "start s \<Longrightarrow> step\<^sup>*\<^sup>* s s' \<Longrightarrow> inv s'"
  by (blast intro: inv_start inv_steps)

end

end
