(* ===== verification/Wire_Codec.thy ===== *)
theory Wire_Codec
  imports Ipc_Prelude
begin

text \<open>
  What the value and message code have in common: an object has a size, is stored into a byte
  vector at an offset, and is restored from one. The locale \<open>wire_codec\<close> states the contract
  (storing writes exactly the object's wire image; restoring that image gives back an object with
  the same content), the loops over vectors of values and the frame that carries a message
  (\<open>make_sendable\<close>, \<open>read_size\<close> of \<open>include/ipc.hpp\<close>) are proved once over it, and
  \<open>strict_codec\<close> adds what the value decoder promises on arbitrary input.
\<close>

section \<open>Loops over a vector of values\<close>

text \<open>
  \<open>for (ipc::value &v : arguments) noffset += v.serialize(buf, noffset);\<close>
\<close>

fun serialize_all ::
  "('v \<Rightarrow> buffer \<Rightarrow> nat \<Rightarrow> (buffer \<times> nat) result) \<Rightarrow> 'v list \<Rightarrow> buffer \<Rightarrow> nat \<Rightarrow> (buffer \<times> nat) result"
where
  "serialize_all ser [] buf noffset = Inr (buf, noffset)"
| "serialize_all ser (v # vs) buf noffset =
     rbind (ser v buf noffset) (\<lambda>(buf, n). serialize_all ser vs buf (noffset + n))"

text \<open>
  \<open>for (idx = 0; idx < cnt; idx++) noffset += this->arguments[idx].deserialize(buf, noffset);\<close>
  over the already resized vector: each element is restored in place.
\<close>

fun deserialize_all ::
  "('v \<Rightarrow> buffer \<Rightarrow> nat \<Rightarrow> ('v \<times> nat) result) \<Rightarrow> 'v list \<Rightarrow> buffer \<Rightarrow> nat \<Rightarrow> ('v list \<times> nat) result"
where
  "deserialize_all de [] buf noffset = Inr ([], noffset)"
| "deserialize_all de (w # ws) buf noffset =
     rbind (de w buf noffset) (\<lambda>(v, n).
     rbind (deserialize_all de ws buf (noffset + n)) (\<lambda>(vs, noffset).
     Inr (v # vs, noffset)))"

section \<open>Frames\<close>

text \<open>
  \<open>make_sendable\<close> stores the number of bytes after the 8-byte header, cut to 32 bits, at index 4;
  \<open>read_size\<close> reads it back.
\<close>

definition make_sendable :: "buffer \<Rightarrow> buffer result" where
  "make_sendable buf = poke buf 4 (u32_bytes (of_nat (size_sub (length buf) 8)))"

definition read_size :: "buffer \<Rightarrow> nat result" where
  "read_size buf = rbind (peek buf 4 4) (\<lambda>bs. Inr (unat (u32_of_bytes bs)))"

text \<open>
  How the sender builds a frame: a zeroed vector of \<open>size() + sizeof(ipc_size_t)\<close> bytes, the
  message stored at offset 8, then \<open>make_sendable\<close>.
\<close>

definition pack_frame ::
  "('v \<Rightarrow> nat) \<Rightarrow> ('v \<Rightarrow> buffer \<Rightarrow> nat \<Rightarrow> (buffer \<times> nat) result) \<Rightarrow> 'v \<Rightarrow> buffer result"
where
  "pack_frame size_of ser m =
     rbind (ser m (replicate (size_of m + 8) (CHR 0x00)) 8) (\<lambda>(buf, _). make_sendable buf)"

text \<open>
  How the receiver takes a frame off a byte stream: 8 bytes of header, as many bytes of body as
  \<open>read_size\<close> says, and the body restored at offset 0.
\<close>

definition unpack_frame ::
  "('v \<Rightarrow> buffer \<Rightarrow> nat \<Rightarrow> ('v \<times> nat) result) \<Rightarrow> 'v \<Rightarrow> buffer \<Rightarrow> ('v \<times> buffer) result"
where
  "unpack_frame de w bytes =
     rbind (peek bytes 0 8) (\<lambda>header.
     rbind (read_size header) (\<lambda>n.
     rbind (peek bytes 8 n) (\<lambda>body.
     rbind (de w body 0) (\<lambda>(m, _).
     Inr (m, drop (8 + n) bytes)))))"

text \<open>Taking a number of frames off a stream, one after the other.\<close>

fun unpack_frames ::
  "('v \<Rightarrow> buffer \<Rightarrow> nat \<Rightarrow> ('v \<times> nat) result) \<Rightarrow> 'v \<Rightarrow> nat \<Rightarrow> buffer \<Rightarrow> ('v list \<times> buffer) result"
where
  "unpack_frames de w 0 bytes = Inr ([], bytes)"
| "unpack_frames de w (Suc n) bytes =
     rbind (unpack_frame de w bytes) (\<lambda>(m, bytes).
     rbind (unpack_frames de w n bytes) (\<lambda>(ms, bytes).
     Inr (m # ms, bytes)))"

text \<open>The bytes a frame consists of.\<close>

definition frame_image :: "buffer \<Rightarrow> buffer" where
  "frame_image body = replicate 4 (CHR 0x00) @ u32_bytes (of_nat (length body)) @ body"

lemma make_sendable_image:
  assumes "8 \<le> length buf" and "length buf < 2 ^ 64"
  shows "make_sendable buf = Inr (take 4 buf @ u32_bytes (of_nat (length buf - 8)) @ drop 8 buf)"
  using assms by (simp add: make_sendable_def size_sub_le poke_def)

lemma make_sendable_ok: "8 \<le> length buf \<Longrightarrow> \<exists>f. make_sendable buf = Inr f"
  by (simp add: make_sendable_def poke_def)

lemma make_sendable_short: "length buf < 8 \<Longrightarrow> make_sendable buf = Inl Bad_Access"
  by (simp add: make_sendable_def poke_def)

lemma read_size_image:
  "read_size (take 4 buf @ u32_bytes w @ rest) = Inr (unat w)" if "4 \<le> length buf"
  using that by (simp add: read_size_def peek_def)

lemma read_size_header:
  assumes "length body < 2 ^ 32"
  shows "read_size (take 8 (frame_image body @ rest)) = Inr (length body)"
  using assms by (simp add: frame_image_def read_size_def peek_def unat_of_nat_u32)

section \<open>The contract\<close>

locale wire_codec =
  fixes content :: "'v \<Rightarrow> 'c"
    and wire :: "'v \<Rightarrow> buffer"
    and size_of :: "'v \<Rightarrow> nat"
    and ser :: "'v \<Rightarrow> buffer \<Rightarrow> nat \<Rightarrow> (buffer \<times> nat) result"
    and de :: "'v \<Rightarrow> buffer \<Rightarrow> nat \<Rightarrow> ('v \<times> nat) result"
    and ok :: "'v \<Rightarrow> bool"
  assumes length_wire: "length (wire v) = size_of v"
    and ser_mid: "off = length pre \<Longrightarrow> length mid = size_of v \<Longrightarrow>
      length (pre @ mid @ post) < 2 ^ 64 \<Longrightarrow>
      ser v (pre @ mid @ post) off = Inr (pre @ wire v @ post, size_of v)"
    and ser_small: "off \<le> length buf \<Longrightarrow> length buf < 2 ^ 64 \<Longrightarrow> length buf < off + size_of v \<Longrightarrow>
      \<exists>msg. ser v buf off = Inl (Exception msg)"
    and de_mid: "ok v \<Longrightarrow> off = length pre \<Longrightarrow> length (pre @ wire v @ post) < 2 ^ 64 \<Longrightarrow>
      \<exists>v'. de w (pre @ wire v @ post) off = Inr (v', size_of v) \<and> content v' = content v"
begin

lemma ser_inside:
  assumes "off + size_of v \<le> length buf" and "length buf < 2 ^ 64"
  shows "ser v buf off = Inr (take off buf @ wire v @ drop (off + size_of v) buf, size_of v)"
proof -
  from split_mid [OF assms(1)] obtain pre mid post
    where "buf = pre @ mid @ post" "length pre = off" "length mid = size_of v" by blast
  with assms show ?thesis using ser_mid [of off pre mid v post] by simp
qed

lemma serialize_all_mid:
  "off = length pre \<Longrightarrow> length mid = sum_list (map size_of vs) \<Longrightarrow>
   length (pre @ mid @ post) < 2 ^ 64 \<Longrightarrow>
   serialize_all ser vs (pre @ mid @ post) off =
     Inr (pre @ concat (map wire vs) @ post, off + sum_list (map size_of vs))"
proof (induction vs arbitrary: pre mid off)
  case (Cons v vs)
  define m1 where "m1 = take (size_of v) mid"
  define m2 where "m2 = drop (size_of v) mid"
  have mid: "mid = m1 @ m2" "length m1 = size_of v" "length m2 = sum_list (map size_of vs)"
    using Cons.prems by (auto simp: m1_def m2_def)
  have "ser v (pre @ m1 @ (m2 @ post)) off = Inr (pre @ wire v @ (m2 @ post), size_of v)"
    by (rule ser_mid) (use Cons.prems mid in auto)
  moreover have "serialize_all ser vs ((pre @ wire v) @ m2 @ post) (off + size_of v) =
      Inr ((pre @ wire v) @ concat (map wire vs) @ post,
           (off + size_of v) + sum_list (map size_of vs))"
    by (rule Cons.IH) (use Cons.prems mid in \<open>auto simp: length_wire\<close>)
  ultimately show ?case using mid by (simp add: add.assoc)
qed simp

lemma deserialize_all_mid:
  "list_all ok vs \<Longrightarrow> length ws = length vs \<Longrightarrow> off = length pre \<Longrightarrow>
   length (pre @ concat (map wire vs) @ post) < 2 ^ 64 \<Longrightarrow>
   \<exists>vs'. deserialize_all de ws (pre @ concat (map wire vs) @ post) off =
           Inr (vs', off + sum_list (map size_of vs)) \<and> map content vs' = map content vs"
proof (induction vs arbitrary: ws pre off)
  case (Cons v vs)
  then obtain w ws' where ws: "ws = w # ws'" "length ws' = length vs"
    by (cases ws) auto
  let ?post = "concat (map wire vs) @ post"
  obtain v' where v': "de w (pre @ wire v @ ?post) off = Inr (v', size_of v)"
      "content v' = content v"
    using de_mid [of v off pre ?post w] Cons.prems by auto
  obtain vs' where vs': "deserialize_all de ws' ((pre @ wire v) @ ?post) (off + size_of v) =
        Inr (vs', (off + size_of v) + sum_list (map size_of vs))" "map content vs' = map content vs"
    using Cons.IH [of ws' "off + size_of v" "pre @ wire v"] Cons.prems ws
    by (auto simp: length_wire)
  from ws v' vs' show ?case
    by (intro exI [of _ "v' # vs'"]) (simp add: add.assoc)
qed simp

lemma length_concat_wire: "length (concat (map wire vs)) = sum_list (map size_of vs)"
  by (induction vs) (auto simp: length_wire)

text \<open>A sent frame: header, then the wire image; taking it off a stream gives the message back.\<close>

lemma pack_frame_image:
  assumes "size_of m + 8 < 2 ^ 64"
  shows "pack_frame size_of ser m = Inr (frame_image (wire m))"
proof -
  let ?z = "replicate (size_of m + 8) (CHR 0x00)"
  have "ser m ?z 8 = Inr (take 8 ?z @ wire m @ drop (8 + size_of m) ?z, size_of m)"
    using assms by (intro ser_inside) auto
  then have "ser m ?z 8 = Inr (replicate 8 (CHR 0x00) @ wire m, size_of m)"
    by (simp add: min_def)
  moreover have "make_sendable (replicate 8 (CHR 0x00) @ wire m) = Inr (frame_image (wire m))"
    using assms by (simp add: make_sendable_image length_wire frame_image_def min_def)
  ultimately show ?thesis by (simp add: pack_frame_def)
qed

lemma unpack_frame_image:
  assumes "ok m" and "size_of m < 2 ^ 32"
  shows "\<exists>m'. unpack_frame de w (frame_image (wire m) @ rest) = Inr (m', rest) \<and> content m' = content m"
proof -
  have len: "length (wire m) < 2 ^ 64" using assms by (simp add: length_wire)
  obtain m' where "de w ([] @ wire m @ []) 0 = Inr (m', size_of m)" "content m' = content m"
    using de_mid [of m 0 "[]" "[]" w] assms(1) len by auto
  moreover have "peek (frame_image (wire m) @ rest) 0 8 = Inr (take 8 (frame_image (wire m) @ rest))"
    by (simp add: peek_def frame_image_def)
  moreover have "read_size (take 8 (frame_image (wire m) @ rest)) = Inr (size_of m)"
    using read_size_header [of "wire m" rest] assms(2) by (simp only: length_wire)
  moreover have "peek (frame_image (wire m) @ rest) 8 (size_of m) = Inr (wire m)"
    by (simp add: peek_def frame_image_def length_wire)
  ultimately show ?thesis
    by (intro exI [of _ m']) (simp add: unpack_frame_def frame_image_def length_wire)
qed

text \<open>Frames sent back to back come off the stream one by one, with nothing left over or mixed up.\<close>

lemma unpack_frames_image:
  "list_all (\<lambda>m. ok m \<and> size_of m < 2 ^ 32) ms \<Longrightarrow>
   \<exists>ms'. unpack_frames de w (length ms) (concat (map (\<lambda>m. frame_image (wire m)) ms) @ rest) = Inr (ms', rest) \<and>
     map content ms' = map content ms"
proof (induction ms)
  case (Cons m ms)
  let ?rest = "concat (map (\<lambda>m. frame_image (wire m)) ms) @ rest"
  obtain m' where "unpack_frame de w (frame_image (wire m) @ ?rest) = Inr (m', ?rest)"
      "content m' = content m"
    using unpack_frame_image [of m w ?rest] Cons.prems by auto
  moreover obtain ms' where "unpack_frames de w (length ms) ?rest = Inr (ms', rest)"
      "map content ms' = map content ms"
    using Cons by auto
  ultimately show ?case by (intro exI [of _ "m' # ms'"]) simp
qed simp

end

text \<open>
  A decoder that, whatever the bytes, never leaves the buffer and accepts only wire images: what it
  consumed is the image of what it returns.
\<close>

locale strict_codec = wire_codec +
  assumes de_safe: "off \<le> length buf \<Longrightarrow> length buf < 2 ^ 64 \<Longrightarrow> de w buf off \<noteq> Inl Bad_Access"
    and de_sound: "length buf < 2 ^ 64 \<Longrightarrow> de w buf off = Inr (v, n) \<Longrightarrow>
      off + n \<le> length buf \<and> take n (drop off buf) = wire v \<and> ok v"
begin

lemma deserialize_all_sound:
  "length buf < 2 ^ 64 \<Longrightarrow> off \<le> length buf \<Longrightarrow> deserialize_all de ws buf off = Inr (vs, off') \<Longrightarrow>
   length vs = length ws \<and> off \<le> off' \<and> off' \<le> length buf \<and> list_all ok vs \<and>
   take (off' - off) (drop off buf) = concat (map wire vs)"
proof (induction ws arbitrary: off vs)
  case (Cons w ws)
  then obtain v n vs' where v: "de w buf off = Inr (v, n)"
      and vs': "deserialize_all de ws buf (off + n) = Inr (vs', off')" and vs: "vs = v # vs'"
    by (auto simp: rbind_eq_Inr_iff)
  have s: "off + n \<le> length buf" "take n (drop off buf) = wire v" "ok v"
    using de_sound [OF Cons.prems(1) v] by auto
  have IH: "length vs' = length ws" "off + n \<le> off'" "off' \<le> length buf" "list_all ok vs'"
      "take (off' - (off + n)) (drop (off + n) buf) = concat (map wire vs')"
    using Cons.IH [OF Cons.prems(1) s(1) vs'] by auto
  have "take (off' - off) (drop off buf) = take (n + (off' - (off + n))) (drop off buf)"
    using IH(2) by simp
  also have "\<dots> = wire v @ concat (map wire vs')"
    by (simp only: take_drop_split s(2) IH(5))
  finally show ?case using IH s vs by simp
qed simp

lemma deserialize_all_safe:
  "length buf < 2 ^ 64 \<Longrightarrow> off \<le> length buf \<Longrightarrow> deserialize_all de ws buf off \<noteq> Inl Bad_Access"
proof (induction ws arbitrary: off)
  case (Cons w ws)
  then show ?case
    using de_safe [of off buf w] de_sound [of buf w off]
    by (auto simp: rbind_eq_Inl_iff)
qed simp

end

end
