(* ===== verification/Ipc_Value.thy ===== *)
theory Ipc_Value
  imports Wire_Codec
begin

unbundle bit_operations_syntax

text \<open>
  \<open>ipc::value\<close> (\<open>include/ipc-value.hpp\<close>, \<open>source/ipc-value.cpp\<close>): the tagged value that every
  message is made of, its constructors, its size, and its conversion to and from bytes.

  The union is its 8 bytes of storage, so a constructor that writes 4 of them leaves the other 4
  as they were, and a default-constructed value holds whatever the storage held: the constructors
  take that content as an argument. The two floating-point members are their bit patterns, which
  is all the code uses of them.
\<close>

section \<open>The value\<close>

text \<open>
  \<open>enum class type : uint32_t\<close>. Every 32-bit number is a value of the C++ type, and
  \<open>deserialize\<close> stores whatever number it read: \<open>TUnnamed\<close> stands for the numbers without an
  enumerator.
\<close>

datatype vtype = TNull | TFloat | TDouble | TInt32 | TInt64 | TUInt32 | TUInt64 | TString | TBinary
  | TUnnamed u32

fun type_code :: "vtype \<Rightarrow> u32" where
  "type_code TNull = 0"
| "type_code TFloat = 1"
| "type_code TDouble = 2"
| "type_code TInt32 = 3"
| "type_code TInt64 = 4"
| "type_code TUInt32 = 5"
| "type_code TUInt64 = 6"
| "type_code TString = 7"
| "type_code TBinary = 8"
| "type_code (TUnnamed w) = w"

definition type_of_code :: "u32 \<Rightarrow> vtype" where
  "type_of_code w =
     (if w = 0 then TNull else if w = 1 then TFloat else if w = 2 then TDouble
      else if w = 3 then TInt32 else if w = 4 then TInt64 else if w = 5 then TUInt32
      else if w = 6 then TUInt64 else if w = 7 then TString else if w = 8 then TBinary
      else TUnnamed w)"

text \<open>A well-formed tag: the unnamed numbers are those past the last enumerator.\<close>

fun type_ok :: "vtype \<Rightarrow> bool" where
  "type_ok (TUnnamed w) = (8 < w)"
| "type_ok _ = True"

record ipc_value =
  value_type :: vtype
  value_union :: u64
  value_str :: string
  value_bin :: buffer

text \<open>The union read and written through a 32-bit member (the low half, little-endian).\<close>

definition union_low :: "u64 \<Rightarrow> u32" where
  "union_low u = ucast u"

definition set_union_low :: "u64 \<Rightarrow> u32 \<Rightarrow> u64" where
  "set_union_low u w = (u AND NOT (mask 32)) OR ucast w"

lemma union_low_set [simp]: "union_low (set_union_low u w) = w"
  by (rule bit_word_eqI) (simp add: union_low_def set_union_low_def bit_simps)

section \<open>Constructors\<close>

text \<open>\<open>value()\<close>: only the tag is set; \<open>u\<close> is what the union's storage held.\<close>

definition value_default :: "u64 \<Rightarrow> ipc_value" where
  "value_default u = \<lparr>value_type = TNull, value_union = u, value_str = [], value_bin = []\<rparr>"

definition value_of_binary :: "u64 \<Rightarrow> buffer \<Rightarrow> ipc_value" where
  "value_of_binary u bs = \<lparr>value_type = TBinary, value_union = u, value_str = [], value_bin = bs\<rparr>"

definition value_of_string :: "u64 \<Rightarrow> string \<Rightarrow> ipc_value" where
  "value_of_string u s = \<lparr>value_type = TString, value_union = u, value_str = s, value_bin = []\<rparr>"

definition value_of_uint64 :: "u64 \<Rightarrow> ipc_value" where
  "value_of_uint64 w = \<lparr>value_type = TUInt64, value_union = w, value_str = [], value_bin = []\<rparr>"

definition value_of_uint32 :: "u64 \<Rightarrow> u32 \<Rightarrow> ipc_value" where
  "value_of_uint32 u w =
     \<lparr>value_type = TUInt32, value_union = set_union_low u w, value_str = [], value_bin = []\<rparr>"

definition value_of_int64 :: "u64 \<Rightarrow> ipc_value" where
  "value_of_int64 w = \<lparr>value_type = TInt64, value_union = w, value_str = [], value_bin = []\<rparr>"

definition value_of_int32 :: "u64 \<Rightarrow> u32 \<Rightarrow> ipc_value" where
  "value_of_int32 u w =
     \<lparr>value_type = TInt32, value_union = set_union_low u w, value_str = [], value_bin = []\<rparr>"

definition value_of_double :: "u64 \<Rightarrow> ipc_value" where
  "value_of_double w = \<lparr>value_type = TDouble, value_union = w, value_str = [], value_bin = []\<rparr>"

definition value_of_float :: "u64 \<Rightarrow> u32 \<Rightarrow> ipc_value" where
  "value_of_float u w =
     \<lparr>value_type = TFloat, value_union = set_union_low u w, value_str = [], value_bin = []\<rparr>"

section \<open>Size, serialize, deserialize\<close>

definition value_size :: "ipc_value \<Rightarrow> nat" where
  "value_size v = 4 +
     (case value_type v of
        TInt32 \<Rightarrow> 4
      | TUInt32 \<Rightarrow> 4
      | TFloat \<Rightarrow> 4
      | TInt64 \<Rightarrow> 8
      | TUInt64 \<Rightarrow> 8
      | TDouble \<Rightarrow> 8
      | TString \<Rightarrow> 4 + length (value_str v)
      | TBinary \<Rightarrow> 4 + length (value_bin v)
      | _ \<Rightarrow> 0)"

text \<open>
  The two branches for a string and for a blob: the length cut to 32 bits, then the bytes. The
  copy is skipped when there is nothing to copy.
\<close>

definition serialize_bytes :: "buffer \<Rightarrow> buffer \<Rightarrow> nat \<Rightarrow> (buffer \<times> nat) result" where
  "serialize_bytes bs buf noffset =
     rbind (poke buf noffset (u32_bytes (of_nat (length bs)))) (\<lambda>buf.
     let noffset = noffset + 4 in
     rbind (if 0 < length bs then poke buf noffset bs else Inr buf) (\<lambda>buf.
     Inr (buf, noffset + length bs)))"

definition value_serialize :: "ipc_value \<Rightarrow> buffer \<Rightarrow> nat \<Rightarrow> (buffer \<times> nat) result" where
  "value_serialize v buf offset =
     (let buf_size = size_sub (length buf) offset; full_size = value_size v in
      if buf_size < full_size
      then Inl (Exception ''Value serialization failed, buffer too small'')
      else
        rbind (poke buf offset (u32_bytes (type_code (value_type v)))) (\<lambda>buf.
        let noffset = offset + 4 in
        rbind
          (case value_type v of
             TInt32 \<Rightarrow> rbind (poke buf noffset (u32_bytes (union_low (value_union v))))
               (\<lambda>buf. Inr (buf, noffset + 4))
           | TUInt32 \<Rightarrow> rbind (poke buf noffset (u32_bytes (union_low (value_union v))))
               (\<lambda>buf. Inr (buf, noffset + 4))
           | TFloat \<Rightarrow> rbind (poke buf noffset (u32_bytes (union_low (value_union v))))
               (\<lambda>buf. Inr (buf, noffset + 4))
           | TInt64 \<Rightarrow> rbind (poke buf noffset (u64_bytes (value_union v)))
               (\<lambda>buf. Inr (buf, noffset + 8))
           | TUInt64 \<Rightarrow> rbind (poke buf noffset (u64_bytes (value_union v)))
               (\<lambda>buf. Inr (buf, noffset + 8))
           | TDouble \<Rightarrow> rbind (poke buf noffset (u64_bytes (value_union v)))
               (\<lambda>buf. Inr (buf, noffset + 8))
           | TString \<Rightarrow> serialize_bytes (value_str v) buf noffset
           | TBinary \<Rightarrow> serialize_bytes (value_bin v) buf noffset
           | _ \<Rightarrow> Inr (buf, noffset))
          (\<lambda>(buf, noffset). Inr (buf, noffset - offset))))"

text \<open>
  The bounds checks of \<open>deserialize\<close> subtract in \<open>size_t\<close> and call \<open>abort()\<close>. Reading a length
  and that many bytes is the same for strings and blobs.
\<close>

definition deserialize_bytes :: "buffer \<Rightarrow> nat \<Rightarrow> (buffer \<times> nat) result" where
  "deserialize_bytes buf noffset =
     (if size_sub (length buf) noffset < 4 then Inl Abort
      else rbind (peek buf noffset 4) (\<lambda>bs.
        let len = unat (u32_of_bytes bs); noffset = noffset + 4 in
        if size_sub (length buf) noffset < len then Inl Abort
        else rbind (if 0 < len then peek buf noffset len else Inr []) (\<lambda>bs.
          Inr (bs, noffset + len))))"

definition value_deserialize :: "ipc_value \<Rightarrow> buffer \<Rightarrow> nat \<Rightarrow> (ipc_value \<times> nat) result" where
  "value_deserialize v buf offset =
     (if size_sub (length buf) offset < 4 then Inl Abort
      else rbind (peek buf offset 4) (\<lambda>bs.
        let v = v\<lparr>value_type := type_of_code (u32_of_bytes bs)\<rparr>; noffset = offset + 4 in
        rbind
          (if value_type v \<in> {TInt32, TUInt32, TFloat} then
             (if size_sub (length buf) noffset < 4 then Inl Abort
              else rbind (peek buf noffset 4) (\<lambda>bs.
                Inr (v\<lparr>value_union := set_union_low (value_union v) (u32_of_bytes bs)\<rparr>, noffset + 4)))
           else if value_type v \<in> {TInt64, TUInt64, TDouble} then
             (if size_sub (length buf) noffset < 8 then Inl Abort
              else rbind (peek buf noffset 8) (\<lambda>bs.
                Inr (v\<lparr>value_union := u64_of_bytes bs\<rparr>, noffset + 8)))
           else if value_type v = TString then
             rbind (deserialize_bytes buf noffset) (\<lambda>(bs, noffset). Inr (v\<lparr>value_str := bs\<rparr>, noffset))
           else if value_type v = TBinary then
             rbind (deserialize_bytes buf noffset) (\<lambda>(bs, noffset). Inr (v\<lparr>value_bin := bs\<rparr>, noffset))
           else Inr (v, noffset))
          (\<lambda>(v, noffset). Inr (v, noffset - offset))))"

section \<open>What a value says\<close>

text \<open>
  The content of a value: its tag and the member the tag selects. Leftover bytes of the union and
  the members the tag does not select are not part of it.
\<close>

datatype content = No_Content vtype | Content32 vtype u32 | Content64 vtype u64
  | Content_Bytes vtype buffer

definition value_content :: "ipc_value \<Rightarrow> content" where
  "value_content v =
     (case value_type v of
        TInt32 \<Rightarrow> Content32 TInt32 (union_low (value_union v))
      | TUInt32 \<Rightarrow> Content32 TUInt32 (union_low (value_union v))
      | TFloat \<Rightarrow> Content32 TFloat (union_low (value_union v))
      | TInt64 \<Rightarrow> Content64 TInt64 (value_union v)
      | TUInt64 \<Rightarrow> Content64 TUInt64 (value_union v)
      | TDouble \<Rightarrow> Content64 TDouble (value_union v)
      | TString \<Rightarrow> Content_Bytes TString (value_str v)
      | TBinary \<Rightarrow> Content_Bytes TBinary (value_bin v)
      | t \<Rightarrow> No_Content t)"

text \<open>The wire format: the tag in 4 bytes, then the member; bytes are preceded by their number.\<close>

fun content_wire :: "content \<Rightarrow> buffer" where
  "content_wire (No_Content t) = u32_bytes (type_code t)"
| "content_wire (Content32 t w) = u32_bytes (type_code t) @ u32_bytes w"
| "content_wire (Content64 t w) = u32_bytes (type_code t) @ u64_bytes w"
| "content_wire (Content_Bytes t bs) =
     u32_bytes (type_code t) @ u32_bytes (of_nat (length bs)) @ bs"

definition value_wire :: "ipc_value \<Rightarrow> buffer" where
  "value_wire v = content_wire (value_content v)"

text \<open>Values whose strings and blobs have a length the 32-bit length field can hold.\<close>

definition value_ok :: "ipc_value \<Rightarrow> bool" where
  "value_ok v \<longleftrightarrow> type_ok (value_type v) \<and>
     (value_type v = TString \<longrightarrow> length (value_str v) < 2 ^ 32) \<and>
     (value_type v = TBinary \<longrightarrow> length (value_bin v) < 2 ^ 32)"

section \<open>Tags\<close>

lemma type_of_type_code [simp]: "type_ok t \<Longrightarrow> type_of_code (type_code t) = t"
proof (cases t)
  case (TUnnamed w)
  assume "type_ok t"
  with TUnnamed have "8 < w" by simp
  then have "w \<noteq> 0 \<and> w \<noteq> 1 \<and> w \<noteq> 2 \<and> w \<noteq> 3 \<and> w \<noteq> 4 \<and> w \<noteq> 5 \<and> w \<noteq> 6 \<and> w \<noteq> 7 \<and> w \<noteq> 8"
    by auto
  with TUnnamed show ?thesis by (simp add: type_of_code_def)
qed (simp_all add: type_of_code_def)

lemma type_of_code_unnamed [simp]: "8 < w \<Longrightarrow> type_of_code w = TUnnamed w"
  using type_of_type_code [of "TUnnamed w"] by simp

lemma type_of_code_named [simp]:
  "type_of_code 0 = TNull" "type_of_code 1 = TFloat" "type_of_code 2 = TDouble"
  "type_of_code 3 = TInt32" "type_of_code 4 = TInt64" "type_of_code 5 = TUInt32"
  "type_of_code 6 = TUInt64" "type_of_code 7 = TString" "type_of_code 8 = TBinary"
  by (simp_all add: type_of_code_def)

lemma type_code_of_code [simp]: "type_code (type_of_code w) = w"
  by (simp add: type_of_code_def)

lemma word_cases_9: "w = 0 \<or> w = 1 \<or> w = 2 \<or> w = 3 \<or> w = 4 \<or> w = 5 \<or> w = 6 \<or> w = 7 \<or> w = 8 \<or> 8 < (w :: u32)"
proof (rule ccontr)
  assume a: "\<not> ?thesis"
  then have "unat w \<le> 8" by (simp add: word_less_nat_alt)
  moreover have "unat w \<noteq> 0" "unat w \<noteq> 1" "unat w \<noteq> 2" "unat w \<noteq> 3" "unat w \<noteq> 4" "unat w \<noteq> 5"
      "unat w \<noteq> 6" "unat w \<noteq> 7" "unat w \<noteq> 8"
    using a by (auto simp: word_unat_eq_iff)
  ultimately show False by linarith
qed

lemma type_ok_of_code [simp]: "type_ok (type_of_code w)"
  using word_cases_9 [of w] by (auto simp: type_of_code_def)

section \<open>The codec contract for values\<close>

lemma length_value_wire: "length (value_wire v) = value_size v"
  by (simp add: value_wire_def value_content_def value_size_def split: vtype.split)

lemma serialize_bytes_mid:
  assumes "length mid = 4 + length bs" and "noffset = length pre"
  shows "serialize_bytes bs (pre @ mid @ post) noffset =
    Inr (pre @ u32_bytes (of_nat (length bs)) @ bs @ post, noffset + 4 + length bs)"
  using assms by (auto simp: serialize_bytes_def poke_def Let_def)

lemma value_serialize_mid:
  assumes off: "off = length pre" and mid: "length mid = value_size v"
    and len: "length (pre @ mid @ post) < 2 ^ 64"
  shows "value_serialize v (pre @ mid @ post) off = Inr (pre @ value_wire v @ post, value_size v)"
proof -
  have chk: "size_sub (length (pre @ mid @ post)) off \<ge> value_size v"
    using assms by (simp add: size_sub_le)
  have four: "4 \<le> length mid" by (simp add: mid value_size_def)
  have tag: "poke (pre @ mid @ post) off (u32_bytes t) = Inr (pre @ u32_bytes t @ drop 4 mid @ post)" for t
    using four off by (simp add: poke_def)
  have word: "poke (pre @ u32_bytes t @ drop 4 mid @ post) (off + 4) bs =
      Inr (pre @ u32_bytes t @ bs @ post)" if "length mid = 4 + length bs" for t bs
    using that off by (simp add: poke_def)
  have bytes: "serialize_bytes bs (pre @ u32_bytes t @ drop 4 mid @ post) (off + 4) =
      Inr (pre @ u32_bytes t @ u32_bytes (of_nat (length bs)) @ bs @ post, off + 8 + length bs)"
    if "length mid = 8 + length bs" for t bs
    using serialize_bytes_mid [of "drop 4 mid" bs "off + 4" "pre @ u32_bytes t" post] that off by simp
  have "value_serialize v (pre @ mid @ post) off =
      rbind (case value_type v of
          TInt32 \<Rightarrow> Inr (pre @ u32_bytes 3 @ u32_bytes (union_low (value_union v)) @ post, off + 8)
        | TUInt32 \<Rightarrow> Inr (pre @ u32_bytes 5 @ u32_bytes (union_low (value_union v)) @ post, off + 8)
        | TFloat \<Rightarrow> Inr (pre @ u32_bytes 1 @ u32_bytes (union_low (value_union v)) @ post, off + 8)
        | TInt64 \<Rightarrow> Inr (pre @ u32_bytes 4 @ u64_bytes (value_union v) @ post, off + 12)
        | TUInt64 \<Rightarrow> Inr (pre @ u32_bytes 6 @ u64_bytes (value_union v) @ post, off + 12)
        | TDouble \<Rightarrow> Inr (pre @ u32_bytes 2 @ u64_bytes (value_union v) @ post, off + 12)
        | TString \<Rightarrow> Inr (pre @ u32_bytes 7 @ u32_bytes (of_nat (length (value_str v))) @
            value_str v @ post, off + 8 + length (value_str v))
        | TBinary \<Rightarrow> Inr (pre @ u32_bytes 8 @ u32_bytes (of_nat (length (value_bin v))) @
            value_bin v @ post, off + 8 + length (value_bin v))
        | t \<Rightarrow> Inr (pre @ u32_bytes (type_code t) @ drop 4 mid @ post, off + 4))
        (\<lambda>(buf, noffset). Inr (buf, noffset - off))"
    unfolding value_serialize_def Let_def if_not_P [OF chk [unfolded linorder_not_less [symmetric]]]
    using mid by (cases "value_type v") (simp_all add: tag word bytes value_size_def)
  then show ?thesis
    using mid by (cases "value_type v") (simp_all add: value_size_def value_wire_def value_content_def)
qed

lemma value_serialize_small:
  assumes "off \<le> length buf" and "length buf < 2 ^ 64" and "length buf < off + value_size v"
  shows "value_serialize v buf off = Inl (Exception ''Value serialization failed, buffer too small'')"
proof -
  have "size_sub (length buf) off < value_size v"
    using assms by (simp add: size_sub_le)
  then show ?thesis by (simp add: value_serialize_def)
qed

lemma deserialize_bytes_mid:
  assumes "noffset = length pre" and "length (pre @ u32_bytes w @ bs @ post) < 2 ^ 64"
    and "unat w \<le> length bs"
  shows "deserialize_bytes (pre @ u32_bytes w @ bs @ post) noffset =
    Inr (take (unat w) bs, noffset + 4 + unat w)"
  using assms by (auto simp: deserialize_bytes_def peek_def Let_def size_sub_le)

lemma deserialize_bytes_mid':
  assumes "noffset = length pre + 4" and "length (pre @ tag @ u32_bytes w @ bs @ post) < 2 ^ 64"
    and "unat w \<le> length bs" and "length tag = 4"
  shows "deserialize_bytes (pre @ tag @ u32_bytes w @ bs @ post) noffset =
    Inr (take (unat w) bs, noffset + 4 + unat w)"
  using deserialize_bytes_mid [of noffset "pre @ tag" w bs post] assms by simp

text \<open>
  Restoring what was stored, without any bound on the lengths: a string or blob comes back cut to
  its length modulo \<open>2 ^ 32\<close>.
\<close>

fun cut_content :: "content \<Rightarrow> content" where
  "cut_content (Content_Bytes t bs) = Content_Bytes t (take (length bs mod 2 ^ 32) bs)"
| "cut_content c = c"

lemma unat_u32_of_nat: "unat (of_nat n :: u32) = n mod 2 ^ 32"
  by (simp add: unat_of_nat take_bit_eq_mod)

lemma value_deserialize_mid:
  assumes ok: "type_ok (value_type v)" and off: "off = length pre"
    and len: "length (pre @ value_wire v @ post) < 2 ^ 64"
  shows "\<exists>v'. value_deserialize w (pre @ value_wire v @ post) off =
      Inr (v', length (content_wire (cut_content (value_content v)))) \<and>
    value_content v' = cut_content (value_content v)"
proof -
  have bytes: "deserialize_bytes (pre @ u32_bytes t @ u32_bytes (of_nat (length bs)) @ bs @ post) (length pre + 4)
      = Inr (take (length bs mod 2 ^ 32) bs, length pre + 8 + length bs mod 2 ^ 32)"
    if "length pre + 8 + length bs + length post < 2 ^ 64" for t bs
    using that deserialize_bytes_mid' [of "length pre + 4" pre "u32_bytes t" "of_nat (length bs)" bs post]
    by (simp add: unat_u32_of_nat)
  show ?thesis
    using ok len off
    by (cases "value_type v")
       (simp_all add: value_deserialize_def value_wire_def value_content_def peek_def size_sub_le
          Let_def bytes)
qed

lemma cut_content_ok: "value_ok v \<Longrightarrow> cut_content (value_content v) = value_content v"
  by (auto simp: value_ok_def value_content_def split: vtype.split)

text \<open>The decoder stays in the buffer and accepts only wire images.\<close>

lemma deserialize_bytes_sound:
  assumes "deserialize_bytes buf noffset = Inr (bs, noffset')"
  shows "noffset' = noffset + 4 + length bs \<and> noffset' \<le> length buf \<and> length bs < 2 ^ 32 \<and>
    take (4 + length bs) (drop noffset buf) = u32_bytes (of_nat (length bs)) @ bs"
proof -
  from assms obtain lb where lb: "peek buf noffset 4 = Inr lb"
    and body: "rbind (if 0 < unat (u32_of_bytes lb) then peek buf (noffset + 4) (unat (u32_of_bytes lb)) else Inr [])
        (\<lambda>bs. Inr (bs, noffset + 4 + unat (u32_of_bytes lb))) = Inr (bs, noffset')"
    by (auto simp: deserialize_bytes_def Let_def rbind_eq_Inr_iff split: if_splits)
  from peek_InrD [OF lb] have lb': "noffset + 4 \<le> length buf" "lb = take 4 (drop noffset buf)"
    "length lb = 4" by auto
  define len where "len = unat (u32_of_bytes lb)"
  have bound: "len < 2 ^ 32"
    unfolding len_def by (rule order_less_le_trans [OF unsigned_less]) simp
  have lb_len: "lb = u32_bytes (of_nat len)"
    using lb'(3) by (simp add: len_def u32_bytes_of_bytes)
  have "noffset' = noffset + 4 + len" and bs: "length bs = len" "take len (drop (noffset + 4) buf) = bs"
      and "noffset + 4 + len \<le> length buf"
    using body lb'(1) by (auto simp: len_def [symmetric] rbind_eq_Inr_iff split: if_splits dest!: peek_InrD)
  moreover have "take (4 + len) (drop noffset buf) = u32_bytes (of_nat len) @ bs"
    by (simp only: take_drop_split bs(2) lb'(2) [symmetric] lb_len)
  ultimately show ?thesis using bound by simp
qed

lemma deserialize_bytes_safe:
  assumes "noffset \<le> length buf" and "length buf < 2 ^ 64"
  shows "deserialize_bytes buf noffset \<noteq> Inl Bad_Access"
  using assms
  by (auto simp: deserialize_bytes_def Let_def rbind_eq_Inl_iff size_sub_le peek_def split: if_splits)

lemma value_deserialize_safe:
  assumes "off \<le> length buf" and "length buf < 2 ^ 64"
  shows "value_deserialize w buf off \<noteq> Inl Bad_Access"
  using assms deserialize_bytes_safe [of "off + 4" buf]
  by (auto simp: value_deserialize_def Let_def rbind_eq_Inl_iff size_sub_le peek_def
      split: if_splits prod.splits)

lemma value_deserialize_sound:
  assumes len: "length buf < 2 ^ 64" and de: "value_deserialize w buf off = Inr (v, n)"
  shows "off + n \<le> length buf \<and> take n (drop off buf) = value_wire v \<and> value_ok v"
proof -
  from de obtain tb where tb: "peek buf off 4 = Inr tb"
    by (auto simp: value_deserialize_def rbind_eq_Inr_iff split: if_splits)
  define t where "t = type_of_code (u32_of_bytes tb)"
  from peek_InrD [OF tb] have tb': "off + 4 \<le> length buf" "take 4 (drop off buf) = u32_bytes (type_code t)"
    by (auto simp: t_def u32_bytes_of_bytes)
  have split: "take (4 + k) (drop off buf) = u32_bytes (type_code t) @ take k (drop (off + 4) buf)" for k
    by (simp add: take_drop_split tb'(2))
  have t_ok: "type_ok t" by (simp add: t_def)
  note deb = deserialize_bytes_sound [of buf "off + 4"]
  consider (w32) "t \<in> {TInt32, TUInt32, TFloat}" | (w64) "t \<in> {TInt64, TUInt64, TDouble}"
    | (str) "t = TString" | (bin) "t = TBinary" | (none) "t = TNull" | (other) c where "t = TUnnamed c"
    by (cases t) auto
  then show ?thesis
  proof cases
    case w32
    then obtain bs where "peek buf (off + 4) 4 = Inr bs" "n = 8"
        "v = w\<lparr>value_type := t, value_union := set_union_low (value_union w) (u32_of_bytes bs)\<rparr>"
      using de tb by (auto simp: value_deserialize_def Let_def rbind_eq_Inr_iff t_def [symmetric]
          split: if_splits)
    then show ?thesis
      using w32 split [of 4] by (auto dest!: peek_InrD simp: value_wire_def value_content_def
          value_ok_def u32_bytes_of_bytes)
  next
    case w64
    then obtain bs where "peek buf (off + 4) 8 = Inr bs" "n = 12"
        "v = w\<lparr>value_type := t, value_union := u64_of_bytes bs\<rparr>"
      using de tb by (auto simp: value_deserialize_def Let_def rbind_eq_Inr_iff t_def [symmetric]
          split: if_splits)
    then show ?thesis
      using w64 split [of 8] by (auto dest!: peek_InrD simp: value_wire_def value_content_def
          value_ok_def u64_bytes_of_bytes)
  next
    case str
    then obtain bs where "deserialize_bytes buf (off + 4) = Inr (bs, off + n)"
        "v = w\<lparr>value_type := t, value_str := bs\<rparr>" "4 \<le> n"
      using de tb deb by (auto simp: value_deserialize_def Let_def rbind_eq_Inr_iff t_def [symmetric]
          split: if_splits)
    then show ?thesis
      using str split [of "4 + length bs"] deb [of bs "off + n"]
      by (auto simp: value_wire_def value_content_def value_ok_def)
  next
    case bin
    then obtain bs where "deserialize_bytes buf (off + 4) = Inr (bs, off + n)"
        "v = w\<lparr>value_type := t, value_bin := bs\<rparr>" "4 \<le> n"
      using de tb deb by (auto simp: value_deserialize_def Let_def rbind_eq_Inr_iff t_def [symmetric]
          split: if_splits)
    then show ?thesis
      using bin split [of "4 + length bs"] deb [of bs "off + n"]
      by (auto simp: value_wire_def value_content_def value_ok_def)
  next
    case none
    then have "n = 4" "v = w\<lparr>value_type := t\<rparr>"
      using de tb by (auto simp: value_deserialize_def Let_def rbind_eq_Inr_iff t_def [symmetric]
          split: if_splits)
    then show ?thesis using none split [of 0] tb' by (simp add: value_wire_def value_content_def value_ok_def)
  next
    case (other c)
    then have "n = 4" "v = w\<lparr>value_type := t\<rparr>"
      using de tb by (auto simp: value_deserialize_def Let_def rbind_eq_Inr_iff t_def [symmetric]
          split: if_splits)
    then show ?thesis
      using other split [of 0] tb' t_ok by (simp add: value_wire_def value_content_def value_ok_def)
  qed
qed

text \<open>The value code meets the strict contract.\<close>

interpretation val: strict_codec value_content value_wire value_size value_serialize value_deserialize
  value_ok
proof unfold_locales
  show "length (value_wire v) = value_size v" for v by (rule length_value_wire)
  show "off = length pre \<Longrightarrow> length mid = value_size v \<Longrightarrow> length (pre @ mid @ post) < 2 ^ 64 \<Longrightarrow>
      value_serialize v (pre @ mid @ post) off = Inr (pre @ value_wire v @ post, value_size v)"
    for off pre mid v post by (rule value_serialize_mid)
  show "off \<le> length buf \<Longrightarrow> length buf < 2 ^ 64 \<Longrightarrow> length buf < off + value_size v \<Longrightarrow>
      \<exists>msg. value_serialize v buf off = Inl (Exception msg)" for off buf v
    using value_serialize_small by blast
  show "value_ok v \<Longrightarrow> off = length pre \<Longrightarrow> length (pre @ value_wire v @ post) < 2 ^ 64 \<Longrightarrow>
      \<exists>v'. value_deserialize w (pre @ value_wire v @ post) off = Inr (v', value_size v) \<and>
        value_content v' = value_content v" for v off pre post w
    using value_deserialize_mid [of v off pre post w] cut_content_ok [of v]
    by (simp add: value_ok_def value_wire_def [symmetric] length_value_wire)
  show "off \<le> length buf \<Longrightarrow> length buf < 2 ^ 64 \<Longrightarrow> value_deserialize w buf off \<noteq> Inl Bad_Access"
    for off buf w by (rule value_deserialize_safe)
  show "length buf < 2 ^ 64 \<Longrightarrow> value_deserialize w buf off = Inr (v, n) \<Longrightarrow>
      off + n \<le> length buf \<and> take n (drop off buf) = value_wire v \<and> value_ok v" for buf w off v n
    by (rule value_deserialize_sound)
qed

section \<open>Properties\<close>

text \<open>C13. Round trip of a value: storing a value whose string or blob is shorter than 4 GiB at an
  offset where it fits succeeds, reports the value's size, changes only those bytes of the buffer,
  and restoring from the same offset into any value object gives back a value with the same tag and
  content, having consumed the same number of bytes.\<close>

theorem value_roundtrip:
  assumes "value_ok v" and "offset + value_size v \<le> length buf" and "length buf < 2 ^ 64"
  shows "\<exists>buf' v'. value_serialize v buf offset = Inr (buf', value_size v) \<and>
    take offset buf' = take offset buf \<and>
    drop (offset + value_size v) buf' = drop (offset + value_size v) buf \<and>
    length buf' = length buf \<and>
    value_deserialize w buf' offset = Inr (v', value_size v) \<and> value_content v' = value_content v"
proof -
  let ?pre = "take offset buf" and ?post = "drop (offset + value_size v) buf"
  have len: "length (?pre @ value_wire v @ ?post) = length buf" "offset = length ?pre"
    using assms(2) by (auto simp: length_value_wire)
  obtain v' where "value_deserialize w (?pre @ value_wire v @ ?post) offset = Inr (v', value_size v)"
      "value_content v' = value_content v"
    using val.de_mid [OF assms(1) len(2), of ?post w] assms(3) len(1) by auto
  moreover have "value_serialize v buf offset = Inr (?pre @ value_wire v @ ?post, value_size v)"
    using assms(2,3) by (rule val.ser_inside)
  ultimately show ?thesis
    using len length_value_wire [of v] by (intro exI conjI) (assumption | simp)+
qed

theorem value_roundtrip_witness:
  "\<exists>buf' v'. value_serialize (value_of_string 0 ''hi'') (replicate 12 CHR 0x55) 1 = Inr (buf', 10) \<and>
    value_deserialize (value_default 7) buf' 1 = Inr (v', 10) \<and>
    value_content v' = Content_Bytes TString ''hi''"
  using value_roundtrip [of "value_of_string 0 ''hi''" 1 "replicate 12 CHR 0x55" "value_default 7"]
  by (auto simp: value_ok_def value_of_string_def value_size_def value_content_def)

text \<open>The value decoder accepts wire images only: whenever \<open>deserialize\<close> returns, what it
  consumed lies inside the buffer and is byte for byte what \<open>serialize\<close> writes for the value it
  returned.\<close>

theorem value_decode_canonical:
  assumes "length buf < 2 ^ 64" and "value_deserialize w buf offset = Inr (v, n)"
  shows "n = value_size v \<and> offset + n \<le> length buf \<and> value_serialize v buf offset = Inr (buf, n)"
proof -
  have s: "offset + n \<le> length buf" "take n (drop offset buf) = value_wire v"
    using val.de_sound [OF assms] by auto
  then have n: "n = value_size v"
    by (metis add_le_imp_le_diff add.commute length_drop length_take length_value_wire min_absorb2)
  have "value_serialize v buf offset =
      Inr (take offset buf @ value_wire v @ drop (offset + value_size v) buf, value_size v)"
    by (rule val.ser_inside) (use s n assms(1) in auto)
  moreover have "take offset buf @ take n (drop offset buf) @ drop (offset + n) buf = buf"
    by (metis add.commute append_take_drop_id drop_drop)
  ultimately show ?thesis using s n by simp
qed

theorem value_decode_canonical_witness:
  "value_serialize (value_of_uint32 0 258) (u32_bytes 5 @ u32_bytes 258) 0 =
     Inr (u32_bytes 5 @ u32_bytes 258, 8)"
proof -
  let ?buf = "u32_bytes 5 @ u32_bytes 258"
  have "value_deserialize (value_default 0) ?buf 0 = Inr (value_of_uint32 0 258, 8)"
    by (simp add: value_deserialize_def value_of_uint32_def value_default_def peek_def Let_def size_sub_le)
  from value_decode_canonical [OF _ this] show ?thesis by simp
qed

text \<open>C20. The value decoder is memory-safe on any input: started at an offset inside the buffer it
  either returns or calls \<open>abort()\<close>; it never reads outside the buffer and never throws.\<close>

theorem value_decode_safe:
  assumes "offset \<le> length buf" and "length buf < 2 ^ 64"
  shows "value_deserialize w buf offset = Inl Abort \<or>
    (\<exists>v n. value_deserialize w buf offset = Inr (v, n) \<and> offset + n \<le> length buf)"
proof (cases "value_deserialize w buf offset")
  case (Inl e)
  moreover have "e \<noteq> Exception msg" for msg
    using Inl by (auto simp: value_deserialize_def deserialize_bytes_def Let_def rbind_eq_Inl_iff
        peek_def split: if_splits prod.splits)
  ultimately show ?thesis
    using val.de_safe [OF assms, of w] by (cases e) auto
next
  case (Inr r)
  then show ?thesis using val.de_sound [OF assms(2), of w offset "fst r" "snd r"] by (cases r) auto
qed

theorem value_decode_safe_witness:
  "value_deserialize (value_default 0) (u32_bytes 3 @ ''ab'') 0 = Inl Abort"
  using value_decode_safe [of 0 "u32_bytes 3 @ ''ab''" "value_default 0"]
  by (auto simp: value_deserialize_def peek_def Let_def size_sub_le)

text \<open>C22. What \<open>serialize\<close> does, on every branch: at an offset inside the buffer it throws exactly
  when the rest of the buffer is smaller than the value, and otherwise replaces the bytes from the
  offset on by the value's wire image, touching nothing else.\<close>

theorem value_serialize_spec:
  assumes "offset \<le> length buf" and "length buf < 2 ^ 64"
  shows "value_serialize v buf offset =
    (if length buf - offset < value_size v
     then Inl (Exception ''Value serialization failed, buffer too small'')
     else Inr (take offset buf @ value_wire v @ drop (offset + value_size v) buf, value_size v))"
  using assms value_serialize_small [of offset buf v] val.ser_inside [of offset v buf] by auto

theorem value_serialize_spec_witness:
  "value_serialize (value_of_uint64 5) ''12345678'' 0 =
     Inl (Exception ''Value serialization failed, buffer too small'')"
  using value_serialize_spec [of 0 "''12345678''" "value_of_uint64 5"]
  by (simp add: value_size_def value_of_uint64_def)

text \<open>The length field has 32 bits: a string of \<open>n\<close> characters is always stored in full, but
  restoring it gives its first \<open>n mod 2 ^ 32\<close> characters and consumes only those.\<close>

theorem value_long_string_cut:
  assumes "length s + 8 < 2 ^ 64"
  shows "\<exists>v'. value_serialize (value_of_string u s) (replicate (8 + length s) CHR 0x00) 0 =
      Inr (value_wire (value_of_string u s), 8 + length s) \<and>
    value_deserialize w (value_wire (value_of_string u s)) 0 =
      Inr (v', 8 + length s mod 2 ^ 32) \<and>
    value_str v' = take (length s mod 2 ^ 32) s"
proof -
  let ?v = "value_of_string u s"
  have size: "value_size ?v = 8 + length s" by (simp add: value_size_def value_of_string_def)
  have "value_serialize ?v (replicate (8 + length s) CHR 0x00) 0 = Inr (value_wire ?v, 8 + length s)"
    using val.ser_inside [of 0 ?v "replicate (8 + length s) CHR 0x00"] assms size by simp
  moreover have "type_ok (value_type ?v)" by (simp add: value_of_string_def)
  then obtain v' where v': "value_deserialize w (value_wire ?v) 0 =
        Inr (v', length (content_wire (cut_content (value_content ?v))))"
      "value_content v' = cut_content (value_content ?v)"
    using value_deserialize_mid [of ?v 0 "[]" "[]" w] assms size length_value_wire [of ?v]
    by (metis append_Nil append_Nil2 list.size(3) add.commute)
  moreover have cut: "cut_content (value_content ?v) = Content_Bytes TString (take (length s mod 2 ^ 32) s)"
    by (simp add: value_content_def value_of_string_def)
  moreover have "value_str v' = take (length s mod 2 ^ 32) s"
    using v'(2) unfolding cut by (auto simp: value_content_def split: vtype.splits)
  moreover have "length (content_wire (Content_Bytes TString (take (length s mod 2 ^ 32) s))) =
      8 + length s mod 2 ^ 32"
    by (simp add: min_absorb2 mod_less_eq_dividend)
  ultimately show ?thesis by auto
qed

theorem value_long_string_cut_witness:
  "\<exists>v'. value_deserialize (value_default 0) (value_wire (value_of_string 0 ''abc'')) 0 = Inr (v', 11) \<and>
     value_str v' = ''abc''"
  using value_long_string_cut [of "''abc''" 0 "value_default 0"] by auto

end
