(* ===== verification/Ordered_Map.thy ===== *)
theory Ordered_Map
  imports Ipc_Prelude "HOL-Library.Char_ord" "HOL-Library.List_Lexorder"
begin

text \<open>
  \<open>std::map\<close> as the library uses it: an ordered container of key/value pairs with unique keys.
  The model keeps the pairs in a list in increasing key order, so that iterating over the map,
  which the code does in three places (\<open>collection::get_function\<close>, the callbacks run when a
  connection is lost, and \<open>server::finalize\<close>), visits them in the order C++ does. The locale
  \<open>std_map\<close> is the contract of the container; the list model satisfies it, and the components
  use its facts.
\<close>

section \<open>The container\<close>

type_synonym ('k, 'v) map_rep = "('k \<times> 'v) list"

definition map_ok :: "('k::linorder, 'v) map_rep \<Rightarrow> bool" where
  "map_ok m \<longleftrightarrow> sorted_wrt (<) (map fst m)"

definition map_find :: "('k::linorder, 'v) map_rep \<Rightarrow> 'k \<Rightarrow> 'v option" where
  "map_find m k = map_of m k"

text \<open>\<open>count\<close> is 0 or 1; \<open>insert\<close> keeps an existing entry, \<open>insert_or_assign\<close> replaces it.\<close>

definition map_count :: "('k::linorder, 'v) map_rep \<Rightarrow> 'k \<Rightarrow> nat" where
  "map_count m k = (if map_find m k = None then 0 else 1)"

fun map_insert :: "'k::linorder \<Rightarrow> 'v \<Rightarrow> ('k, 'v) map_rep \<Rightarrow> ('k, 'v) map_rep" where
  "map_insert k v [] = [(k, v)]"
| "map_insert k v ((k', v') # m) =
     (if k < k' then (k, v) # (k', v') # m
      else if k = k' then (k', v') # m
      else (k', v') # map_insert k v m)"

fun map_assign :: "'k::linorder \<Rightarrow> 'v \<Rightarrow> ('k, 'v) map_rep \<Rightarrow> ('k, 'v) map_rep" where
  "map_assign k v [] = [(k, v)]"
| "map_assign k v ((k', v') # m) =
     (if k < k' then (k, v) # (k', v') # m
      else if k = k' then (k, v) # m
      else (k', v') # map_assign k v m)"

definition map_erase :: "'k::linorder \<Rightarrow> ('k, 'v) map_rep \<Rightarrow> ('k, 'v) map_rep" where
  "map_erase k m = filter (\<lambda>(k', _). k' \<noteq> k) m"

section \<open>The contract\<close>

locale std_map =
  fixes find :: "'m \<Rightarrow> 'k::linorder \<Rightarrow> 'v option"
    and insert :: "'k \<Rightarrow> 'v \<Rightarrow> 'm \<Rightarrow> 'm"
    and assign :: "'k \<Rightarrow> 'v \<Rightarrow> 'm \<Rightarrow> 'm"
    and erase :: "'k \<Rightarrow> 'm \<Rightarrow> 'm"
    and items :: "'m \<Rightarrow> ('k \<times> 'v) list"
    and invar :: "'m \<Rightarrow> bool"
  assumes find_items: "invar m \<Longrightarrow> find m k = map_of (items m) k"
    and items_ordered: "invar m \<Longrightarrow> sorted_wrt (<) (map fst (items m))"
    and find_insert: "invar m \<Longrightarrow>
      find (insert k v m) = (if find m k = None then (find m)(k \<mapsto> v) else find m)"
    and find_assign: "invar m \<Longrightarrow> find (assign k v m) = (find m)(k \<mapsto> v)"
    and find_erase: "invar m \<Longrightarrow> find (erase k m) = (find m)(k := None)"
    and invar_insert: "invar m \<Longrightarrow> invar (insert k v m)"
    and invar_assign: "invar m \<Longrightarrow> invar (assign k v m)"
    and invar_erase: "invar m \<Longrightarrow> invar (erase k m)"
begin

lemma distinct_keys: "invar m \<Longrightarrow> distinct (map fst (items m))"
  using items_ordered strict_sorted_iff by blast

lemma finite_dom: "invar m \<Longrightarrow> finite (dom (find m))"
proof -
  assume m: "invar m"
  then have "find m = map_of (items m)" by (auto simp: find_items)
  then show ?thesis by (simp add: finite_dom_map_of)
qed

lemma dom_items: "invar m \<Longrightarrow> dom (find m) = set (map fst (items m))"
proof -
  assume m: "invar m"
  then have "find m = map_of (items m)" by (auto simp: find_items)
  then show ?thesis by (simp add: dom_map_of_conv_image_fst)
qed

text \<open>A loop over the entries that stops at the first matching key is a lookup.\<close>

lemma scan_is_find:
  assumes "invar m"
  shows "map_option snd (List.find (\<lambda>kv. fst kv = k) (items m)) = find m k"
proof -
  have "map_option snd (List.find (\<lambda>kv. fst kv = k) xs) = map_of xs k" for xs :: "('k \<times> 'v) list"
    by (induction xs) auto
  with assms show ?thesis by (simp add: find_items)
qed

text \<open>The registration idiom of the code: refuse a key that is present, insert one that is not.\<close>

lemma register_new:
  "invar m \<Longrightarrow> find m k = None \<Longrightarrow> find (insert k v m) = (find m)(k \<mapsto> v)"
  by (simp add: find_insert)

lemma register_keeps:
  "invar m \<Longrightarrow> find m k' = Some v' \<Longrightarrow> find (insert k v m) k' = Some v'"
  by (auto simp: find_insert)

text \<open>An entry inserted under a fresh key and erased again leaves the map as it was.\<close>

lemma erase_insert_fresh:
  "invar m \<Longrightarrow> find m k = None \<Longrightarrow> find (erase k (insert k v m)) = find m"
  by (auto simp: find_erase find_insert invar_insert fun_eq_iff)

end

section \<open>The list model meets the contract\<close>

lemma map_insert_keys: "set (map fst (map_insert k v m)) = insert k (set (map fst m))"
  by (induction k v m rule: map_insert.induct) auto

lemma map_assign_keys: "set (map fst (map_assign k v m)) = insert k (set (map fst m))"
  by (induction k v m rule: map_assign.induct) auto

lemma map_ok_Nil [simp, intro]: "map_ok []"
  by (simp add: map_ok_def)

lemma map_ok_Cons:
  "map_ok ((k, v) # m) \<longleftrightarrow> (\<forall>k' \<in> set (map fst m). k < k') \<and> map_ok m"
  by (simp add: map_ok_def)

lemma map_ok_insert: "map_ok m \<Longrightarrow> map_ok (map_insert k v m)"
proof (induction k v m rule: map_insert.induct)
  case (2 k v k' v' m)
  then show ?case
    using map_insert_keys [of k v m] by (auto simp: map_ok_Cons)
qed (simp add: map_ok_def)

lemma map_ok_assign: "map_ok m \<Longrightarrow> map_ok (map_assign k v m)"
proof (induction k v m rule: map_assign.induct)
  case (2 k v k' v' m)
  then show ?case
    using map_assign_keys [of k v m] by (auto simp: map_ok_Cons)
qed (simp add: map_ok_def)

lemma map_ok_erase: "map_ok m \<Longrightarrow> map_ok (map_erase k m)"
  by (induction m) (auto simp: map_erase_def map_ok_def)

lemma map_of_above: "\<forall>k' \<in> set (map fst m). k < k' \<Longrightarrow> map_of m (k::'k::linorder) = None"
  by (induction m) auto

lemma map_of_insert: "map_ok m \<Longrightarrow>
  map_of (map_insert k v m) = (if map_of m k = None then (map_of m)(k \<mapsto> v) else map_of m)"
proof (induction k v m rule: map_insert.induct)
  case (2 k v k' v' m)
  have "k < k' \<Longrightarrow> map_of m k = None"
    using 2 by (intro map_of_above) (auto simp: map_ok_Cons intro: order.strict_trans)
  with 2 show ?case by (auto simp: map_ok_Cons fun_eq_iff)
qed auto

lemma map_of_assign: "map_ok m \<Longrightarrow> map_of (map_assign k v m) = (map_of m)(k \<mapsto> v)"
  by (induction k v m rule: map_assign.induct) (auto simp: map_ok_Cons fun_eq_iff)

lemma map_of_erase: "map_of (map_erase k m) = (map_of m)(k := None)"
  by (induction m) (auto simp: map_erase_def fun_eq_iff)

interpretation om: std_map map_find map_insert map_assign map_erase "\<lambda>m. m" map_ok
  by unfold_locales
     (simp_all add: map_find_def [abs_def] map_of_insert map_of_assign map_of_erase
        map_ok_insert map_ok_assign map_ok_erase, simp add: map_ok_def)

lemmas map_laws = om.find_insert om.find_assign om.find_erase

lemma map_find_Nil [simp]: "map_find [] k = None"
  by (simp add: map_find_def)

lemma map_count_pos: "0 < map_count m k \<longleftrightarrow> (\<exists>v. map_find m k = Some v)"
  by (simp add: map_count_def)

lemma map_erase_first: "map_ok ((k, v) # m) \<Longrightarrow> map_erase k ((k, v) # m) = m"
  by (auto simp: map_erase_def map_ok_Cons intro!: filter_True)

lemma map_erase_absent: "map_find m k = None \<Longrightarrow> map_erase k m = m"
  by (auto simp: map_erase_def map_find_def map_of_eq_None_iff image_iff intro!: filter_True)

end
