(* ===== verification/Ipc_Base.thy ===== *)
theory Ipc_Base
  imports Ipc_Value Ordered_Map
begin

text \<open>
  The free-standing parts of \<open>source/ipc.cpp\<close>: the description of a process exit code, the unique
  name of a function with its parameter types, the log callback and the hex dump of a buffer.
\<close>

section \<open>ProcessInfo::getDescription\<close>

datatype exit_code = STILL_RUNNING | VERSION_MISMATCH | OTHER_ERROR | MISSING_DEPENDENCY | NORMAL_EXIT

fun exit_code_number :: "exit_code \<Rightarrow> u32" where
  "exit_code_number STILL_RUNNING = 259"
| "exit_code_number VERSION_MISMATCH = 252"
| "exit_code_number OTHER_ERROR = 253"
| "exit_code_number MISSING_DEPENDENCY = 254"
| "exit_code_number NORMAL_EXIT = 0"

text \<open>The rest of \<open>ProcessInfo\<close>: its members and its two constructors, neither of which takes an exit code.\<close>

record process_info =
  pi_handle :: u64
  pi_id :: u64
  pi_exit_code :: u32

definition process_info_default :: process_info where
  "process_info_default = \<lparr>pi_handle = 0, pi_id = 0, pi_exit_code = 0\<rparr>"

definition process_info_make :: "u64 \<Rightarrow> u64 \<Rightarrow> process_info" where
  "process_info_make h i = \<lparr>pi_handle = h, pi_id = i, pi_exit_code = 0\<rparr>"

text \<open>The static table, filled with \<open>operator[]\<close> in the order of \<open>initDescriptions\<close>.\<close>

definition initDescriptions :: "(u32, string) map_rep" where
  "initDescriptions =
     map_assign (exit_code_number VERSION_MISMATCH) ''Version mismatch''
     (map_assign (exit_code_number OTHER_ERROR) ''Unknown error - check logs''
     (map_assign (exit_code_number NORMAL_EXIT) ''Normal exit''
     (map_assign (exit_code_number STILL_RUNNING) ''Still runnings'' [])))"

definition getDescription :: "u32 \<Rightarrow> string" where
  "getDescription key =
     (case map_find initDescriptions key of Some d \<Rightarrow> d | None \<Rightarrow> ''Generic Error'')"

section \<open>base::make_unique_id\<close>

fun type_mangle :: "vtype \<Rightarrow> string" where
  "type_mangle TNull = ''N0''"
| "type_mangle TFloat = ''F4''"
| "type_mangle TDouble = ''F8''"
| "type_mangle TInt32 = ''I4''"
| "type_mangle TInt64 = ''I8''"
| "type_mangle TUInt32 = ''U4''"
| "type_mangle TUInt64 = ''U8''"
| "type_mangle TString = ''PS''"
| "type_mangle TBinary = ''PB''"
| "type_mangle (TUnnamed w) = ''''"

definition make_unique_id :: "string \<Rightarrow> vtype list \<Rightarrow> string" where
  "make_unique_id name parameters =
     (let uq = name @ ''_'' in
      if 0 < length parameters then foldl (\<lambda>uq p. uq @ type_mangle p) uq parameters else uq)"

text \<open>The enumerators of the type enum, the only types a program can name.\<close>

fun type_named :: "vtype \<Rightarrow> bool" where
  "type_named (TUnnamed w) = False"
| "type_named _ = True"

lemma foldl_append_concat: "foldl (\<lambda>acc x. acc @ f x) acc xs = acc @ concat (map f xs)"
  by (induction xs arbitrary: acc) auto

lemma make_unique_id_eq: "make_unique_id name ps = name @ ''_'' @ concat (map type_mangle ps)"
  by (auto simp: make_unique_id_def Let_def foldl_append_concat)

text \<open>No type code contains the separator, and the codes of named types are two distinct letters.\<close>

lemma mangle_no_underscore: "CHR ''_'' \<notin> set (concat (map type_mangle ps))"
proof (induction ps)
  case (Cons p ps)
  then show ?case by (cases p) auto
qed simp

lemma type_mangle_length: "type_named t \<Longrightarrow> length (type_mangle t) = 2"
  by (cases t) auto

lemma type_mangle_inj: "type_named s \<Longrightarrow> type_named t \<Longrightarrow> type_mangle s = type_mangle t \<Longrightarrow> s = t"
  by (cases s; cases t) auto

lemma concat_mangle_inj:
  "list_all type_named ps \<Longrightarrow> list_all type_named qs \<Longrightarrow>
   concat (map type_mangle ps) = concat (map type_mangle qs) \<Longrightarrow> ps = qs"
proof (induction ps arbitrary: qs)
  case Nil
  then show ?case by (cases qs) (auto dest: type_mangle_length)
next
  case (Cons p ps)
  then obtain q qs' where qs: "qs = q # qs'"
    by (cases qs) (auto dest: type_mangle_length)
  have "length (type_mangle p) = length (type_mangle q)"
    using Cons.prems qs by (simp add: type_mangle_length)
  then have "type_mangle p = type_mangle q \<and> concat (map type_mangle ps) = concat (map type_mangle qs')"
    using Cons.prems(3) qs by simp
  then show ?case using Cons qs by (auto dest: type_mangle_inj)
qed

text \<open>The last underscore separates the name from the type codes.\<close>

lemma last_separator:
  assumes "xs @ c # ys = xs' @ c # ys'" and "c \<notin> set ys" and "c \<notin> set ys'"
  shows "xs = xs' \<and> ys = ys'"
proof -
  have tw: "takeWhile (\<lambda>x. x \<noteq> c) (rev zs @ c # rev ws) = rev zs" if "c \<notin> set zs" for zs ws :: "'a list"
    using that by (intro takeWhile_tail [of "\<lambda>x. x \<noteq> c" c "rev zs" "rev ws", THEN trans])
      (auto simp: takeWhile_eq_all_conv)
  have "rev ys @ c # rev xs = rev ys' @ c # rev xs'"
    using arg_cong [OF assms(1), of rev] by simp
  then have "rev ys = rev ys'"
    using tw [OF assms(2), of xs] tw [OF assms(3), of xs'] by simp
  with assms(1) show ?thesis by simp
qed

section \<open>The log callback\<close>

text \<open>
  \<open>g_cb\<close> and \<open>g_cb_data\<close>: the registered function, if any, and its first argument. A callback is
  a transformer of the world \<open>'w\<close> that the program's environment is.
\<close>

type_synonym ptr = u64

record 'w log_state =
  g_cb :: "(ptr \<Rightarrow> string \<Rightarrow> string list \<Rightarrow> 'w \<Rightarrow> 'w) option"
  g_cb_data :: ptr

definition ipc_log :: "'w log_state \<Rightarrow> string \<Rightarrow> string list \<Rightarrow> 'w \<Rightarrow> 'w" where
  "ipc_log st fmt args w = (case g_cb st of Some cb \<Rightarrow> cb (g_cb_data st) fmt args w | None \<Rightarrow> w)"

definition register_log_callback ::
  "(ptr \<Rightarrow> string \<Rightarrow> string list \<Rightarrow> 'w \<Rightarrow> 'w) option \<Rightarrow> ptr \<Rightarrow> 'w log_state \<Rightarrow> 'w log_state"
where
  "register_log_callback callback data st = st\<lparr>g_cb := callback, g_cb_data := data\<rparr>"

section \<open>vectortohex\<close>

definition hexchars :: string where
  "hexchars = ''0123456789ABCDEF''"

definition hex_byte :: "char \<Rightarrow> string" where
  "hex_byte c =
     (let ch = (of_char c :: nat); rv = ch mod 16; lv = (ch div 16) mod 16
      in [hexchars ! lv, hexchars ! rv, CHR '' ''])"

text \<open>The loop breaks after the iteration whose index is past 100.\<close>

fun hex_loop :: "nat \<Rightarrow> buffer \<Rightarrow> string" where
  "hex_loop idx [] = []"
| "hex_loop idx (c # cs) = hex_byte c @ (if 100 < idx then [] else hex_loop (idx + 1) cs)"

definition vectortohex :: "buffer \<Rightarrow> string" where
  "vectortohex buf = hex_loop 0 buf"

lemma hex_loop_eq: "idx \<le> 101 \<Longrightarrow> hex_loop idx cs = concat (map hex_byte (take (102 - idx) cs))"
proof (induction idx cs rule: hex_loop.induct)
  case (2 idx c cs)
  show ?case
  proof (cases "100 < idx")
    case True
    with 2 have "idx = 101" by simp
    then show ?thesis by simp
  next
    case False
    then have "102 - idx = Suc (102 - (idx + 1))" by simp
    with 2 False show ?thesis by simp
  qed
qed simp

lemma hexchars_inj: "i < 16 \<Longrightarrow> j < 16 \<Longrightarrow> hexchars ! i = hexchars ! j \<Longrightarrow> i = j"
proof -
  have "distinct hexchars" "length hexchars = 16" by (simp_all add: hexchars_def)
  then show "i < 16 \<Longrightarrow> j < 16 \<Longrightarrow> hexchars ! i = hexchars ! j \<Longrightarrow> i = j"
    by (simp add: nth_eq_iff_index_eq)
qed

lemma hex_byte_inj: "hex_byte c = hex_byte d \<longleftrightarrow> c = d"
proof
  assume eq: "hex_byte c = hex_byte d"
  let ?c = "of_char c :: nat" and ?d = "of_char d :: nat"
  have "(?c div 16) mod 16 = (?d div 16) mod 16" and "?c mod 16 = ?d mod 16"
    using eq by (auto simp: hex_byte_def Let_def intro!: hexchars_inj)
  moreover have "?c div 16 < 16" and "?d div 16 < 16"
    by (simp_all add: less_mult_imp_div_less)
  ultimately have "?c = ?d" by (metis div_mult_mod_eq mod_less)
  then show "c = d" by simp
qed simp

lemma concat_hex_inj: "concat (map hex_byte xs) = concat (map hex_byte ys) \<longleftrightarrow> xs = ys"
proof (induction xs arbitrary: ys)
  case Nil
  then show ?case by (cases ys) (auto simp: hex_byte_def Let_def)
next
  case (Cons x xs)
  show ?case
  proof (cases ys)
    case Nil
    then show ?thesis by (simp add: hex_byte_def Let_def)
  next
    case (Cons y ys')
    have "length (hex_byte x) = length (hex_byte y)" by (simp add: hex_byte_def Let_def)
    with Cons show ?thesis using Cons.IH hex_byte_inj by simp
  qed
qed

section \<open>Properties\<close>

text \<open>Unique function names: over the types a program can name, two functions get the same
  unique name only if they have the same name and the same parameter types in the same order. The
  name may itself contain underscores and type codes.\<close>

theorem make_unique_id_injective:
  assumes "list_all type_named ps" and "list_all type_named qs"
  shows "make_unique_id n ps = make_unique_id m qs \<longleftrightarrow> n = m \<and> ps = qs"
proof
  assume "make_unique_id n ps = make_unique_id m qs"
  then have "n @ CHR ''_'' # concat (map type_mangle ps) = m @ CHR ''_'' # concat (map type_mangle qs)"
    by (simp add: make_unique_id_eq)
  from last_separator [OF this mangle_no_underscore mangle_no_underscore]
  show "n = m \<and> ps = qs" using concat_mangle_inj [OF assms] by blast
qed simp

theorem make_unique_id_injective_witness:
  "make_unique_id ''f_I4'' [] \<noteq> make_unique_id ''f'' [TInt32]"
  using make_unique_id_injective [of "[]" "[TInt32]" "''f_I4''" "''f''"] by simp

text \<open>The hex dump shows exactly the first 102 bytes (the loop stops after the index 101), three
  characters for each, and two dumps are equal exactly when those bytes are.\<close>

theorem vectortohex_spec:
  "vectortohex buf = concat (map hex_byte (take 102 buf)) \<and>
   length (vectortohex buf) = 3 * min (length buf) 102 \<and>
   (vectortohex buf = vectortohex buf' \<longleftrightarrow> take 102 buf = take 102 buf')"
proof -
  have dump: "vectortohex b = concat (map hex_byte (take 102 b))" for b
    by (simp add: vectortohex_def hex_loop_eq)
  have "length (concat (map hex_byte bs)) = 3 * length bs" for bs
    by (induction bs) (auto simp: hex_byte_def Let_def)
  then show ?thesis by (simp add: dump concat_hex_inj)
qed

text \<open>Every exit code has a description: the four listed codes theirs, every other number,
  \<open>MISSING_DEPENDENCY\<close> among them, the generic one.\<close>

theorem getDescription_total:
  "getDescription key =
     (if key = exit_code_number STILL_RUNNING then ''Still runnings''
      else if key = exit_code_number NORMAL_EXIT then ''Normal exit''
      else if key = exit_code_number OTHER_ERROR then ''Unknown error - check logs''
      else if key = exit_code_number VERSION_MISMATCH then ''Version mismatch''
      else ''Generic Error'')
   \<and> getDescription (exit_code_number MISSING_DEPENDENCY) = ''Generic Error''"
  by (simp add: getDescription_def initDescriptions_def map_find_def)

end
