(* ===== verification/Ipc_Function.thy ===== *)
theory Ipc_Function
  imports Ipc_Base
begin

text \<open>
  \<open>ipc::function\<close> and \<open>ipc::collection\<close> (\<open>include/ipc-function.hpp\<close>, \<open>source/ipc-function.cpp\<close>,
  \<open>include/ipc-class.hpp\<close>, \<open>source/ipc-class.cpp\<close>): a named function with its handler, and a
  collection of functions under their names.

  The application's handlers are arguments of the model: a \<open>call_handler_t\<close> maps its \<open>void *\<close>,
  the client id, the arguments and the result vector to the new result vector, and may change the
  world \<open>'w\<close> outside the library.
\<close>

section \<open>function\<close>

type_synonym 'w call_handler =
  "ptr \<Rightarrow> u64 \<Rightarrow> ipc_value list \<Rightarrow> ipc_value list \<Rightarrow> 'w \<Rightarrow> ipc_value list \<times> 'w"

record 'w ipc_function =
  m_name :: string
  m_nameUnique :: string
  m_params :: "vtype list"
  m_callHandler :: "'w call_handler option \<times> ptr"

definition function_make ::
  "string \<Rightarrow> vtype list \<Rightarrow> 'w call_handler option \<Rightarrow> ptr \<Rightarrow> 'w ipc_function"
where
  "function_make name params p data =
     \<lparr>m_name = name, m_nameUnique = make_unique_id name params, m_params = params,
      m_callHandler = (p, data)\<rparr>"

text \<open>The delegating constructors, by which arguments they take.\<close>

definition function_make_params_ptr :: "string \<Rightarrow> vtype list \<Rightarrow> 'w call_handler option \<Rightarrow> 'w ipc_function" where
  "function_make_params_ptr name params p = function_make name params p 0"

definition function_make_params_data :: "string \<Rightarrow> vtype list \<Rightarrow> ptr \<Rightarrow> 'w ipc_function" where
  "function_make_params_data name params data = function_make name params None data"

definition function_make_params :: "string \<Rightarrow> vtype list \<Rightarrow> 'w ipc_function" where
  "function_make_params name params = function_make name params None 0"

definition function_make_ptr_data :: "string \<Rightarrow> 'w call_handler option \<Rightarrow> ptr \<Rightarrow> 'w ipc_function" where
  "function_make_ptr_data name p data = function_make name [] p data"

definition function_make_ptr :: "string \<Rightarrow> 'w call_handler option \<Rightarrow> 'w ipc_function" where
  "function_make_ptr name p = function_make name [] p 0"

definition function_make_data :: "string \<Rightarrow> ptr \<Rightarrow> 'w ipc_function" where
  "function_make_data name data = function_make name [] None data"

definition function_make_name :: "string \<Rightarrow> 'w ipc_function" where
  "function_make_name name = function_make name [] None 0"

definition get_unique_name :: "'w ipc_function \<Rightarrow> string" where
  "get_unique_name f = m_nameUnique f"

definition function_get_name :: "'w ipc_function \<Rightarrow> string" where
  "function_get_name f = m_name f"

text \<open>\<open>function::call\<close>: without a handler nothing happens and the result vector stays as it is.\<close>

definition function_invoke ::
  "'w ipc_function \<Rightarrow> u64 \<Rightarrow> ipc_value list \<Rightarrow> ipc_value list \<Rightarrow> 'w \<Rightarrow> ipc_value list \<times> 'w"
where
  "function_invoke f cid args rval w =
     (case fst (m_callHandler f) of
        Some h \<Rightarrow> h (snd (m_callHandler f)) cid args rval w
      | None \<Rightarrow> (rval, w))"

section \<open>collection\<close>

record 'w collection =
  col_name :: string
  m_functions :: "(string, 'w ipc_function) map_rep"

definition collection_make :: "string \<Rightarrow> 'w collection" where
  "collection_make name = \<lparr>col_name = name, m_functions = []\<rparr>"

definition collection_get_name :: "'w collection \<Rightarrow> string" where
  "collection_get_name c = col_name c"

definition register_function :: "'w ipc_function \<Rightarrow> 'w collection \<Rightarrow> bool \<times> 'w collection" where
  "register_function func c =
     (let fnId = function_get_name func in
      if 0 < map_count (m_functions c) fnId then (False, c)
      else (True, c\<lparr>m_functions := map_insert fnId func (m_functions c)\<rparr>))"

text \<open>
  The lookup walks the map in key order and compares each key with \<open>name.c_str()\<close>, that is with
  the characters of the name before its first NUL.
\<close>

definition get_function :: "'w collection \<Rightarrow> string \<Rightarrow> 'w ipc_function option" where
  "get_function c name =
     map_option snd (List.find (\<lambda>fct. fst fct = c_str name) (m_functions c))"

text \<open>Every function is stored under its own name.\<close>

definition collection_ok :: "'w collection \<Rightarrow> bool" where
  "collection_ok c \<longleftrightarrow> map_ok (m_functions c) \<and>
     (\<forall>(k, f) \<in> set (m_functions c). k = function_get_name f)"

lemma collection_ok_make [simp]: "collection_ok (collection_make name)"
  by (simp add: collection_ok_def collection_make_def)

lemma set_map_insert: "set (map_insert k v m) \<subseteq> insert (k, v) (set m)"
  by (induction k v m rule: map_insert.induct) auto

lemma collection_ok_register:
  "collection_ok c \<Longrightarrow> collection_ok (snd (register_function f c))"
  using set_map_insert [of "function_get_name f" f "m_functions c"]
  by (auto simp: collection_ok_def register_function_def Let_def map_ok_insert)

lemma get_function_find:
  "collection_ok c \<Longrightarrow> get_function c name = map_find (m_functions c) (c_str name)"
  using om.scan_is_find [of "m_functions c" "c_str name"]
  by (simp add: get_function_def collection_ok_def)

lemma make_simps [simp]:
  "function_get_name (function_make n ps p d) = n"
  "get_unique_name (function_make n ps p d) = make_unique_id n ps"
  "function_get_name (function_make_name n) = n"
  "m_functions (collection_make n) = []"
  "collection_get_name (collection_make n) = n"
  by (simp_all add: function_get_name_def get_unique_name_def function_make_def function_make_name_def
      collection_make_def collection_get_name_def)

lemma register_function_refused: "\<not> fst (register_function f c) \<Longrightarrow> snd (register_function f c) = c"
  by (auto simp: register_function_def Let_def)

text \<open>What registering does to lookups: nothing where the name is taken, one new entry otherwise.\<close>

lemma register_function_find:
  assumes "collection_ok c"
  shows "map_find (m_functions (snd (register_function f c))) =
    (if fst (register_function f c) then (map_find (m_functions c))(function_get_name f \<mapsto> f)
     else map_find (m_functions c))"
    and "fst (register_function f c) \<longleftrightarrow> map_find (m_functions c) (function_get_name f) = None"
  using assms
  by (auto simp: register_function_def Let_def map_count_def om.find_insert collection_ok_def)

section \<open>Properties\<close>

text \<open>The first registration of a name wins: \<open>register_function\<close> succeeds exactly when no
  function of that name is in the collection, and afterwards a lookup finds the new function under
  its name if it succeeded and is unchanged otherwise; the collection stays well-formed.\<close>

theorem register_function_spec:
  assumes "collection_ok c"
  shows "(fst (register_function f c) \<longleftrightarrow> map_find (m_functions c) (function_get_name f) = None) \<and>
    get_function (snd (register_function f c)) name =
      (if fst (register_function f c) \<and> c_str name = function_get_name f then Some f
       else get_function c name) \<and>
    collection_ok (snd (register_function f c)) \<and>
    (\<not> fst (register_function f c) \<longrightarrow> snd (register_function f c) = c)"
  using register_function_find [OF assms, of f] collection_ok_register [OF assms, of f]
    register_function_refused [of f c]
  by (simp add: get_function_find assms)

theorem register_function_spec_witness:
  "get_function (snd (register_function (function_make_name ''f'' :: nat ipc_function) (collection_make ''C'')))
     ''f'' = Some (function_make_name ''f'')"
  using register_function_spec [OF collection_ok_make, of "function_make_name ''f'' :: nat ipc_function" "''C''" "''f''"]
  by (simp add: c_str_id)

text \<open>No overloading: a second function of the same name is refused whatever its parameter
  types are, although its unique name is different.\<close>

theorem overload_refused:
  assumes "list_all type_named ps" and "list_all type_named qs" and "ps \<noteq> qs"
  shows "get_unique_name (function_make n ps p d) \<noteq> get_unique_name (function_make n qs p' d') \<and>
    register_function (function_make n qs p' d')
        (snd (register_function (function_make n ps p d) (collection_make cn))) =
      (False, snd (register_function (function_make n ps p d) (collection_make cn)))"
proof -
  have "make_unique_id n ps \<noteq> make_unique_id n qs"
    using assms concat_mangle_inj by (auto simp: make_unique_id_eq)
  then show ?thesis
    by (simp add: register_function_def map_count_def map_find_def Let_def)
qed

theorem overload_refused_witness:
  "fst (register_function (function_make ''f'' [TString] None 0 :: nat ipc_function)
     (snd (register_function (function_make ''f'' [TInt32] None 0) (collection_make ''C'')))) = False"
proof -
  have "list_all type_named [TInt32]" "list_all type_named [TString]" "[TInt32] \<noteq> [TString]"
    by simp_all
  from overload_refused [OF this, of "''f''" "None :: nat call_handler option" 0 None 0 "''C''"]
  show ?thesis by simp
qed

text \<open>A function whose name contains a NUL character can be registered but never be found: no
  name a caller can pass leads to it.\<close>

theorem nul_name_unreachable:
  assumes "collection_ok c" and "CHR 0x00 \<in> set (function_get_name f)"
    and "map_find (m_functions c) (function_get_name f) = None"
  shows "fst (register_function f c) \<and>
    get_function (snd (register_function f c)) name = get_function c name"
proof -
  have "c_str name \<noteq> function_get_name f" using assms(2) c_str_no_nul by metis
  then show ?thesis
    using register_function_find [OF assms(1), of f] collection_ok_register [OF assms(1), of f] assms
    by (simp add: get_function_find)
qed

theorem nul_name_unreachable_witness:
  "get_function (snd (register_function (function_make_name [CHR 0x00] :: nat ipc_function) (collection_make ''C'')))
     [CHR 0x00] = None"
  using nul_name_unreachable [OF collection_ok_make, of "function_make_name [CHR 0x00] :: nat ipc_function" "''C''"
      "[CHR 0x00]"]
  by (simp add: get_function_def)

end
