(* ===== verification/Ipc_Dispatch.thy ===== *)
theory Ipc_Dispatch
  imports Ipc_Function
begin

text \<open>
  The state of \<open>ipc::server\<close> (\<open>include/ipc-server.hpp\<close>) and the part of \<open>source/ipc-server.cpp\<close>
  that answers a call: the handler setters, \<open>register_collection\<close> and \<open>client_call_function\<close>.

  Collections are shared between the application and the server through \<open>std::shared_ptr\<close>, so a
  function registered in a collection after the collection was given to the server can be called.
  The model keeps them in a heap: \<open>m_classes\<close> maps a name to an address. Sockets and server
  instances are shared in the same way and are numbers too.
\<close>

section \<open>State\<close>

type_synonym addr = nat
type_synonym 'w heap = "addr \<Rightarrow> 'w collection option"

type_synonym 'w connect_handler = "ptr \<Rightarrow> u64 \<Rightarrow> 'w \<Rightarrow> bool \<times> 'w"
type_synonym 'w disconnect_handler = "ptr \<Rightarrow> u64 \<Rightarrow> 'w \<Rightarrow> 'w"
type_synonym 'w message_handler = "ptr \<Rightarrow> u64 \<Rightarrow> buffer \<Rightarrow> 'w \<Rightarrow> 'w"
type_synonym 'w call_callback = "string \<Rightarrow> string \<Rightarrow> ipc_value list \<Rightarrow> ptr \<Rightarrow> 'w \<Rightarrow> 'w"

record 'w server =
  m_isInitialized :: bool
  m_classes :: "(string, addr) map_rep"
  m_sockets :: "addr list"
  m_socketPath :: string
  m_callTimeout :: int
  m_clients :: "(addr, addr) map_rep"
  m_handlerConnect :: "'w connect_handler option \<times> ptr"
  m_handlerDisconnect :: "'w disconnect_handler option \<times> ptr"
  m_handlerMessage :: "'w message_handler option \<times> ptr"
  m_preCallback :: "'w call_callback option \<times> ptr"
  m_postCallback :: "'w call_callback option \<times> ptr"
  m_watcher_stop :: bool

text \<open>The member initialisers, and the constructor's \<open>m_watcher.stop = false\<close>.\<close>

definition server_make :: "'w server" where
  "server_make =
     \<lparr>m_isInitialized = False, m_classes = [], m_sockets = [], m_socketPath = '''', m_callTimeout = 0,
      m_clients = [], m_handlerConnect = (None, 0), m_handlerDisconnect = (None, 0),
      m_handlerMessage = (None, 0), m_preCallback = (None, 0), m_postCallback = (None, 0),
      m_watcher_stop = False\<rparr>"

definition set_call_timeout :: "int \<Rightarrow> 'w server \<Rightarrow> 'w server" where
  "set_call_timeout callTimeout s = s\<lparr>m_callTimeout := callTimeout\<rparr>"

definition set_connect_handler :: "'w connect_handler option \<Rightarrow> ptr \<Rightarrow> 'w server \<Rightarrow> 'w server" where
  "set_connect_handler handler data s = s\<lparr>m_handlerConnect := (handler, data)\<rparr>"

definition set_disconnect_handler :: "'w disconnect_handler option \<Rightarrow> ptr \<Rightarrow> 'w server \<Rightarrow> 'w server" where
  "set_disconnect_handler handler data s = s\<lparr>m_handlerDisconnect := (handler, data)\<rparr>"

definition set_message_handler :: "'w message_handler option \<Rightarrow> ptr \<Rightarrow> 'w server \<Rightarrow> 'w server" where
  "set_message_handler handler data s = s\<lparr>m_handlerMessage := (handler, data)\<rparr>"

definition set_pre_callback :: "'w call_callback option \<Rightarrow> ptr \<Rightarrow> 'w server \<Rightarrow> 'w server" where
  "set_pre_callback handler data s = s\<lparr>m_preCallback := (handler, data)\<rparr>"

definition set_post_callback :: "'w call_callback option \<Rightarrow> ptr \<Rightarrow> 'w server \<Rightarrow> 'w server" where
  "set_post_callback handler data s = s\<lparr>m_postCallback := (handler, data)\<rparr>"

section \<open>Operations\<close>

text \<open>Following a \<open>shared_ptr\<close> to a collection; a null or dangling one is a bad access.\<close>

definition deref :: "'w heap \<Rightarrow> addr \<Rightarrow> 'w collection result" where
  "deref h p = (case h p of Some c \<Rightarrow> Inr c | None \<Rightarrow> Inl Bad_Access)"

definition register_collection :: "'w heap \<Rightarrow> addr \<Rightarrow> 'w server \<Rightarrow> (bool \<times> 'w server) result" where
  "register_collection h cls s =
     rbind (deref h cls) (\<lambda>c.
     if 0 < map_count (m_classes s) (collection_get_name c) then Inr (False, s)
     else Inr (True, s\<lparr>m_classes := map_insert (collection_get_name c) cls (m_classes s)\<rparr>))"

text \<open>\<open>if (cb.first) cb.first(cname, fname, vals, cb.second);\<close>\<close>

definition run_call_callback ::
  "'w call_callback option \<times> ptr \<Rightarrow> string \<Rightarrow> string \<Rightarrow> ipc_value list \<Rightarrow> 'w \<Rightarrow> 'w"
where
  "run_call_callback cb cname fname vals w =
     (case fst cb of Some f \<Rightarrow> f cname fname vals (snd cb) w | None \<Rightarrow> w)"

text \<open>
  The result is the boolean the function returns, the two reference arguments \<open>rval\<close> and
  \<open>errormsg\<close> after the call, and the world.
\<close>

definition client_call_function ::
  "'w heap \<Rightarrow> 'w server \<Rightarrow> u64 \<Rightarrow> string \<Rightarrow> string \<Rightarrow> ipc_value list \<Rightarrow> ipc_value list \<Rightarrow> string \<Rightarrow> 'w
   \<Rightarrow> (bool \<times> ipc_value list \<times> string \<times> 'w) result"
where
  "client_call_function h s cid cname fname args rval errormsg w =
     (case map_find (m_classes s) cname of
        None \<Rightarrow> Inr (False, rval, ''Class '' @ [CHR 0x27] @ cname @ [CHR 0x27] @ '' is not registered.'', w)
      | Some p \<Rightarrow>
          rbind (deref h p) (\<lambda>cls.
          case get_function cls fname of
            None \<Rightarrow> Inr (False, rval,
              ''Function '' @ [CHR 0x27] @ fname @ [CHR 0x27] @ '' not found in class '' @ [CHR 0x27]
                @ cname @ [CHR 0x27] @ ''.'', w)
          | Some fnc \<Rightarrow>
              let w = run_call_callback (m_preCallback s) cname fname args w;
                  (rval, w) = function_invoke fnc cid args rval w;
                  w = run_call_callback (m_postCallback s) cname fname rval w
              in Inr (True, rval, errormsg, w)))"

text \<open>Registering a function in the collection at an address, as the application does it.\<close>

definition heap_register_function :: "'w ipc_function \<Rightarrow> addr \<Rightarrow> 'w heap \<Rightarrow> (bool \<times> 'w heap) result" where
  "heap_register_function f p h =
     rbind (deref h p) (\<lambda>c. let (b, c') = register_function f c in Inr (b, h(p \<mapsto> c')))"

section \<open>Invariant\<close>

text \<open>Every collection in the heap is well-formed.\<close>

definition heap_ok :: "'w heap \<Rightarrow> bool" where
  "heap_ok h \<longleftrightarrow> (\<forall>p c. h p = Some c \<longrightarrow> collection_ok c)"

text \<open>The class map is a map, and each name leads to an allocated collection of that name.\<close>

definition classes_ok :: "'w heap \<Rightarrow> 'w server \<Rightarrow> bool" where
  "classes_ok h s \<longleftrightarrow> map_ok (m_classes s) \<and>
     (\<forall>n p. map_find (m_classes s) n = Some p \<longrightarrow> (\<exists>c. h p = Some c \<and> collection_get_name c = n))"

lemma server_make_simps [simp]: "m_classes server_make = []" "m_clients server_make = []"
    "m_sockets server_make = []" "m_preCallback server_make = (None, 0)"
    "m_postCallback server_make = (None, 0)"
  by (simp_all add: server_make_def)

lemma classes_ok_make: "classes_ok h server_make"
  by (simp add: classes_ok_def server_make_def)

lemma classes_ok_register_collection:
  assumes "classes_ok h s" and "register_collection h cls s = Inr (b, s')"
  shows "classes_ok h s'"
  using assms
  by (auto simp: classes_ok_def register_collection_def rbind_eq_Inr_iff deref_def om.find_insert
      map_ok_insert split: if_splits option.splits)

lemma heap_ok_register_function:
  assumes "heap_ok h" and "heap_register_function f p h = Inr (b, h')"
  shows "heap_ok h'"
proof -
  obtain c where "h p = Some c" and "h' = h(p \<mapsto> snd (register_function f c))"
    using assms(2) by (auto simp: heap_register_function_def rbind_eq_Inr_iff deref_def
        split: option.splits prod.splits)
  with assms(1) collection_ok_register [of c f] show ?thesis
    by (auto simp: heap_ok_def)
qed

lemma register_function_name [simp]: "col_name (snd (register_function f c)) = col_name c"
  by (simp add: register_function_def Let_def)

lemma classes_ok_register_function:
  assumes "classes_ok h s" and "heap_register_function f p h = Inr (b, h')"
  shows "classes_ok h' s"
proof -
  obtain c where c: "h p = Some c" and h': "h' = h(p \<mapsto> snd (register_function f c))"
    using assms(2) by (auto simp: heap_register_function_def rbind_eq_Inr_iff deref_def
        split: option.splits prod.splits)
  show ?thesis
    using assms(1) c unfolding classes_ok_def h' collection_get_name_def by fastforce
qed

section \<open>What a call does\<close>

text \<open>
  The server as the table it stands for: the registered classes, each with the functions of its
  collection, looked up by the characters before the first NUL of the requested name.
\<close>

definition dispatch_table :: "'w heap \<Rightarrow> 'w server \<Rightarrow> string \<Rightarrow> (string \<Rightarrow> 'w ipc_function option) option" where
  "dispatch_table h s cname =
     (case map_find (m_classes s) cname of
        None \<Rightarrow> None
      | Some p \<Rightarrow> (case h p of None \<Rightarrow> None
                   | Some c \<Rightarrow> Some (\<lambda>fname. map_find (m_functions c) (c_str fname))))"

datatype 'w call_outcome = Unknown_Class | Unknown_Function | Called "ipc_value list" 'w

definition call_spec ::
  "(string \<Rightarrow> (string \<Rightarrow> 'w ipc_function option) option) \<Rightarrow> ('w call_callback option \<times> ptr) \<Rightarrow>
   ('w call_callback option \<times> ptr) \<Rightarrow> u64 \<Rightarrow> string \<Rightarrow> string \<Rightarrow> ipc_value list \<Rightarrow> ipc_value list \<Rightarrow> 'w \<Rightarrow>
   'w call_outcome"
where
  "call_spec T pre post cid cname fname args rval w =
     (case T cname of
        None \<Rightarrow> Unknown_Class
      | Some fs \<Rightarrow>
          (case fs fname of
             None \<Rightarrow> Unknown_Function
           | Some f \<Rightarrow>
               (case function_invoke f cid args rval (run_call_callback pre cname fname args w) of
                  (rval', w') \<Rightarrow> Called rval' (run_call_callback post cname fname rval' w'))))"

text \<open>How an outcome is reported to the caller.\<close>

definition class_error :: "string \<Rightarrow> string" where
  "class_error cname = ''Class '' @ [CHR 0x27] @ cname @ [CHR 0x27] @ '' is not registered.''"

definition function_error :: "string \<Rightarrow> string \<Rightarrow> string" where
  "function_error cname fname = ''Function '' @ [CHR 0x27] @ fname @ [CHR 0x27]
     @ '' not found in class '' @ [CHR 0x27] @ cname @ [CHR 0x27] @ ''.''"

fun report_outcome ::
  "string \<Rightarrow> string \<Rightarrow> ipc_value list \<Rightarrow> string \<Rightarrow> 'w \<Rightarrow> 'w call_outcome
   \<Rightarrow> bool \<times> ipc_value list \<times> string \<times> 'w"
where
  "report_outcome cname fname rval errormsg w Unknown_Class = (False, rval, class_error cname, w)"
| "report_outcome cname fname rval errormsg w Unknown_Function =
     (False, rval, function_error cname fname, w)"
| "report_outcome cname fname rval errormsg w (Called rval' w') = (True, rval', errormsg, w')"

lemma client_call_function_outcome:
  assumes "classes_ok h s" and "heap_ok h"
  shows "client_call_function h s cid cname fname args rval errormsg w =
    Inr (report_outcome cname fname rval errormsg w
      (call_spec (dispatch_table h s) (m_preCallback s) (m_postCallback s) cid cname fname args rval w))"
proof (cases "map_find (m_classes s) cname")
  case None
  then show ?thesis
    by (simp add: client_call_function_def call_spec_def dispatch_table_def class_error_def)
next
  case (Some p)
  with assms(1) obtain c where "h p = Some c"
    unfolding classes_ok_def by blast
  with assms(2) have c: "h p = Some c" "collection_ok c"
    by (auto simp: heap_ok_def)
  note look = Some c get_function_find [OF c(2), of fname] client_call_function_def call_spec_def
    dispatch_table_def deref_def function_error_def Let_def
  show ?thesis
    by (cases "map_find (m_functions c) (c_str fname)") (auto simp: look split: prod.splits)
qed

lemma report_outcome_failed:
  "report_outcome cname fname rval errormsg w oc = (False, r) \<Longrightarrow>
   fst r = rval \<and> fst (snd r) \<noteq> [] \<and> snd (snd r) = w"
  by (cases oc) (auto simp: class_error_def function_error_def)

section \<open>Properties\<close>

text \<open>C10. What a call does, on every branch: with well-formed collections behind the class map,
  \<open>client_call_function\<close> never faults and implements the lookup in the two-level table of classes and
  functions. An unknown class or function gives false and its error message; a known one runs the
  pre-callback on the arguments, the handler, and the post-callback on the results, in this order, and
  gives true with the handler's results and an unchanged error message.\<close>

theorem client_call_function_refines:
  assumes "classes_ok h s" and "heap_ok h"
  shows "client_call_function h s cid cname fname args rval errormsg w =
    Inr (report_outcome cname fname rval errormsg w
      (call_spec (dispatch_table h s) (m_preCallback s) (m_postCallback s) cid cname fname args rval w))"
  using assms by (rule client_call_function_outcome)

theorem client_call_function_refines_witness:
  "client_call_function (\<lambda>_. None) (server_make :: nat server) 0 ''C'' ''f'' [] [] '''' 5 =
     Inr (False, [], class_error ''C'', 5)"
proof -
  have "heap_ok (\<lambda>_. None :: nat collection option)" by (simp add: heap_ok_def)
  from client_call_function_refines [OF classes_ok_make this, of 0 "''C''" "''f''" "[]" "[]" "''''" 5]
  show ?thesis by (simp add: call_spec_def dispatch_table_def server_make_def)
qed

text \<open>A call that fails has no effect but its message: the result vector and the world are as
  before, so neither callback nor any handler ran, and the message is not empty.\<close>

theorem failed_call_has_no_effect:
  assumes "classes_ok h s" and "heap_ok h"
    and "client_call_function h s cid cname fname args rval errormsg w = Inr (False, rval', msg, w')"
  shows "rval' = rval \<and> w' = w \<and> msg \<noteq> []"
  using report_outcome_failed [of cname fname rval errormsg w _ "(rval', msg, w')"]
    client_call_function_outcome [OF assms(1,2), of cid cname fname args rval errormsg w] assms(3)
  by simp

theorem failed_call_has_no_effect_witness:
  "class_error ''C'' \<noteq> []"
proof -
  have "client_call_function (\<lambda>_. None) (server_make :: nat server) 0 ''C'' ''f'' [] [] '''' 5 =
      Inr (False, [], class_error ''C'', 5)"
    by (simp add: client_call_function_def server_make_def class_error_def)
  from failed_call_has_no_effect [OF classes_ok_make _ this] show ?thesis
    by (simp add: heap_ok_def)
qed

text \<open>Registering a collection: it succeeds exactly when no collection of its name is registered,
  the first one stays otherwise; every class name then leads to what it led to before, except the new
  one; and the class map stays consistent with the heap.\<close>

theorem register_collection_spec:
  assumes "classes_ok h s" and "h p = Some c"
  shows "\<exists>s'. register_collection h p s =
      Inr (map_find (m_classes s) (collection_get_name c) = None, s') \<and>
    map_find (m_classes s') =
      (if map_find (m_classes s) (collection_get_name c) = None
       then (map_find (m_classes s))(collection_get_name c \<mapsto> p) else map_find (m_classes s)) \<and>
    classes_ok h s'"
proof (cases "map_find (m_classes s) (collection_get_name c)")
  case None
  let ?s' = "s\<lparr>m_classes := map_insert (collection_get_name c) p (m_classes s)\<rparr>"
  have r: "register_collection h p s = Inr (True, ?s')"
    using None assms(2) by (simp add: register_collection_def deref_def map_count_def)
  show ?thesis
    using None r assms(1) classes_ok_register_collection [OF assms(1) r]
    by (simp add: classes_ok_def om.find_insert)
qed (use assms in \<open>simp add: register_collection_def deref_def map_count_def\<close>)

theorem register_collection_spec_witness:
  "\<exists>s'. register_collection [0 \<mapsto> collection_make ''C''] 0 (server_make :: nat server) = Inr (True, s') \<and>
     map_find (m_classes s') ''C'' = Some 0"
proof -
  let ?h = "[0 \<mapsto> collection_make ''C''] :: nat heap"
  have "?h 0 = Some (collection_make ''C'')" by simp
  from register_collection_spec [where h = ?h and p = 0, OF classes_ok_make this] show ?thesis by auto
qed

text \<open>Sharing: a function registered in a collection after the collection was given to the
  server is visible to calls at once, and no other entry of any class named differently changes.\<close>

theorem late_registration_visible:
  assumes "classes_ok h s" and "heap_ok h" and "map_find (m_classes s) cname = Some p"
    and "CHR 0x00 \<notin> set (function_get_name f)"
    and "heap_register_function f p h = Inr (True, h')"
  shows "(\<exists>fs. dispatch_table h' s cname = Some fs \<and> fs (function_get_name f) = Some f) \<and>
    (\<forall>cname'. cname' \<noteq> cname \<longrightarrow> dispatch_table h' s cname' = dispatch_table h s cname')"
proof -
  obtain c where c: "h p = Some c" and reg: "fst (register_function f c)"
      and h': "h' = h(p \<mapsto> snd (register_function f c))"
    using assms(5) by (auto simp: heap_register_function_def rbind_eq_Inr_iff deref_def
        split: option.splits prod.splits)
  have ok: "collection_ok c" using assms(2) c by (simp add: heap_ok_def)
  have name: "collection_get_name c = cname"
    using assms(1,3) c unfolding classes_ok_def by fastforce
  have other: "map_find (m_classes s) cname' \<noteq> Some p" if "cname' \<noteq> cname" for cname'
    using assms(1) c name that unfolding classes_ok_def by fastforce
  show ?thesis
    using assms(3,4) h' reg register_function_find(1) [OF ok, of f] other
    by (auto simp: dispatch_table_def c_str_id split: option.splits)
qed

theorem late_registration_visible_witness:
  "\<exists>fs. dispatch_table [0 \<mapsto> snd (register_function (function_make_name ''f'') (collection_make ''C''))]
      (server_make \<lparr>m_classes := [(''C'', 0)]\<rparr> :: nat server) ''C'' = Some fs \<and>
    fs ''f'' = Some (function_make_name ''f'')"
proof -
  let ?c = "collection_make ''C'' :: nat collection" and ?f = "function_make_name ''f'' :: nat ipc_function"
  let ?s = "server_make \<lparr>m_classes := [(''C'', 0)]\<rparr> :: nat server"
  have 1: "classes_ok [0 \<mapsto> ?c] ?s"
    by (auto simp: classes_ok_def map_ok_def map_find_def split: if_splits)
  have 2: "heap_ok [0 \<mapsto> ?c]" by (simp add: heap_ok_def)
  have 3: "heap_register_function ?f 0 [0 \<mapsto> ?c] = Inr (True, [0 \<mapsto> snd (register_function ?f ?c)])"
    by (simp add: heap_register_function_def deref_def register_function_def Let_def map_count_def
        fun_eq_iff)
  have 4: "map_find (m_classes ?s) ''C'' = Some 0" by (simp add: map_find_def)
  have 5: "CHR 0x00 \<notin> set (function_get_name ?f)"
    by simp
  have 6: "function_get_name ?f = ''f''"
    by simp
  show ?thesis using late_registration_visible [OF 1 2 4 5 3] by (simp add: 6)
qed

end
