(* ===== verification/Ipc_Message.thy ===== *)
theory Ipc_Message
  imports Ipc_Value
begin

text \<open>
  The two messages of the protocol, \<open>ipc::message::function_call\<close> and
  \<open>ipc::message::function_reply\<close> (\<open>include/ipc.hpp\<close>, \<open>source/ipc.cpp\<close>): size, serialize and
  deserialize as written, and the proof that both meet the \<open>wire_codec\<close> contract, which makes the
  framing lemmas of \<open>Wire_Codec\<close> available for them.

  The elements \<open>resize\<close> appends to a vector are default-constructed, so their union holds what the
  allocated storage held: \<open>junk i\<close> for the element at index \<open>i\<close>.
\<close>

section \<open>The messages\<close>

record function_call =
  call_uid :: ipc_value
  call_class_name :: ipc_value
  call_function_name :: ipc_value
  call_arguments :: "ipc_value list"

record function_reply =
  reply_uid :: ipc_value
  reply_values :: "ipc_value list"
  reply_error :: ipc_value

text \<open>The default member initialisers; \<open>u\<close> and \<open>u'\<close> are the indeterminate union contents.\<close>

definition function_call_init :: "u64 \<Rightarrow> u64 \<Rightarrow> function_call" where
  "function_call_init u u' =
     \<lparr>call_uid = value_of_uint64 0, call_class_name = value_of_string u '''',
      call_function_name = value_of_string u' '''', call_arguments = []\<rparr>"

definition function_reply_init :: "u64 \<Rightarrow> function_reply" where
  "function_reply_init u =
     \<lparr>reply_uid = value_of_uint64 0, reply_values = [], reply_error = value_of_string u ''''\<rparr>"

definition resize_values :: "(nat \<Rightarrow> u64) \<Rightarrow> nat \<Rightarrow> ipc_value list \<Rightarrow> ipc_value list" where
  "resize_values junk cnt vs = take cnt vs @ map (\<lambda>i. value_default (junk i)) [length vs..<cnt]"

lemma length_resize_values [simp]: "length (resize_values junk cnt vs) = cnt"
  by (simp add: resize_values_def)

section \<open>A counted vector of values\<close>

text \<open>The tail of both messages: the number of values cut to 32 bits, then the values.\<close>

definition serialize_counted :: "ipc_value list \<Rightarrow> buffer \<Rightarrow> nat \<Rightarrow> (buffer \<times> nat) result" where
  "serialize_counted vs buf noffset =
     rbind (poke buf noffset (u32_bytes (of_nat (length vs)))) (\<lambda>buf.
     serialize_all value_serialize vs buf (noffset + 4))"

text \<open>Reading the count has no bounds check in the source: \<open>buf[noffset]\<close> is just accessed.\<close>

definition deserialize_counted ::
  "(nat \<Rightarrow> u64) \<Rightarrow> ipc_value list \<Rightarrow> buffer \<Rightarrow> nat \<Rightarrow> (ipc_value list \<times> nat) result"
where
  "deserialize_counted junk vs buf noffset =
     rbind (peek buf noffset 4) (\<lambda>bs.
     let cnt = unat (u32_of_bytes bs) in
     deserialize_all value_deserialize (resize_values junk cnt vs) buf (noffset + 4))"

section \<open>function_call\<close>

definition function_call_size :: "function_call \<Rightarrow> nat" where
  "function_call_size m =
     8 + value_size (call_uid m) + value_size (call_class_name m) + value_size (call_function_name m)
       + 4 + sum_list (map value_size (call_arguments m))"

definition function_call_serialize :: "function_call \<Rightarrow> buffer \<Rightarrow> nat \<Rightarrow> (buffer \<times> nat) result" where
  "function_call_serialize m buf offset =
     (if size_sub (length buf) offset < function_call_size m
      then Inl (Exception ''Buffer too small'')
      else
        rbind (poke buf offset (u64_bytes (of_nat (function_call_size m)))) (\<lambda>buf.
        let noffset = offset + 8 in
        rbind (value_serialize (call_uid m) buf noffset) (\<lambda>(buf, n).
        let noffset = noffset + n in
        rbind (value_serialize (call_class_name m) buf noffset) (\<lambda>(buf, n).
        let noffset = noffset + n in
        rbind (value_serialize (call_function_name m) buf noffset) (\<lambda>(buf, n).
        let noffset = noffset + n in
        rbind (serialize_counted (call_arguments m) buf noffset) (\<lambda>(buf, noffset).
        Inr (buf, noffset - offset)))))))"

definition function_call_deserialize ::
  "(nat \<Rightarrow> u64) \<Rightarrow> function_call \<Rightarrow> buffer \<Rightarrow> nat \<Rightarrow> (function_call \<times> nat) result"
where
  "function_call_deserialize junk m buf offset =
     (if size_sub (length buf) offset < 8 then Inl Abort
      else rbind (peek buf offset 8) (\<lambda>bs.
        if size_sub (length buf) offset < unat (u64_of_bytes bs) then Inl Abort
        else
          let noffset = offset + 8 in
          rbind (value_deserialize (call_uid m) buf noffset) (\<lambda>(uid, n).
          let noffset = noffset + n in
          rbind (value_deserialize (call_class_name m) buf noffset) (\<lambda>(class_name, n).
          let noffset = noffset + n in
          rbind (value_deserialize (call_function_name m) buf noffset) (\<lambda>(function_name, n).
          let noffset = noffset + n in
          rbind (deserialize_counted junk (call_arguments m) buf noffset) (\<lambda>(arguments, noffset).
          Inr (\<lparr>call_uid = uid, call_class_name = class_name, call_function_name = function_name,
                call_arguments = arguments\<rparr>, noffset - offset)))))))"

section \<open>function_reply\<close>

definition function_reply_size :: "function_reply \<Rightarrow> nat" where
  "function_reply_size m =
     8 + value_size (reply_uid m) + value_size (reply_error m) + 4
       + sum_list (map value_size (reply_values m))"

definition function_reply_serialize :: "function_reply \<Rightarrow> buffer \<Rightarrow> nat \<Rightarrow> (buffer \<times> nat) result" where
  "function_reply_serialize m buf offset =
     (if size_sub (length buf) offset < function_reply_size m
      then Inl (Exception ''Buffer too small'')
      else
        rbind (poke buf offset (u64_bytes (of_nat (function_reply_size m)))) (\<lambda>buf.
        let noffset = offset + 8 in
        rbind (value_serialize (reply_uid m) buf noffset) (\<lambda>(buf, n).
        let noffset = noffset + n in
        rbind (value_serialize (reply_error m) buf noffset) (\<lambda>(buf, n).
        let noffset = noffset + n in
        rbind (serialize_counted (reply_values m) buf noffset) (\<lambda>(buf, noffset).
        Inr (buf, noffset - offset))))))"

definition function_reply_deserialize ::
  "(nat \<Rightarrow> u64) \<Rightarrow> function_reply \<Rightarrow> buffer \<Rightarrow> nat \<Rightarrow> (function_reply \<times> nat) result"
where
  "function_reply_deserialize junk m buf offset =
     (if size_sub (length buf) offset < 8 then Inl (Exception ''Buffer too small'')
      else rbind (peek buf offset 8) (\<lambda>bs.
        if size_sub (length buf) offset < unat (u64_of_bytes bs)
        then Inl (Exception ''Buffer too small'')
        else
          let noffset = offset + 8 in
          rbind (value_deserialize (reply_uid m) buf noffset) (\<lambda>(uid, n).
          let noffset = noffset + n in
          rbind (value_deserialize (reply_error m) buf noffset) (\<lambda>(error, n).
          let noffset = noffset + n in
          rbind (deserialize_counted junk (reply_values m) buf noffset) (\<lambda>(vals, noffset).
          Inr (\<lparr>reply_uid = uid, reply_values = vals, reply_error = error\<rparr>,
               noffset - offset))))))"

section \<open>Content and wire image of the messages\<close>

definition call_content :: "function_call \<Rightarrow> content \<times> content \<times> content \<times> content list" where
  "call_content m = (value_content (call_uid m), value_content (call_class_name m),
     value_content (call_function_name m), map value_content (call_arguments m))"

definition reply_content :: "function_reply \<Rightarrow> content \<times> content \<times> content list" where
  "reply_content m =
     (value_content (reply_uid m), value_content (reply_error m), map value_content (reply_values m))"

definition counted_wire :: "ipc_value list \<Rightarrow> buffer" where
  "counted_wire vs = u32_bytes (of_nat (length vs)) @ concat (map value_wire vs)"

definition call_wire :: "function_call \<Rightarrow> buffer" where
  "call_wire m = u64_bytes (of_nat (function_call_size m)) @ value_wire (call_uid m)
     @ value_wire (call_class_name m) @ value_wire (call_function_name m)
     @ counted_wire (call_arguments m)"

definition reply_wire :: "function_reply \<Rightarrow> buffer" where
  "reply_wire m = u64_bytes (of_nat (function_reply_size m)) @ value_wire (reply_uid m)
     @ value_wire (reply_error m) @ counted_wire (reply_values m)"

definition values_ok :: "ipc_value list \<Rightarrow> bool" where
  "values_ok vs \<longleftrightarrow> list_all value_ok vs \<and> length vs < 2 ^ 32"

definition call_ok :: "function_call \<Rightarrow> bool" where
  "call_ok m \<longleftrightarrow> value_ok (call_uid m) \<and> value_ok (call_class_name m) \<and>
     value_ok (call_function_name m) \<and> values_ok (call_arguments m)"

definition reply_ok :: "function_reply \<Rightarrow> bool" where
  "reply_ok m \<longleftrightarrow> value_ok (reply_uid m) \<and> value_ok (reply_error m) \<and> values_ok (reply_values m)"

section \<open>Lemmas on the shared parts\<close>

lemma length_counted_wire: "length (counted_wire vs) = 4 + sum_list (map value_size vs)"
  by (simp add: counted_wire_def val.length_concat_wire)

lemma length_call_wire: "length (call_wire m) = function_call_size m"
  by (simp add: call_wire_def function_call_size_def length_value_wire length_counted_wire)

lemma length_reply_wire: "length (reply_wire m) = function_reply_size m"
  by (simp add: reply_wire_def function_reply_size_def length_value_wire length_counted_wire)

text \<open>A region of a given total length splits into consecutive regions of the given lengths.\<close>

lemma split_lengths: "length mid = sum_list ns \<Longrightarrow> \<exists>ms. mid = concat ms \<and> map length ms = ns"
proof (induction ns arbitrary: mid)
  case (Cons n ns)
  then have "length (drop n mid) = sum_list ns" by simp
  then obtain ms where ms: "concat ms = drop n mid" "map length ms = ns"
    using Cons.IH by metis
  have "mid = concat (take n mid # ms)" by (simp add: ms(1))
  moreover have "map length (take n mid # ms) = n # ns"
    using Cons.prems by (simp add: ms(2))
  ultimately show ?case by (intro exI [of _ "take n mid # ms"] conjI)
qed simp

lemma serialize_counted_mid:
  assumes off: "off = length pre" and mid: "length mid = 4 + sum_list (map value_size vs)"
    and len: "length (pre @ mid @ post) < 2 ^ 64"
  shows "serialize_counted vs (pre @ mid @ post) off =
    Inr (pre @ counted_wire vs @ post, off + length (counted_wire vs))"
proof -
  let ?cnt = "u32_bytes (of_nat (length vs))"
  have "poke (pre @ mid @ post) off ?cnt = Inr (pre @ ?cnt @ drop 4 mid @ post)"
    using off mid by (simp add: poke_def)
  moreover have "serialize_all value_serialize vs ((pre @ ?cnt) @ drop 4 mid @ post) (off + 4) =
      Inr ((pre @ ?cnt) @ concat (map value_wire vs) @ post, off + 4 + sum_list (map value_size vs))"
    by (rule val.serialize_all_mid) (use off mid len in auto)
  ultimately show ?thesis
    by (simp add: serialize_counted_def counted_wire_def val.length_concat_wire)
qed

lemma deserialize_counted_mid:
  assumes ok: "values_ok vs" and off: "off = length pre"
    and len: "length (pre @ counted_wire vs @ post) < 2 ^ 64"
  shows "\<exists>vs'. deserialize_counted junk ws (pre @ counted_wire vs @ post) off =
      Inr (vs', off + length (counted_wire vs)) \<and> map value_content vs' = map value_content vs"
proof -
  let ?cnt = "u32_bytes (of_nat (length vs))"
  have "peek (pre @ counted_wire vs @ post) off 4 = Inr ?cnt"
    using off by (simp add: peek_def counted_wire_def)
  moreover obtain vs' where "deserialize_all value_deserialize (resize_values junk (length vs) ws)
        ((pre @ ?cnt) @ concat (map value_wire vs) @ post) (off + 4) =
      Inr (vs', off + 4 + sum_list (map value_size vs))" "map value_content vs' = map value_content vs"
    using val.deserialize_all_mid [of vs "resize_values junk (length vs) ws" "off + 4" "pre @ ?cnt" post]
      ok off len by (auto simp: values_ok_def counted_wire_def)
  ultimately show ?thesis
    using ok by (simp add: deserialize_counted_def counted_wire_def val.length_concat_wire
        unat_of_nat_u32 values_ok_def)
qed

section \<open>function_call meets the contract\<close>

lemma function_call_serialize_mid:
  assumes off: "off = length pre" and mid: "length mid = function_call_size m"
    and len: "length (pre @ mid @ post) < 2 ^ 64"
  shows "function_call_serialize m (pre @ mid @ post) off =
    Inr (pre @ call_wire m @ post, function_call_size m)"
proof -
  let ?h = "u64_bytes (of_nat (function_call_size m))"
  let ?u = "value_wire (call_uid m)" and ?c = "value_wire (call_class_name m)"
    and ?f = "value_wire (call_function_name m)"
  have "length mid = sum_list [8, value_size (call_uid m), value_size (call_class_name m),
      value_size (call_function_name m), 4 + sum_list (map value_size (call_arguments m))]"
    using mid by (simp add: function_call_size_def)
  from split_lengths [OF this] obtain m0 m1 m2 m3 m4 where
    m: "mid = m0 @ m1 @ m2 @ m3 @ m4" "length m0 = 8" "length m1 = value_size (call_uid m)"
      "length m2 = value_size (call_class_name m)" "length m3 = value_size (call_function_name m)"
      "length m4 = 4 + sum_list (map value_size (call_arguments m))"
    by (auto simp: Cons_eq_map_conv eq_commute [of "map length _"])
  have chk: "\<not> size_sub (length (pre @ mid @ post)) off < function_call_size m"
    using off mid len by (simp add: size_sub_le)
  have 0: "poke (pre @ mid @ post) off ?h = Inr (pre @ ?h @ m1 @ m2 @ m3 @ m4 @ post)"
    using off m by (simp add: poke_def)
  note lens = length_value_wire m off len
  have 1: "value_serialize (call_uid m) (pre @ ?h @ m1 @ m2 @ m3 @ m4 @ post) (off + 8) =
      Inr (pre @ ?h @ ?u @ m2 @ m3 @ m4 @ post, value_size (call_uid m))"
    using val.ser_mid [of "off + 8" "pre @ ?h" m1 "call_uid m" "m2 @ m3 @ m4 @ post"] lens by simp
  have 2: "value_serialize (call_class_name m) (pre @ ?h @ ?u @ m2 @ m3 @ m4 @ post)
        (off + 8 + value_size (call_uid m)) =
      Inr (pre @ ?h @ ?u @ ?c @ m3 @ m4 @ post, value_size (call_class_name m))"
    using val.ser_mid [of "off + 8 + value_size (call_uid m)" "pre @ ?h @ ?u" m2 "call_class_name m"
        "m3 @ m4 @ post"] lens by simp
  have 3: "value_serialize (call_function_name m) (pre @ ?h @ ?u @ ?c @ m3 @ m4 @ post)
        (off + 8 + value_size (call_uid m) + value_size (call_class_name m)) =
      Inr (pre @ ?h @ ?u @ ?c @ ?f @ m4 @ post, value_size (call_function_name m))"
    using val.ser_mid [of "off + 8 + value_size (call_uid m) + value_size (call_class_name m)"
        "pre @ ?h @ ?u @ ?c" m3 "call_function_name m" "m4 @ post"] lens by simp
  let ?off4 = "off + 8 + value_size (call_uid m) + value_size (call_class_name m) +
    value_size (call_function_name m)"
  have 4: "serialize_counted (call_arguments m) (pre @ ?h @ ?u @ ?c @ ?f @ m4 @ post) ?off4 =
      Inr (pre @ ?h @ ?u @ ?c @ ?f @ counted_wire (call_arguments m) @ post,
           ?off4 + length (counted_wire (call_arguments m)))"
    using serialize_counted_mid [of ?off4 "pre @ ?h @ ?u @ ?c @ ?f" m4 "call_arguments m" post] lens
    by simp
  have "function_call_serialize m (pre @ mid @ post) off =
      Inr (pre @ call_wire m @ post, ?off4 + length (counted_wire (call_arguments m)) - off)"
    using chk by (simp add: function_call_serialize_def Let_def 0 1 2 3 4 call_wire_def)
  moreover have "?off4 + length (counted_wire (call_arguments m)) - off = function_call_size m"
    by (simp add: function_call_size_def length_counted_wire)
  ultimately show ?thesis by simp
qed

lemma function_call_serialize_small:
  assumes "off \<le> length buf" and "length buf < 2 ^ 64" and "length buf < off + function_call_size m"
  shows "function_call_serialize m buf off = Inl (Exception ''Buffer too small'')"
proof -
  have "size_sub (length buf) off < function_call_size m" using assms by (simp add: size_sub_le)
  then show ?thesis by (simp add: function_call_serialize_def)
qed

lemma function_call_deserialize_mid:
  assumes ok: "call_ok m" and off: "off = length pre"
    and len: "length (pre @ call_wire m @ post) < 2 ^ 64"
  shows "\<exists>m'. function_call_deserialize junk w (pre @ call_wire m @ post) off =
      Inr (m', function_call_size m) \<and> call_content m' = call_content m"
proof -
  let ?h = "u64_bytes (of_nat (function_call_size m))"
  let ?u = "value_wire (call_uid m)" and ?c = "value_wire (call_class_name m)"
    and ?f = "value_wire (call_function_name m)" and ?a = "counted_wire (call_arguments m)"
  let ?buf = "pre @ ?h @ ?u @ ?c @ ?f @ ?a @ post"
  note lens = length_value_wire off
  have len': "length ?buf < 2 ^ 64" using len by (simp add: call_wire_def)
  have size: "function_call_size m < 2 ^ 64" using len by (simp add: length_call_wire)
  have chk: "\<not> size_sub (length ?buf) off < function_call_size m" "\<not> size_sub (length ?buf) off < 8"
    using off len' length_call_wire [of m] by (simp_all add: size_sub_le call_wire_def)
  have 0: "peek ?buf off 8 = Inr ?h" using off by (simp add: peek_def)
  obtain uid where 1: "value_deserialize (call_uid w) ?buf (off + 8) = Inr (uid, value_size (call_uid m))"
      "value_content uid = value_content (call_uid m)"
    using val.de_mid [of "call_uid m" "off + 8" "pre @ ?h" "?c @ ?f @ ?a @ post" "call_uid w"]
      ok len' lens by (auto simp: call_ok_def)
  let ?off2 = "off + 8 + value_size (call_uid m)"
  obtain cn where 2: "value_deserialize (call_class_name w) ?buf ?off2 =
        Inr (cn, value_size (call_class_name m))" "value_content cn = value_content (call_class_name m)"
    using val.de_mid [of "call_class_name m" ?off2 "pre @ ?h @ ?u" "?f @ ?a @ post" "call_class_name w"]
      ok len' lens by (auto simp: call_ok_def)
  let ?off3 = "?off2 + value_size (call_class_name m)"
  obtain fn where 3: "value_deserialize (call_function_name w) ?buf ?off3 =
        Inr (fn, value_size (call_function_name m))" "value_content fn = value_content (call_function_name m)"
    using val.de_mid [of "call_function_name m" ?off3 "pre @ ?h @ ?u @ ?c" "?a @ post" "call_function_name w"]
      ok len' lens by (auto simp: call_ok_def)
  let ?off4 = "?off3 + value_size (call_function_name m)"
  obtain args where 4: "deserialize_counted junk (call_arguments w) ?buf ?off4 =
        Inr (args, ?off4 + length ?a)" "map value_content args = map value_content (call_arguments m)"
    using deserialize_counted_mid [of "call_arguments m" ?off4 "pre @ ?h @ ?u @ ?c @ ?f" post junk "call_arguments w"]
      ok len' lens by (auto simp: call_ok_def)
  have "function_call_deserialize junk w ?buf off =
      Inr (\<lparr>call_uid = uid, call_class_name = cn, call_function_name = fn, call_arguments = args\<rparr>,
           ?off4 + length ?a - off)"
    using chk 1(1) 2(1) 3(1) 4(1)
    by (simp add: function_call_deserialize_def Let_def 0 unat_of_nat_u64 [OF size])
  moreover have "?off4 + length ?a - off = function_call_size m"
    by (simp add: function_call_size_def length_counted_wire)
  ultimately show ?thesis
    using 1(2) 2(2) 3(2) 4(2) by (simp add: call_wire_def call_content_def)
qed

interpretation call: wire_codec call_content call_wire function_call_size function_call_serialize
  "function_call_deserialize junk" call_ok for junk
proof unfold_locales
  show "length (call_wire m) = function_call_size m" for m by (rule length_call_wire)
  show "off = length pre \<Longrightarrow> length mid = function_call_size m \<Longrightarrow> length (pre @ mid @ post) < 2 ^ 64 \<Longrightarrow>
      function_call_serialize m (pre @ mid @ post) off = Inr (pre @ call_wire m @ post, function_call_size m)"
    for off pre mid m post by (rule function_call_serialize_mid)
  show "off \<le> length buf \<Longrightarrow> length buf < 2 ^ 64 \<Longrightarrow> length buf < off + function_call_size m \<Longrightarrow>
      \<exists>msg. function_call_serialize m buf off = Inl (Exception msg)" for off buf m
    using function_call_serialize_small by blast
  show "call_ok m \<Longrightarrow> off = length pre \<Longrightarrow> length (pre @ call_wire m @ post) < 2 ^ 64 \<Longrightarrow>
      \<exists>m'. function_call_deserialize junk w (pre @ call_wire m @ post) off =
        Inr (m', function_call_size m) \<and> call_content m' = call_content m" for m off pre post w
    by (rule function_call_deserialize_mid)
qed

section \<open>function_reply meets the contract\<close>

lemma function_reply_serialize_mid:
  assumes off: "off = length pre" and mid: "length mid = function_reply_size m"
    and len: "length (pre @ mid @ post) < 2 ^ 64"
  shows "function_reply_serialize m (pre @ mid @ post) off =
    Inr (pre @ reply_wire m @ post, function_reply_size m)"
proof -
  let ?h = "u64_bytes (of_nat (function_reply_size m))"
  let ?u = "value_wire (reply_uid m)" and ?e = "value_wire (reply_error m)"
  have "length mid = sum_list [8, value_size (reply_uid m), value_size (reply_error m),
      4 + sum_list (map value_size (reply_values m))]"
    using mid by (simp add: function_reply_size_def)
  from split_lengths [OF this] obtain m0 m1 m2 m3 where
    m: "mid = m0 @ m1 @ m2 @ m3" "length m0 = 8" "length m1 = value_size (reply_uid m)"
      "length m2 = value_size (reply_error m)" "length m3 = 4 + sum_list (map value_size (reply_values m))"
    by (auto simp: Cons_eq_map_conv eq_commute [of "map length _"])
  note lens = length_value_wire m off len
  have chk: "\<not> size_sub (length (pre @ mid @ post)) off < function_reply_size m"
    using off mid len by (simp add: size_sub_le)
  have 0: "poke (pre @ mid @ post) off ?h = Inr (pre @ ?h @ m1 @ m2 @ m3 @ post)"
    using off m by (simp add: poke_def)
  have 1: "value_serialize (reply_uid m) (pre @ ?h @ m1 @ m2 @ m3 @ post) (off + 8) =
      Inr (pre @ ?h @ ?u @ m2 @ m3 @ post, value_size (reply_uid m))"
    using val.ser_mid [of "off + 8" "pre @ ?h" m1 "reply_uid m" "m2 @ m3 @ post"] lens by simp
  have 2: "value_serialize (reply_error m) (pre @ ?h @ ?u @ m2 @ m3 @ post)
        (off + 8 + value_size (reply_uid m)) =
      Inr (pre @ ?h @ ?u @ ?e @ m3 @ post, value_size (reply_error m))"
    using val.ser_mid [of "off + 8 + value_size (reply_uid m)" "pre @ ?h @ ?u" m2 "reply_error m"
        "m3 @ post"] lens by simp
  let ?off3 = "off + 8 + value_size (reply_uid m) + value_size (reply_error m)"
  have 3: "serialize_counted (reply_values m) (pre @ ?h @ ?u @ ?e @ m3 @ post) ?off3 =
      Inr (pre @ ?h @ ?u @ ?e @ counted_wire (reply_values m) @ post,
           ?off3 + length (counted_wire (reply_values m)))"
    using serialize_counted_mid [of ?off3 "pre @ ?h @ ?u @ ?e" m3 "reply_values m" post] lens by simp
  have "function_reply_serialize m (pre @ mid @ post) off =
      Inr (pre @ reply_wire m @ post, ?off3 + length (counted_wire (reply_values m)) - off)"
    using chk by (simp add: function_reply_serialize_def Let_def 0 1 2 3 reply_wire_def)
  moreover have "?off3 + length (counted_wire (reply_values m)) - off = function_reply_size m"
    by (simp add: function_reply_size_def length_counted_wire)
  ultimately show ?thesis by simp
qed

lemma function_reply_serialize_small:
  assumes "off \<le> length buf" and "length buf < 2 ^ 64" and "length buf < off + function_reply_size m"
  shows "function_reply_serialize m buf off = Inl (Exception ''Buffer too small'')"
proof -
  have "size_sub (length buf) off < function_reply_size m" using assms by (simp add: size_sub_le)
  then show ?thesis by (simp add: function_reply_serialize_def)
qed

lemma function_reply_deserialize_mid:
  assumes ok: "reply_ok m" and off: "off = length pre"
    and len: "length (pre @ reply_wire m @ post) < 2 ^ 64"
  shows "\<exists>m'. function_reply_deserialize junk w (pre @ reply_wire m @ post) off =
      Inr (m', function_reply_size m) \<and> reply_content m' = reply_content m"
proof -
  let ?h = "u64_bytes (of_nat (function_reply_size m))"
  let ?u = "value_wire (reply_uid m)" and ?e = "value_wire (reply_error m)"
    and ?a = "counted_wire (reply_values m)"
  let ?buf = "pre @ ?h @ ?u @ ?e @ ?a @ post"
  note lens = length_value_wire off
  have len': "length ?buf < 2 ^ 64" using len by (simp add: reply_wire_def)
  have size: "function_reply_size m < 2 ^ 64" using len by (simp add: length_reply_wire)
  have chk: "\<not> size_sub (length ?buf) off < function_reply_size m" "\<not> size_sub (length ?buf) off < 8"
    using off len' length_reply_wire [of m] by (simp_all add: size_sub_le reply_wire_def)
  have 0: "peek ?buf off 8 = Inr ?h" using off by (simp add: peek_def)
  obtain uid where 1: "value_deserialize (reply_uid w) ?buf (off + 8) = Inr (uid, value_size (reply_uid m))"
      "value_content uid = value_content (reply_uid m)"
    using val.de_mid [of "reply_uid m" "off + 8" "pre @ ?h" "?e @ ?a @ post" "reply_uid w"]
      ok len' lens by (auto simp: reply_ok_def)
  let ?off2 = "off + 8 + value_size (reply_uid m)"
  obtain er where 2: "value_deserialize (reply_error w) ?buf ?off2 =
        Inr (er, value_size (reply_error m))" "value_content er = value_content (reply_error m)"
    using val.de_mid [of "reply_error m" ?off2 "pre @ ?h @ ?u" "?a @ post" "reply_error w"]
      ok len' lens by (auto simp: reply_ok_def)
  let ?off3 = "?off2 + value_size (reply_error m)"
  obtain vs where 3: "deserialize_counted junk (reply_values w) ?buf ?off3 =
        Inr (vs, ?off3 + length ?a)" "map value_content vs = map value_content (reply_values m)"
    using deserialize_counted_mid [of "reply_values m" ?off3 "pre @ ?h @ ?u @ ?e" post junk "reply_values w"]
      ok len' lens by (auto simp: reply_ok_def)
  have "function_reply_deserialize junk w ?buf off =
      Inr (\<lparr>reply_uid = uid, reply_values = vs, reply_error = er\<rparr>, ?off3 + length ?a - off)"
    using chk 1(1) 2(1) 3(1)
    by (simp add: function_reply_deserialize_def Let_def 0 unat_of_nat_u64 [OF size])
  moreover have "?off3 + length ?a - off = function_reply_size m"
    by (simp add: function_reply_size_def length_counted_wire)
  ultimately show ?thesis
    using 1(2) 2(2) 3(2) by (simp add: reply_wire_def reply_content_def)
qed

interpretation reply: wire_codec reply_content reply_wire function_reply_size function_reply_serialize
  "function_reply_deserialize junk" reply_ok for junk
proof unfold_locales
  show "length (reply_wire m) = function_reply_size m" for m by (rule length_reply_wire)
  show "off = length pre \<Longrightarrow> length mid = function_reply_size m \<Longrightarrow> length (pre @ mid @ post) < 2 ^ 64 \<Longrightarrow>
      function_reply_serialize m (pre @ mid @ post) off = Inr (pre @ reply_wire m @ post, function_reply_size m)"
    for off pre mid m post by (rule function_reply_serialize_mid)
  show "off \<le> length buf \<Longrightarrow> length buf < 2 ^ 64 \<Longrightarrow> length buf < off + function_reply_size m \<Longrightarrow>
      \<exists>msg. function_reply_serialize m buf off = Inl (Exception msg)" for off buf m
    using function_reply_serialize_small by blast
  show "reply_ok m \<Longrightarrow> off = length pre \<Longrightarrow> length (pre @ reply_wire m @ post) < 2 ^ 64 \<Longrightarrow>
      \<exists>m'. function_reply_deserialize junk w (pre @ reply_wire m @ post) off =
        Inr (m', function_reply_size m) \<and> reply_content m' = reply_content m" for m off pre post w
    by (rule function_reply_deserialize_mid)
qed

section \<open>Where the decoders leave the buffer\<close>

text \<open>
  The values check their bounds, the count after them does not: a decoder of a message leaves its
  buffer exactly when the buffer ends within the 4 bytes of the count.
\<close>

lemma deserialize_counted_unsafe:
  assumes "length buf < 2 ^ 64"
  shows "deserialize_counted junk vs buf off = Inl Bad_Access \<longleftrightarrow> length buf < off + 4"
proof
  assume l: "deserialize_counted junk vs buf off = Inl Bad_Access"
  show "length buf < off + 4"
  proof (rule ccontr)
    assume "\<not> length buf < off + 4"
    then have "off + 4 \<le> length buf" by simp
    with l val.deserialize_all_safe [OF assms this] show False
      by (simp add: deserialize_counted_def peek_inside Let_def)
  qed
qed (simp add: deserialize_counted_def peek_outside)

lemma value_in_bounds:
  "length buf < 2 ^ 64 \<Longrightarrow> value_deserialize w buf off = Inr (v, n) \<Longrightarrow> off + n \<le> length buf"
  using val.de_sound by blast

section \<open>Where the encoders leave the length\<close>

text \<open>Storing never changes the length of a buffer.\<close>

definition keeps_length :: "nat \<Rightarrow> (buffer \<times> nat) result \<Rightarrow> bool" where
  "keeps_length n r \<longleftrightarrow> (\<forall>buf k. r = Inr (buf, k) \<longrightarrow> length buf = n)"

lemma keeps_length_Inr: "length buf = n \<Longrightarrow> keeps_length n (Inr (buf, k))"
  by (simp add: keeps_length_def)

lemma keeps_length_Inl: "keeps_length n (Inl e)"
  by (simp add: keeps_length_def)

lemma keeps_length_poke:
  "(\<And>buf'. length buf' = length buf \<Longrightarrow> keeps_length n (k buf')) \<Longrightarrow> keeps_length n (rbind (poke buf off bs) k)"
  using length_poke [of buf off bs] by (cases "poke buf off bs") (simp_all add: keeps_length_Inl)

lemma keeps_length_bind:
  "keeps_length l m \<Longrightarrow> (\<And>buf j. length buf = l \<Longrightarrow> keeps_length n (k (buf, j))) \<Longrightarrow> keeps_length n (rbind m k)"
  by (cases m) (simp_all add: keeps_length_Inl keeps_length_def [of l] split_paired_all)

lemma serialize_bytes_length: "length buf = l \<Longrightarrow> keeps_length l (serialize_bytes bs buf off)"
  unfolding serialize_bytes_def Let_def
  by (rule keeps_length_poke, cases "0 < length bs")
    (auto intro!: keeps_length_poke keeps_length_Inr)

lemma value_serialize_length: "length buf = l \<Longrightarrow> keeps_length l (value_serialize v buf off)"
  unfolding value_serialize_def Let_def
  by (cases "value_type v")
    (auto intro!: keeps_length_poke keeps_length_bind [of l] serialize_bytes_length keeps_length_Inr keeps_length_Inl)

lemma serialize_all_length: "length buf = l \<Longrightarrow> keeps_length l (serialize_all value_serialize vs buf off)"
  by (induction vs arbitrary: buf off)
    (auto intro: keeps_length_Inr intro!: keeps_length_bind [OF value_serialize_length])

lemma function_reply_serialize_length: "length buf = l \<Longrightarrow> keeps_length l (function_reply_serialize m buf off)"
  unfolding function_reply_serialize_def serialize_counted_def Let_def
  by (auto intro!: keeps_length_poke keeps_length_bind [of l] value_serialize_length serialize_all_length
      keeps_length_Inr keeps_length_Inl)

section \<open>Properties\<close>

text \<open>C11. Round trip of a call message: a \<open>function_call\<close> whose values are storable and that has
  fewer than \<open>2 ^ 32\<close> arguments can be stored at any offset where it fits, reports its size, leaves
  the rest of the buffer alone, and restoring it into any message object gives back the same unique
  id, class name, function name and arguments in order.\<close>

theorem function_call_roundtrip:
  assumes "call_ok m" and "offset + function_call_size m \<le> length buf" and "length buf < 2 ^ 64"
  shows "\<exists>buf' m'. function_call_serialize m buf offset = Inr (buf', function_call_size m) \<and>
    take offset buf' = take offset buf \<and>
    drop (offset + function_call_size m) buf' = drop (offset + function_call_size m) buf \<and>
    function_call_deserialize junk w buf' offset = Inr (m', function_call_size m) \<and>
    call_content m' = call_content m"
proof -
  let ?pre = "take offset buf" and ?post = "drop (offset + function_call_size m) buf"
  have len: "length (?pre @ call_wire m @ ?post) = length buf" "offset = length ?pre"
    using assms(2) by (auto simp: length_call_wire)
  obtain m' where "function_call_deserialize junk w (?pre @ call_wire m @ ?post) offset =
      Inr (m', function_call_size m)" "call_content m' = call_content m"
    using call.de_mid [OF assms(1) len(2), of ?post junk w] assms(3) len(1) by auto
  moreover have "function_call_serialize m buf offset =
      Inr (?pre @ call_wire m @ ?post, function_call_size m)"
    using assms(2,3) by (rule call.ser_inside)
  ultimately show ?thesis
    using len length_call_wire [of m] by (intro exI conjI) (assumption | simp)+
qed

theorem function_call_roundtrip_witness:
  "\<exists>buf' m'. function_call_serialize (function_call_init 1 2) (replicate 40 CHR 0x00) 0 = Inr (buf', 40) \<and>
     function_call_deserialize (\<lambda>_. 0) (function_call_init 3 4) buf' 0 = Inr (m', 40) \<and>
     call_content m' = call_content (function_call_init 1 2)"
proof -
  have size: "function_call_size (function_call_init 1 2) = 40"
    by (simp add: function_call_size_def function_call_init_def value_size_def value_of_uint64_def
        value_of_string_def)
  have "call_ok (function_call_init 1 2)"
    by (simp add: call_ok_def function_call_init_def value_ok_def values_ok_def value_of_uint64_def
        value_of_string_def)
  from function_call_roundtrip [OF this, of 0 "replicate 40 CHR 0x00" "\<lambda>_. 0" "function_call_init 3 4"]
  show ?thesis unfolding size by auto
qed

text \<open>C12. Round trip of a reply message, in the same sense: unique id, error and values in order.\<close>

theorem function_reply_roundtrip:
  assumes "reply_ok m" and "offset + function_reply_size m \<le> length buf" and "length buf < 2 ^ 64"
  shows "\<exists>buf' m'. function_reply_serialize m buf offset = Inr (buf', function_reply_size m) \<and>
    take offset buf' = take offset buf \<and>
    drop (offset + function_reply_size m) buf' = drop (offset + function_reply_size m) buf \<and>
    function_reply_deserialize junk w buf' offset = Inr (m', function_reply_size m) \<and>
    reply_content m' = reply_content m"
proof -
  let ?pre = "take offset buf" and ?post = "drop (offset + function_reply_size m) buf"
  have len: "length (?pre @ reply_wire m @ ?post) = length buf" "offset = length ?pre"
    using assms(2) by (auto simp: length_reply_wire)
  obtain m' where "function_reply_deserialize junk w (?pre @ reply_wire m @ ?post) offset =
      Inr (m', function_reply_size m)" "reply_content m' = reply_content m"
    using reply.de_mid [OF assms(1) len(2), of ?post junk w] assms(3) len(1) by auto
  moreover have "function_reply_serialize m buf offset =
      Inr (?pre @ reply_wire m @ ?post, function_reply_size m)"
    using assms(2,3) by (rule reply.ser_inside)
  ultimately show ?thesis
    using len length_reply_wire [of m] by (intro exI conjI) (assumption | simp)+
qed

theorem function_reply_roundtrip_witness:
  "\<exists>buf' m'. function_reply_serialize (function_reply_init 1) (replicate 32 CHR 0x00) 0 = Inr (buf', 32) \<and>
     function_reply_deserialize (\<lambda>_. 0) (function_reply_init 3) buf' 0 = Inr (m', 32) \<and>
     reply_content m' = reply_content (function_reply_init 1)"
proof -
  have size: "function_reply_size (function_reply_init 1) = 32"
    by (simp add: function_reply_size_def function_reply_init_def value_size_def value_of_uint64_def
        value_of_string_def)
  have "reply_ok (function_reply_init 1)"
    by (simp add: reply_ok_def function_reply_init_def value_ok_def values_ok_def value_of_uint64_def
        value_of_string_def)
  from function_reply_roundtrip [OF this, of 0 "replicate 32 CHR 0x00" "\<lambda>_. 0" "function_reply_init 3"]
  show ?thesis unfolding size by auto
qed

text \<open>C14. Framing: the frames of any sequence of storable calls, each body below 4 GiB, sent back to
  back and followed by anything, are taken off the stream as exactly those calls in that order, and
  what followed is left.\<close>

theorem call_frames_stream:
  assumes "list_all (\<lambda>m. call_ok m \<and> function_call_size m < 2 ^ 32) ms"
  shows "\<exists>frames ms'. map (pack_frame function_call_size function_call_serialize) ms = map Inr frames \<and>
    unpack_frames (function_call_deserialize junk) w (length ms) (concat frames @ rest) = Inr (ms', rest) \<and>
    map call_content ms' = map call_content ms"
proof -
  have "map (pack_frame function_call_size function_call_serialize) ms =
      map Inr (map (\<lambda>m. frame_image (call_wire m)) ms)"
    using assms call.pack_frame_image by (auto simp: list_all_iff)
  with call.unpack_frames_image [OF assms, of junk w rest] show ?thesis by blast
qed

theorem call_frames_stream_witness:
  "\<exists>frames ms'. map (pack_frame function_call_size function_call_serialize)
        [function_call_init 0 0, function_call_init 1 1] = map Inr frames \<and>
     unpack_frames (function_call_deserialize (\<lambda>_. 0)) (function_call_init 2 2) 2 (concat frames @ ''x'') =
       Inr (ms', ''x'') \<and>
     map call_content ms' = map call_content [function_call_init 0 0, function_call_init 1 1]"
proof -
  have "list_all (\<lambda>m. call_ok m \<and> function_call_size m < 2 ^ 32) [function_call_init 0 0, function_call_init 1 1]"
    by (simp add: call_ok_def function_call_init_def value_ok_def values_ok_def value_of_uint64_def
        value_of_string_def function_call_size_def value_size_def)
  from call_frames_stream [OF this, of "\<lambda>_. 0" "function_call_init 2 2" "''x''"] show ?thesis
    by (simp add: numeral_2_eq_2)
qed

text \<open>C21. The only memory-unsafe read of the call decoder: started inside the buffer, it leaves the
  buffer exactly when the size field is acceptable, the three leading values decode, and fewer than
  the 4 bytes of the argument count are left after them, which it reads without a check.\<close>

theorem function_call_deserialize_unsafe:
  assumes "off \<le> length buf" and "length buf < 2 ^ 64"
  shows "function_call_deserialize junk w buf off = Inl Bad_Access \<longleftrightarrow>
    off + 8 \<le> length buf \<and> unat (u64_of_bytes (take 8 (drop off buf))) \<le> length buf - off \<and>
    (\<exists>uid n1 cn n2 fn n3. value_deserialize (call_uid w) buf (off + 8) = Inr (uid, n1) \<and>
      value_deserialize (call_class_name w) buf (off + 8 + n1) = Inr (cn, n2) \<and>
      value_deserialize (call_function_name w) buf (off + 8 + n1 + n2) = Inr (fn, n3) \<and>
      length buf < off + 8 + n1 + n2 + n3 + 4)"
proof (cases "off + 8 \<le> length buf \<and> unat (u64_of_bytes (take 8 (drop off buf))) \<le> length buf - off")
  case False
  then show ?thesis
    using assms by (auto simp: function_call_deserialize_def size_sub_le peek_def Let_def)
next
  case True
  note safe = val.de_safe [OF _ assms(2)] and bounds = value_in_bounds [OF assms(2)]
  have body: "function_call_deserialize junk w buf off = Inl Bad_Access \<longleftrightarrow>
      rbind (value_deserialize (call_uid w) buf (off + 8)) (\<lambda>(uid, n1).
      rbind (value_deserialize (call_class_name w) buf (off + 8 + n1)) (\<lambda>(cn, n2).
      rbind (value_deserialize (call_function_name w) buf (off + 8 + n1 + n2)) (\<lambda>(fn, n3).
      deserialize_counted junk (call_arguments w) buf (off + 8 + n1 + n2 + n3)))) = Inl Bad_Access"
    using True assms
    by (auto simp: function_call_deserialize_def size_sub_le peek_def Let_def rbind_eq_Inl_iff)
  have s1: "value_deserialize (call_uid w) buf (off + 8) \<noteq> Inl Bad_Access"
    using True by (intro safe) auto
  have s2: "value_deserialize (call_class_name w) buf (off + 8 + n1) \<noteq> Inl Bad_Access"
    if "value_deserialize (call_uid w) buf (off + 8) = Inr (uid, n1)" for uid n1
    using bounds [OF that] by (intro safe)
  have s3: "value_deserialize (call_function_name w) buf (off + 8 + n1 + n2) \<noteq> Inl Bad_Access"
    if "value_deserialize (call_class_name w) buf (off + 8 + n1) = Inr (cn, n2)" for n1 cn n2
    using bounds [OF that] by (intro safe)
  show ?thesis
    unfolding body rbind_eq_Inl_iff using True s1 s2 s3
    by (auto simp: rbind_eq_Inl_iff deserialize_counted_unsafe [OF assms(2)] split: prod.splits)
qed

theorem function_call_deserialize_unsafe_witness:
  "function_call_deserialize (\<lambda>_. 0) (function_call_init 0 0) (replicate 20 CHR 0x00) 0 = Inl Bad_Access"
proof -
  have z: "u32_of_bytes (replicate 4 CHR 0x00) = 0" "u64_of_bytes (replicate 8 CHR 0x00) = 0"
    by (simp_all add: u32_of_bytes_def u64_of_bytes_def numeral_eq_Suc)
  have "value_deserialize v (replicate 20 CHR 0x00) off = Inr (v\<lparr>value_type := TNull\<rparr>, 4)"
    if "off \<le> 16" for v off
    using that z by (simp add: value_deserialize_def peek_def size_sub_le Let_def)
  then show ?thesis
    using function_call_deserialize_unsafe [of 0 "replicate 20 CHR 0x00" "\<lambda>_. 0" "function_call_init 0 0"] z
    by simp
qed

text \<open>\<open>make_sendable\<close> and \<open>read_size\<close>: on a buffer with a full header the byte count after the
  header is stored modulo \<open>2 ^ 32\<close> at index 4 and \<open>read_size\<close> returns it, the rest is unchanged; on
  a buffer shorter than the header the store falls outside the buffer.\<close>

theorem make_sendable_spec:
  assumes "length buf < 2 ^ 64"
  shows "if length buf < 8 then make_sendable buf = Inl Bad_Access
    else \<exists>buf'. make_sendable buf = Inr buf' \<and> length buf' = length buf \<and>
      take 4 buf' = take 4 buf \<and> drop 8 buf' = drop 8 buf \<and>
      read_size (take 8 buf') = Inr ((length buf - 8) mod 2 ^ 32)"
proof (cases "length buf < 8")
  case False
  let ?buf' = "take 4 buf @ u32_bytes (of_nat (length buf - 8)) @ drop 8 buf"
  have "make_sendable buf = Inr ?buf'" using False assms by (intro make_sendable_image) auto
  moreover have "read_size (take 8 ?buf') = Inr ((length buf - 8) mod 2 ^ 32)"
    using False by (simp add: read_size_def peek_def unat_u32_of_nat min_def del: of_nat_diff)
  ultimately show ?thesis using False by (simp add: min_def)
qed (simp add: make_sendable_short)

theorem make_sendable_spec_witness: "make_sendable ''1'' = Inl Bad_Access"
  using make_sendable_spec [of "''1''"] by simp

end
