(* ===== verification/Ipc_Rpc.thy ===== *)
theory Ipc_Rpc
  imports Ipc_Dispatch Ipc_Message
begin

text \<open>
  The steps of one remote call that the Windows and the macOS code share, each as the code of both
  platforms has it: the client builds the call message (\<open>client::call\<close>), the server executes a
  received call and fills in the reply (\<open>server_instance::read_callback_msg\<close> on Windows,
  \<open>worker_rep\<close> on macOS), and the client turns a received reply into the values its callback gets
  (\<open>client::read_callback_msg\<close>). The transport is the subject of other theories; here the composition of
  these steps through the frames of \<open>Wire_Codec\<close> is related to what the server's table says.
\<close>

section \<open>The steps\<close>

text \<open>
  The message a client builds. A freshly constructed string value leaves its union
  uninitialised; assigning it to the message member copies that content, \<open>u\<close>.
\<close>

definition build_call :: "u64 \<Rightarrow> u64 \<Rightarrow> string \<Rightarrow> string \<Rightarrow> ipc_value list \<Rightarrow> function_call" where
  "build_call timestamp u cname fname args =
     \<lparr>call_uid = value_of_uint64 timestamp, call_class_name = value_of_string u cname,
      call_function_name = value_of_string u fname, call_arguments = args\<rparr>"

text \<open>Executing a received call: the reply carries its unique id, and the error only on failure.\<close>

definition execute_request ::
  "'w heap \<Rightarrow> 'w server \<Rightarrow> u64 \<Rightarrow> u64 \<Rightarrow> function_call \<Rightarrow> 'w \<Rightarrow> (function_reply \<times> 'w) result"
where
  "execute_request h s cid u fnc_call_msg w =
     rbind (client_call_function h s cid (value_str (call_class_name fnc_call_msg))
              (value_str (call_function_name fnc_call_msg)) (call_arguments fnc_call_msg) [] '''' w)
       (\<lambda>(success, proc_rval, proc_error, w).
         let reply = (function_reply_init u)\<lparr>reply_uid := call_uid fnc_call_msg, reply_values := proc_rval\<rparr>;
             reply = (if \<not> success then reply\<lparr>reply_error := value_of_string u proc_error\<rparr> else reply)
         in Inr (reply, w))"

text \<open>
  What the callback gets: with a non-empty error string a single value, the first of the reply or a
  fresh one, made \<open>Null\<close> and carrying the error; otherwise the values of the reply.
\<close>

definition delivered_values :: "(nat \<Rightarrow> u64) \<Rightarrow> function_reply \<Rightarrow> ipc_value list" where
  "delivered_values junk reply =
     (if 0 < length (value_str (reply_error reply)) then
        map (\<lambda>v. v\<lparr>value_type := TNull, value_str := value_str (reply_error reply)\<rparr>)
          (resize_values junk 1 (reply_values reply))
      else reply_values reply)"

section \<open>What a decoded message looks like\<close>

lemma content_string:
  "value_content v = Content_Bytes TString s \<longleftrightarrow> value_type v = TString \<and> value_str v = s"
  by (auto simp: value_content_def split: vtype.splits)

lemma content_uint64:
  "value_content v = Content64 TUInt64 w \<longleftrightarrow> value_type v = TUInt64 \<and> value_union v = w"
  by (auto simp: value_content_def split: vtype.splits)

lemma content_of_string [simp]: "value_content (value_of_string u s) = Content_Bytes TString s"
  by (simp add: value_content_def value_of_string_def)

lemma content_of_uint64 [simp]: "value_content (value_of_uint64 w) = Content64 TUInt64 w"
  by (simp add: value_content_def value_of_uint64_def)

lemma length_of_content: "value_size v = length (content_wire (value_content v))"
  using length_value_wire [of v] by (simp add: value_wire_def)

text \<open>The decoder writes \<open>value_str\<close> only for a string.\<close>

lemma value_deserialize_str:
  "value_deserialize w buf off = Inr (v, n) \<Longrightarrow> value_type v \<noteq> TString \<Longrightarrow> value_str v = value_str w"
  by (auto simp: value_deserialize_def Let_def rbind_eq_Inr_iff split: if_splits)

lemma deserialize_all_str:
  "deserialize_all value_deserialize ws buf off = Inr (vs, off') \<Longrightarrow>
   list_all2 (\<lambda>w v. value_type v \<noteq> TString \<longrightarrow> value_str v = value_str w) ws vs"
proof (induction ws arbitrary: off vs)
  case (Cons w ws)
  then show ?case
    using value_deserialize_str [of w buf off] by (auto simp: rbind_eq_Inr_iff)
qed simp

text \<open>No value of a freshly decoded reply is \<open>Null\<close> with a text.\<close>

definition plain_null :: "ipc_value \<Rightarrow> bool" where
  "plain_null v \<longleftrightarrow> (value_type v = TNull \<longrightarrow> value_str v = [])"

lemma function_reply_deserialize_plain:
  assumes "function_reply_deserialize junk (function_reply_init u) buf off = Inr (m, n)"
  shows "list_all plain_null (reply_values m)"
proof -
  obtain cnt off1 off2 where
    "deserialize_all value_deserialize (resize_values junk cnt []) buf off1 = Inr (reply_values m, off2)"
    using assms
    by (auto simp: function_reply_deserialize_def deserialize_counted_def function_reply_init_def Let_def
        rbind_eq_Inr_iff split: if_splits)
  from deserialize_all_str [OF this] show ?thesis
    by (auto simp: list_all2_conv_all_nth list_all_length plain_null_def resize_values_def value_default_def)
qed

lemma reply_init_content:
  "reply_content ((function_reply_init u)\<lparr>reply_uid := x, reply_values := vs\<rparr>) =
     (value_content x, Content_Bytes TString [], map value_content vs)"
  by (simp add: reply_content_def function_reply_init_def)

section \<open>Executing a request\<close>

text \<open>The reply for an outcome: the same unique id, values on success, the error text otherwise.\<close>

fun outcome_reply :: "content \<Rightarrow> string \<Rightarrow> string \<Rightarrow> 'w call_outcome \<Rightarrow> content \<times> content \<times> content list" where
  "outcome_reply uid cname fname Unknown_Class = (uid, Content_Bytes TString (class_error cname), [])"
| "outcome_reply uid cname fname Unknown_Function =
     (uid, Content_Bytes TString (function_error cname fname), [])"
| "outcome_reply uid cname fname (Called rval w) = (uid, Content_Bytes TString [], map value_content rval)"

fun outcome_world :: "'w \<Rightarrow> 'w call_outcome \<Rightarrow> 'w" where
  "outcome_world w (Called rval w') = w'"
| "outcome_world w _ = w"

lemma execute_request_outcome:
  assumes "classes_ok h s" and "heap_ok h"
    and oc: "oc = call_spec (dispatch_table h s) (m_preCallback s) (m_postCallback s) cid
      (value_str (call_class_name m)) (value_str (call_function_name m)) (call_arguments m) [] w"
  shows "\<exists>reply. execute_request h s cid u m w = Inr (reply, outcome_world w oc) \<and>
    reply_content reply = outcome_reply (value_content (call_uid m)) (value_str (call_class_name m))
      (value_str (call_function_name m)) oc \<and>
    (case oc of Called rval _ \<Rightarrow> reply_values reply = rval | _ \<Rightarrow> reply_values reply = [])"
  unfolding execute_request_def client_call_function_outcome [OF assms(1,2)] oc [symmetric]
  by (cases oc) (simp_all add: Let_def reply_content_def function_reply_init_def)

section \<open>The whole call\<close>

text \<open>
  The composition of the steps through the two frames: the call is packed by the client and unpacked by
  the server into a fresh message; the reply goes back the same way. \<open>junk\<close> and \<open>u\<close> are the contents of
  unions no constructor has written.
\<close>

definition remote_call ::
  "(nat \<Rightarrow> u64) \<Rightarrow> u64 \<Rightarrow> 'w heap \<Rightarrow> 'w server \<Rightarrow> u64 \<Rightarrow> function_call \<Rightarrow> 'w
   \<Rightarrow> (ipc_value \<times> ipc_value list \<times> 'w) result"
where
  "remote_call junk u h s cid m w =
     rbind (pack_frame function_call_size function_call_serialize m) (\<lambda>request.
     rbind (unpack_frame (function_call_deserialize junk) (function_call_init u u) request) (\<lambda>(m', _).
     rbind (execute_request h s cid u m' w) (\<lambda>(reply, w).
     rbind (pack_frame function_reply_size function_reply_serialize reply) (\<lambda>response.
     rbind (unpack_frame (function_reply_deserialize junk) (function_reply_init u) response) (\<lambda>(reply', _).
     Inr (reply_uid reply', delivered_values junk reply', w))))))"

text \<open>The values a caller must see for an outcome.\<close>

definition outcome_seen :: "string \<Rightarrow> string \<Rightarrow> 'w call_outcome \<Rightarrow> ipc_value list \<Rightarrow> bool" where
  "outcome_seen cname fname oc vs \<longleftrightarrow>
     (case oc of
        Unknown_Class \<Rightarrow> \<exists>v. vs = [v] \<and> value_type v = TNull \<and> value_str v = class_error cname
      | Unknown_Function \<Rightarrow> \<exists>v. vs = [v] \<and> value_type v = TNull \<and> value_str v = function_error cname fname
      | Called rval _ \<Rightarrow> map value_content vs = map value_content rval \<and> list_all plain_null vs)"

lemma error_texts_nonempty [simp]: "class_error cname \<noteq> []" "function_error cname fname \<noteq> []"
  by (simp_all add: class_error_def function_error_def)

lemma delivered_error:
  assumes "value_str (reply_error reply) = e" and "e \<noteq> []"
  shows "\<exists>v. delivered_values junk reply = [v] \<and> value_type v = TNull \<and> value_str v = e"
proof -
  have "length (resize_values junk 1 (reply_values reply)) = 1"
    by (simp add: resize_values_def Suc_leI)
  then obtain v where "resize_values junk 1 (reply_values reply) = [v]"
    by (metis One_nat_def length_0_conv length_Suc_conv)
  then show ?thesis using assms by (simp add: delivered_values_def)
qed

lemma delivered_results:
  "value_str (reply_error reply) = [] \<Longrightarrow> delivered_values junk reply = reply_values reply"
  by (simp add: delivered_values_def)

lemma delivered_outcome:
  assumes "reply_content reply' = outcome_reply uid cname fname oc"
    and "list_all plain_null (reply_values reply')"
  shows "outcome_seen cname fname oc (delivered_values junk reply')"
proof (cases oc)
  case Unknown_Class
  then have "value_str (reply_error reply') = class_error cname"
    using assms(1) by (simp add: reply_content_def content_string)
  then show ?thesis using Unknown_Class delivered_error [OF _ error_texts_nonempty(1)]
    by (simp add: outcome_seen_def)
next
  case Unknown_Function
  then have "value_str (reply_error reply') = function_error cname fname"
    using assms(1) by (simp add: reply_content_def content_string)
  then show ?thesis using Unknown_Function delivered_error [OF _ error_texts_nonempty(2)]
    by (simp add: outcome_seen_def)
next
  case (Called rval w)
  then show ?thesis
    using assms delivered_results [of reply' junk]
    by (simp add: outcome_seen_def reply_content_def content_string)
qed

lemma unpack_frame_init:
  assumes "unpack_frame (function_reply_deserialize junk) (function_reply_init u) bytes = Inr (m, rest)"
  shows "list_all plain_null (reply_values m)"
  using assms by (auto simp: unpack_frame_def rbind_eq_Inr_iff intro: function_reply_deserialize_plain)

text \<open>Both directions of the transport, each by its frame contract.\<close>

lemma request_arrives:
  assumes "call_ok m" and "function_call_size m < 2 ^ 32"
  obtains frame m' where "pack_frame function_call_size function_call_serialize m = Inr frame"
    "unpack_frame (function_call_deserialize junk) w frame = Inr (m', [])" "call_content m' = call_content m"
  using call.pack_frame_image [of m] call.unpack_frame_image [OF assms, of junk w "[]"] assms(2) that
  by auto

lemma response_arrives:
  assumes "reply_ok m" and "function_reply_size m < 2 ^ 32"
  obtains frame m' where "pack_frame function_reply_size function_reply_serialize m = Inr frame"
    "unpack_frame (function_reply_deserialize junk) w frame = Inr (m', [])" "reply_content m' = reply_content m"
  using reply.pack_frame_image [of m] reply.unpack_frame_image [OF assms, of junk w "[]"] assms(2) that
  by auto

section \<open>Properties\<close>

text \<open>C8. The remote call implements the table lookup across the wire. A storable call below 4 GiB
  whose replies are storable and below 4 GiB goes through serialisation, frame, decoding, dispatch and
  back without a fault; the reply carries the unique id of the call; for a registered function the
  callbacks and the handler run once on arguments of the same content, and the caller gets the handler's
  results, none of which can be mistaken for an error; for an unknown class or function nothing runs and
  the caller gets one \<open>Null\<close> value with the error text.\<close>

theorem remote_call_refines:
  assumes "classes_ok h s" and "heap_ok h"
    and m: "m = build_call timestamp u cname fname args"
    and "call_ok m" and "function_call_size m < 2 ^ 32"
    and fits: "\<forall>m' reply w'. call_content m' = call_content m \<longrightarrow>
      execute_request h s cid u m' w = Inr (reply, w') \<longrightarrow> reply_ok reply \<and> function_reply_size reply < 2 ^ 32"
  shows "\<exists>args' oc uid vs. map value_content args' = map value_content args \<and>
    oc = call_spec (dispatch_table h s) (m_preCallback s) (m_postCallback s) cid cname fname args' [] w \<and>
    remote_call junk u h s cid m w = Inr (uid, vs, outcome_world w oc) \<and>
    value_content uid = Content64 TUInt64 timestamp \<and> outcome_seen cname fname oc vs"
proof -
  obtain request m' where req: "pack_frame function_call_size function_call_serialize m = Inr request"
      "unpack_frame (function_call_deserialize junk) (function_call_init u u) request = Inr (m', [])"
      "call_content m' = call_content m"
    using request_arrives [OF assms(4,5)] by blast
  have m': "value_content (call_uid m') = Content64 TUInt64 timestamp"
      "value_str (call_class_name m') = cname" "value_str (call_function_name m') = fname"
      "map value_content (call_arguments m') = map value_content args"
    using req(3) by (simp_all add: m build_call_def call_content_def content_string)
  define oc where "oc = call_spec (dispatch_table h s) (m_preCallback s) (m_postCallback s) cid cname fname
    (call_arguments m') [] w"
  obtain reply where reply: "execute_request h s cid u m' w = Inr (reply, outcome_world w oc)"
      "reply_content reply = outcome_reply (Content64 TUInt64 timestamp) cname fname oc"
    using execute_request_outcome [OF assms(1,2), of oc cid m' w u] by (auto simp: m' oc_def)
  obtain response reply' where res:
      "pack_frame function_reply_size function_reply_serialize reply = Inr response"
      "unpack_frame (function_reply_deserialize junk) (function_reply_init u) response = Inr (reply', [])"
      "reply_content reply' = reply_content reply"
    using response_arrives fits [rule_format, OF req(3) reply(1)] by blast
  have "value_content (reply_uid reply') = Content64 TUInt64 timestamp"
    using res(3) reply(2) by (cases oc) (simp_all add: reply_content_def)
  moreover have "outcome_seen cname fname oc (delivered_values junk reply')"
    using delivered_outcome res(3) reply(2) unpack_frame_init [OF res(2)] by metis
  ultimately show ?thesis
    using req(1,2) reply(1) res(1,2) m'(4) oc_def by (auto simp: remote_call_def)
qed

text \<open>A class with one function that appends a value to the results and counts its calls in the world.\<close>

definition counting_collection :: "nat collection" where
  "counting_collection = snd (register_function
     (function_make ''f'' [] (Some (\<lambda>d cid args rval w. (rval @ [value_of_uint64 7], w + 1))) 0)
     (collection_make ''C''))"

definition counting_server :: "nat server" where
  "counting_server = server_make \<lparr>m_classes := [(''C'', 0)]\<rparr>"

lemma counting_ok: "classes_ok [0 \<mapsto> counting_collection] counting_server" "heap_ok [0 \<mapsto> counting_collection]"
  by (auto simp: classes_ok_def heap_ok_def map_ok_def map_find_def counting_collection_def
      counting_server_def collection_ok_register collection_get_name_def collection_make_def
      intro!: collection_ok_register collection_ok_make [unfolded collection_make_def] split: if_splits)

lemma counting_spec:
  "call_spec (dispatch_table [0 \<mapsto> counting_collection] counting_server) (m_preCallback counting_server)
     (m_postCallback counting_server) cid ''C'' ''f'' args rval w = Called (rval @ [value_of_uint64 7]) (w + 1)"
  by (simp add: call_spec_def dispatch_table_def counting_collection_def counting_server_def map_find_def
      register_function_def collection_make_def function_make_def function_get_name_def function_invoke_def
      run_call_callback_def c_str_def map_count_def Let_def)

lemma counting_reply_small:
  assumes "call_content m' = call_content (build_call 1 0 ''C'' ''f'' [])"
    and "execute_request [0 \<mapsto> counting_collection] counting_server 0 0 m' w = Inr (reply, w')"
  shows "reply_ok reply \<and> function_reply_size reply < 100"
proof -
  have n: "value_str (call_class_name m') = ''C''" "value_str (call_function_name m') = ''f''"
      "value_content (call_uid m') = Content64 TUInt64 1"
    using assms(1) by (simp_all add: build_call_def call_content_def content_string)
  from execute_request_outcome [OF counting_ok refl, where m = m' and w = w and u = 0 and cid = 0] assms(2)
  have "reply_content reply = (Content64 TUInt64 1, Content_Bytes TString [], [Content64 TUInt64 7])"
      "reply_values reply = [value_of_uint64 7]"
    by (auto simp: n counting_spec)
  then show ?thesis
    by (auto simp: reply_content_def content_string content_uint64 reply_ok_def value_ok_def values_ok_def
        function_reply_size_def value_size_def value_of_uint64_def)
qed

lemma counting_fits:
  "call_content m' = call_content (build_call 1 0 ''C'' ''f'' []) \<Longrightarrow>
   execute_request [0 \<mapsto> counting_collection] counting_server 0 0 m' w = Inr (reply, w') \<Longrightarrow>
   reply_ok reply \<and> function_reply_size reply < 2 ^ 32"
  using counting_reply_small by fastforce

theorem remote_call_refines_witness:
  "\<exists>uid vs. remote_call (\<lambda>_. 0) 0 [0 \<mapsto> counting_collection] counting_server 0 (build_call 1 0 ''C'' ''f'' []) 5 =
       Inr (uid, vs, 6) \<and> map value_content vs = [Content64 TUInt64 7]"
proof -
  have 1: "call_ok (build_call 1 0 ''C'' ''f'' [])"
      "function_call_size (build_call 1 0 ''C'' ''f'' []) < 2 ^ 32"
    by (simp_all add: build_call_def call_ok_def value_ok_def values_ok_def value_of_uint64_def
        value_of_string_def function_call_size_def value_size_def)
  have "\<forall>m' reply w'. call_content m' = call_content (build_call 1 0 ''C'' ''f'' []) \<longrightarrow>
      execute_request [0 \<mapsto> counting_collection] counting_server 0 0 m' 5 = Inr (reply, w') \<longrightarrow>
      reply_ok reply \<and> function_reply_size reply < 2 ^ 32"
    using counting_fits by blast
  from remote_call_refines [OF counting_ok refl 1 this, of "\<lambda>_. 0"]
  show ?thesis by (auto simp: counting_spec outcome_seen_def)
qed

end
