(* ===== verification/Ipc_Typing.thy ===== *)
theory Ipc_Typing
  imports Ipc_Rpc
begin

text \<open>
  Well-typed values through a call. A value is well-typed when its type is one of the enumeration and its
  string or blob has a length that the 32-bit length field can hold (\<open>value_ok\<close>). The decoders make no other
  values, whatever the bytes are; handlers that keep to them in their results get well-typed replies sent.
\<close>

section \<open>What the decoders make\<close>

lemma deserialize_all_ok:
  "length buf < 2 ^ 64 \<Longrightarrow> deserialize_all value_deserialize ws buf off = Inr (vs, off') \<Longrightarrow>
   list_all value_ok vs \<and> length vs = length ws"
proof (induction ws arbitrary: off vs)
  case (Cons w ws)
  then show ?case using value_deserialize_sound [of buf w off] by (fastforce simp: rbind_eq_Inr_iff)
qed simp

lemma deserialize_counted_ok:
  assumes "length buf < 2 ^ 64" and "deserialize_counted junk vs0 buf off = Inr (vs, off')"
  shows "values_ok vs"
proof -
  obtain cnt :: u32 and off1 where
    "deserialize_all value_deserialize (resize_values junk (unat cnt) vs0) buf off1 = Inr (vs, off')"
    using assms(2) by (auto simp: deserialize_counted_def rbind_eq_Inr_iff Let_def)
  from deserialize_all_ok [OF assms(1) this] show ?thesis
    using unsigned_less [of cnt] by (simp add: values_ok_def)
qed

lemma function_call_deserialize_ok:
  assumes "length buf < 2 ^ 64" and "function_call_deserialize junk m0 buf off = Inr (m, n)"
  shows "call_ok m"
  using assms(2) value_deserialize_sound [OF assms(1)] deserialize_counted_ok [OF assms(1)]
  by (auto simp: function_call_deserialize_def call_ok_def rbind_eq_Inr_iff Let_def split: if_splits)

lemma function_reply_deserialize_ok:
  assumes "length buf < 2 ^ 64" and "function_reply_deserialize junk m0 buf off = Inr (m, n)"
  shows "reply_ok m"
  using assms(2) value_deserialize_sound [OF assms(1)] deserialize_counted_ok [OF assms(1)]
  by (auto simp: function_reply_deserialize_def reply_ok_def rbind_eq_Inr_iff Let_def split: if_splits)

lemma reply_unpacked_ok:
  assumes "unpack_frame (function_reply_deserialize junk) m0 frame = Inr (m, rest)"
  shows "reply_ok m"
proof -
  obtain hdr n body k where body: "read_size hdr = Inr n" "peek frame 8 n = Inr body"
    and m: "function_reply_deserialize junk m0 body 0 = Inr (m, k)"
    using assms by (auto simp: unpack_frame_def rbind_eq_Inr_iff)
  have "n < 2 ^ 32" using body(1) unsigned_less [where 'b = 32] by (auto simp: read_size_def rbind_eq_Inr_iff)
  then have "length body < 2 ^ 64" using body(2) by (auto simp: peek_def split: if_splits)
  then show ?thesis using m by (rule function_reply_deserialize_ok)
qed

section \<open>Typed handlers\<close>

text \<open>A function of a class keeps to well-typed values; the world it finds and leaves is arbitrary.\<close>

definition function_typed :: "'w ipc_function \<Rightarrow> bool" where
  "function_typed f \<longleftrightarrow> (\<forall>cid args w. values_ok args \<longrightarrow> values_ok (fst (function_invoke f cid args [] w)))"

definition table_typed :: "'w heap \<Rightarrow> 'w server \<Rightarrow> bool" where
  "table_typed h s \<longleftrightarrow>
     (\<forall>cname fs fname f. dispatch_table h s cname = Some fs \<longrightarrow> fs fname = Some f \<longrightarrow> function_typed f)"

lemma call_spec_typed:
  assumes "table_typed h s" and "values_ok args"
    and "call_spec (dispatch_table h s) pre post cid cname fname args [] w = Called rval w'"
  shows "values_ok rval"
proof -
  obtain fs f where "dispatch_table h s cname = Some fs" "fs fname = Some f"
    and rval: "rval = fst (function_invoke f cid args [] (run_call_callback pre cname fname args w))"
    using assms(3) by (auto simp: call_spec_def split: option.splits prod.splits)
  then show ?thesis using assms(1,2) by (auto simp: table_typed_def function_typed_def)
qed

lemma error_text_lengths:
  "length (class_error cname) \<le> length cname + 64"
  "length (function_error cname fname) \<le> length cname + length fname + 64"
  by (simp_all add: class_error_def function_error_def)

lemma string_value_ok: "length s < 2 ^ 32 \<Longrightarrow> value_ok (value_of_string u s)"
  by (simp add: value_ok_def value_of_string_def)

lemma execute_request_typed:
  assumes "classes_ok h s" and "heap_ok h" and "table_typed h s" and "call_ok m"
    and "length (value_str (call_class_name m)) + length (value_str (call_function_name m)) + 64 < 2 ^ 32"
  shows "\<exists>reply w'. execute_request h s cid u m w = Inr (reply, w') \<and> reply_ok reply \<and> reply_uid reply = call_uid m"
proof -
  have uid: "value_ok (call_uid m)" and args: "values_ok (call_arguments m)" using assms(4) by (simp_all add: call_ok_def)
  have none: "values_ok []" by (simp add: values_ok_def)
  have error: "value_ok (value_of_string u (class_error (value_str (call_class_name m))))"
    "value_ok (value_of_string u (function_error (value_str (call_class_name m)) (value_str (call_function_name m))))"
    using error_text_lengths(1) [of "value_str (call_class_name m)"]
      error_text_lengths(2) [of "value_str (call_class_name m)" "value_str (call_function_name m)"] assms(5)
    by (intro string_value_ok; linarith)+
  show ?thesis
  proof (cases "call_spec (dispatch_table h s) (m_preCallback s) (m_postCallback s) cid (value_str (call_class_name m))
      (value_str (call_function_name m)) (call_arguments m) [] w")
    case (Called rval w')
    then have "values_ok rval" using call_spec_typed [OF assms(3) args] by blast
    then show ?thesis using uid Called
      by (simp add: execute_request_def client_call_function_outcome [OF assms(1,2)] reply_ok_def function_reply_init_def
          string_value_ok)
  qed (use uid none error in \<open>simp_all add: execute_request_def client_call_function_outcome [OF assms(1,2)] reply_ok_def
      function_reply_init_def\<close>)
qed

lemma delivered_values_typed:
  assumes "reply_ok reply"
  shows "list_all value_ok (delivered_values junk reply)"
proof -
  have "value_ok (v\<lparr>value_type := TNull, value_str := e\<rparr>)" for v e by (simp add: value_ok_def)
  then show ?thesis using assms by (simp add: delivered_values_def reply_ok_def values_ok_def list_all_iff)
qed

section \<open>Properties\<close>

text \<open>C9. Types are kept from end to end: when every function of the server's table gives well-typed results
  for well-typed arguments, then whatever bytes a request is decoded from, its values are well-typed; the
  request is executed without a fault; and its reply is well-typed, carries the request's unique id, and,
  below 4 GiB, is packed, unpacked with the same content and handed to the client's callback as well-typed
  values.\<close>

theorem call_typed:
  assumes "classes_ok h s" and "heap_ok h" and "table_typed h s" and "length buf < 2 ^ 64"
    and "function_call_deserialize junk m0 buf off = Inr (m, n)"
    and "length (value_str (call_class_name m)) + length (value_str (call_function_name m)) + 64 < 2 ^ 32"
  shows "call_ok m \<and> (\<exists>reply w'. execute_request h s cid u m w = Inr (reply, w') \<and> reply_ok reply \<and>
    reply_uid reply = call_uid m \<and>
    (function_reply_size reply < 2 ^ 32 \<longrightarrow>
      (\<exists>frame reply'. pack_frame function_reply_size function_reply_serialize reply = Inr frame \<and>
        unpack_frame (function_reply_deserialize junk') (function_reply_init u') frame = Inr (reply', []) \<and>
        reply_content reply' = reply_content reply \<and> reply_ok reply' \<and>
        list_all value_ok (delivered_values junk' reply'))))"
proof -
  have m: "call_ok m" by (rule function_call_deserialize_ok [OF assms(4,5)])
  obtain reply w' where r: "execute_request h s cid u m w = Inr (reply, w')" "reply_ok reply" "reply_uid reply = call_uid m"
    using execute_request_typed [OF assms(1-3) m assms(6)] by blast
  have "\<exists>frame reply'. pack_frame function_reply_size function_reply_serialize reply = Inr frame \<and>
        unpack_frame (function_reply_deserialize junk') (function_reply_init u') frame = Inr (reply', []) \<and>
        reply_content reply' = reply_content reply \<and> reply_ok reply' \<and> list_all value_ok (delivered_values junk' reply')"
    if size: "function_reply_size reply < 2 ^ 32"
  proof -
    obtain frame reply' where f: "pack_frame function_reply_size function_reply_serialize reply = Inr frame"
      "unpack_frame (function_reply_deserialize junk') (function_reply_init u') frame = Inr (reply', [])"
      "reply_content reply' = reply_content reply"
      using response_arrives [OF r(2) size] by blast
    have "reply_ok reply'" using f reply_unpacked_ok by blast
    then show ?thesis using f delivered_values_typed by blast
  qed
  with m r show ?thesis by blast
qed

lemma counting_typed: "table_typed [0 \<mapsto> counting_collection] counting_server"
  by (auto simp: table_typed_def dispatch_table_def counting_collection_def counting_server_def map_find_def
      register_function_def collection_make_def function_make_def function_get_name_def map_count_def Let_def
      function_typed_def function_invoke_def values_ok_def value_ok_def value_of_uint64_def split: option.splits if_splits)

text \<open>A request for an unknown class.\<close>

theorem call_typed_witness:
  "\<exists>m reply frame reply'. execute_request [0 \<mapsto> counting_collection] counting_server 0 0 m 5 = Inr (reply, 5) \<and>
     pack_frame function_reply_size function_reply_serialize reply = Inr frame \<and>
     unpack_frame (function_reply_deserialize (\<lambda>_. 0)) (function_reply_init 0) frame = Inr (reply', []) \<and>
     list_all value_ok (delivered_values (\<lambda>_. 0) reply')"
proof -
  let ?c = "build_call 1 0 ''D'' ''f'' []"
  have c: "call_ok ?c" "length (call_wire ?c) < 2 ^ 64"
    by (simp_all add: build_call_def call_ok_def value_ok_def values_ok_def value_of_uint64_def value_of_string_def
        length_call_wire function_call_size_def value_size_def)
  obtain m where m: "function_call_deserialize (\<lambda>_. 0) (function_call_init 0 0) (call_wire ?c) 0 =
      Inr (m, function_call_size ?c)" "call_content m = call_content ?c"
    using call.de_mid [OF c(1), of 0 "[]" "[]" "\<lambda>_. 0" "function_call_init 0 0"] c(2) by auto
  have names: "value_str (call_class_name m) = ''D''" "value_str (call_function_name m) = ''f''"
    "value_content (call_uid m) = Content64 TUInt64 1"
    using m(2) by (simp_all add: build_call_def call_content_def content_string)
  then have small: "length (value_str (call_class_name m)) + length (value_str (call_function_name m)) + 64 < 2 ^ 32"
    by simp
  from call_typed [OF counting_ok counting_typed c(2) m(1) small, of 0 0 5 "\<lambda>_. 0" 0]
  obtain reply w' where r: "execute_request [0 \<mapsto> counting_collection] counting_server 0 0 m 5 = Inr (reply, w')"
    "function_reply_size reply < 2 ^ 32 \<longrightarrow>
      (\<exists>frame reply'. pack_frame function_reply_size function_reply_serialize reply = Inr frame \<and>
        unpack_frame (function_reply_deserialize (\<lambda>_. 0)) (function_reply_init 0) frame = Inr (reply', []) \<and>
        list_all value_ok (delivered_values (\<lambda>_. 0) reply'))"
    by blast
  moreover have "w' = 5 \<and> function_reply_size reply < 2 ^ 32"
    using r(1) names by (auto simp: execute_request_def client_call_function_def counting_server_def map_find_def
        function_reply_size_def function_reply_init_def value_size_def content_uint64 value_of_string_def)
  ultimately show ?thesis by blast
qed

end
