(* ===== verification/Async_Op.thy ===== *)
theory Async_Op
  imports Ipc_Prelude
begin

text \<open>
  Asynchronous operations: the error codes (\<open>error.hpp\<close>), the translation of Windows error codes
  (\<open>utility.cpp\<close>), the abstract operation (\<open>async_op.hpp\<close>, \<open>async_op.cpp\<close>) and the two requests that
  implement it (\<open>async_request.cpp\<close> for Windows and for macOS).

  An operation carries a user callback and a system callback, each with a flag that says whether it has
  been called. Callbacks are code that may use the same operation again while \<open>call_callback\<close> is still
  between its two branches; what a callback does is the argument \<open>run\<close> of \<open>call_callback\<close>. The machine at
  the end of the theory closes the loop: callbacks are programs over the methods of the operation, nested
  to any depth.
\<close>

section \<open>Error codes\<close>

datatype os_error =
  E_Unknown | E_Success | E_Error | E_InvalidBuffer | E_BufferTooSmall | E_BufferTooLarge
  | E_MoreData | E_TimedOut | E_Disconnected | E_TooMuchData | E_Connected | E_Pending
  | E_BufferOverflow

fun os_error_number :: "os_error \<Rightarrow> int" where
  "os_error_number E_Unknown = -1"
| "os_error_number E_Success = 0"
| "os_error_number E_Error = 1"
| "os_error_number E_InvalidBuffer = 2"
| "os_error_number E_BufferTooSmall = 3"
| "os_error_number E_BufferTooLarge = 4"
| "os_error_number E_MoreData = 5"
| "os_error_number E_TimedOut = 6"
| "os_error_number E_Disconnected = 7"
| "os_error_number E_TooMuchData = 8"
| "os_error_number E_Connected = 9"
| "os_error_number E_Pending = 10"
| "os_error_number E_BufferOverflow = 11"

lemma os_error_number_inj: "os_error_number a = os_error_number b \<Longrightarrow> a = b"
  by (cases a; cases b) simp_all

text \<open>
  The Windows codes, by their documented numbers: \<open>ERROR_SUCCESS\<close> 0, \<open>ERROR_BROKEN_PIPE\<close> 109,
  \<open>ERROR_NO_DATA\<close> 232, \<open>ERROR_MORE_DATA\<close> 234, \<open>ERROR_TOO_MANY_POSTS\<close> 298, \<open>ERROR_PIPE_CONNECTED\<close> 535,
  \<open>ERROR_IO_PENDING\<close> 997, \<open>ERROR_TIMEOUT\<close> 1460.
\<close>

definition translate_code :: "u32 \<Rightarrow> os_error" where
  "translate_code c =
     (if c = 0 then E_Success else if c = 997 then E_Pending else if c = 109 then E_Disconnected
      else if c = 234 then E_MoreData else if c = 535 then E_Connected else if c = 1460 then E_TimedOut
      else if c = 298 then E_TooMuchData else if c = 232 then E_Disconnected else E_Error)"

text \<open>The function keeps the last code in a static variable and logs when the code changes.\<close>

definition translate_error :: "u32 \<Rightarrow> u32 \<Rightarrow> os_error \<times> u32 \<times> bool" where
  "translate_error prev_error_code error_code =
     (if prev_error_code \<noteq> error_code then (translate_code error_code, error_code, True)
      else (translate_code error_code, prev_error_code, False))"

section \<open>The operation\<close>

record 'c async_op =
  op_valid :: bool
  op_callback :: "'c option"
  op_callback_called :: bool
  sys_callback :: "'c option"
  sys_callback_called :: bool

text \<open>
  Code with effects on a world \<open>'w\<close> that may raise: what happened before the exception stays.
\<close>

type_synonym ('w, 'a) effect = "'w \<Rightarrow> 'w \<times> 'a result"

definition ereturn :: "'a \<Rightarrow> ('w, 'a) effect" where
  "ereturn a w = (w, Inr a)"

definition ebind :: "('w, 'a) effect \<Rightarrow> ('a \<Rightarrow> ('w, 'b) effect) \<Rightarrow> ('w, 'b) effect" where
  "ebind m k w = (case m w of (w', Inl e) \<Rightarrow> (w', Inl e) | (w', Inr a) \<Rightarrow> k a w')"

type_synonym ('c, 'op, 'w) runner = "'c \<Rightarrow> os_error \<Rightarrow> nat \<Rightarrow> 'op \<Rightarrow> ('w, 'op) effect"

text \<open>\<open>set_callback\<close> and \<open>set_system_callback\<close> call the virtual \<open>is_valid\<close> and \<open>is_complete\<close>.\<close>

definition change_error :: string where
  "change_error = ''Can'' @ [CHR 0x27] @ ''t change callback for a valid but incomplete operation.''"

definition set_callback ::
  "(('c, 'z) async_op_scheme \<Rightarrow> bool) \<Rightarrow> (('c, 'z) async_op_scheme \<Rightarrow> bool) \<Rightarrow> 'c option
   \<Rightarrow> ('c, 'z) async_op_scheme \<Rightarrow> ('c, 'z) async_op_scheme result"
where
  "set_callback is_valid is_complete u_callback op =
     (if is_valid op \<and> \<not> is_complete op then Inl (Exception change_error)
      else Inr (op\<lparr>op_callback := u_callback\<rparr>))"

definition set_system_callback ::
  "(('c, 'z) async_op_scheme \<Rightarrow> bool) \<Rightarrow> (('c, 'z) async_op_scheme \<Rightarrow> bool) \<Rightarrow> 'c option
   \<Rightarrow> ('c, 'z) async_op_scheme \<Rightarrow> ('c, 'z) async_op_scheme result"
where
  "set_system_callback is_valid is_complete u_callback op =
     (if is_valid op \<and> \<not> is_complete op then Inl (Exception change_error)
      else Inr (op\<lparr>sys_callback := u_callback\<rparr>))"

section \<open>The requests of the two platforms\<close>

text \<open>Windows: a handle and an \<open>OVERLAPPED\<close>, whose status the kernel leaves at pending until the I/O ends.\<close>

record 'c win_request = "'c async_op" +
  req_handle :: u64
  io_pending :: bool

definition win_request_make :: "'c option \<Rightarrow> 'c win_request" where
  "win_request_make u_callback =
     \<lparr>op_valid = False, op_callback = u_callback, op_callback_called = False, sys_callback = None,
      sys_callback_called = False, req_handle = 0, io_pending = False\<rparr>"

definition win_set_handle :: "u64 \<Rightarrow> 'c win_request \<Rightarrow> 'c win_request" where
  "win_set_handle handle op = op\<lparr>req_handle := handle, op_valid := False, op_callback_called := False\<rparr>"

definition win_set_valid :: "bool \<Rightarrow> 'c win_request \<Rightarrow> 'c win_request" where
  "win_set_valid v op = op\<lparr>op_valid := v, op_callback_called := False\<rparr>"

definition win_is_valid :: "'c win_request \<Rightarrow> bool" where
  "win_is_valid op = op_valid op"

definition win_invalidate :: "'c win_request \<Rightarrow> 'c win_request" where
  "win_invalidate op = op\<lparr>op_valid := False, op_callback_called := True\<rparr>"

definition win_is_complete :: "'c win_request \<Rightarrow> bool" where
  "win_is_complete op = (if \<not> win_is_valid op then False else \<not> io_pending op)"

text \<open>\<open>cancel_io\<close> is the answer of \<open>CancelIoEx\<close>.\<close>

definition win_cancel :: "bool \<Rightarrow> 'c win_request \<Rightarrow> bool" where
  "win_cancel cancel_io op =
     (if \<not> win_is_valid op then False else if \<not> win_is_complete op then cancel_io else True)"

text \<open>The destructor cancels what is still valid.\<close>

definition win_request_destroy :: "bool \<Rightarrow> 'c win_request \<Rightarrow> bool option" where
  "win_request_destroy cancel_io op = (if win_is_valid op then Some (win_cancel cancel_io op) else None)"

definition win_call_callback ::
  "('c, 'c win_request, 'w) runner \<Rightarrow> os_error \<Rightarrow> nat \<Rightarrow> 'c win_request \<Rightarrow> ('w, 'c win_request) effect"
where
  "win_call_callback run ec len op =
     ebind (case sys_callback op of
              Some runned_callback \<Rightarrow>
                if \<not> sys_callback_called op then run runned_callback ec len (op\<lparr>sys_callback_called := True\<rparr>)
                else ereturn op
            | None \<Rightarrow> ereturn op)
     (\<lambda>op. case op_callback op of
              Some runned_callback \<Rightarrow>
                if \<not> op_callback_called op then run runned_callback ec len (op\<lparr>op_callback_called := True\<rparr>)
                else ereturn op
            | None \<Rightarrow> ereturn op)"

text \<open>
  \<open>call_callback()\<close>: \<open>bytes\<close> and \<open>last_error\<close> are what \<open>GetOverlappedResultEx\<close> reports in its out parameter and
  in the thread's last error, which is cleared before.
\<close>

definition win_call_callback_result ::
  "('c, 'c win_request, 'w) runner \<Rightarrow> u32 \<Rightarrow> u32 \<Rightarrow> u32 \<Rightarrow> 'c win_request \<Rightarrow> ('w, 'c win_request) effect"
where
  "win_call_callback_result run prev_error_code last_error bytes op =
     win_call_callback run (fst (translate_error prev_error_code last_error)) (unat bytes) op"

text \<open>macOS: a semaphore pointer; a valid request always counts as complete.\<close>

record 'c osx_request = "'c async_op" +
  req_sem :: u64

definition osx_request_make :: "'c option \<Rightarrow> 'c osx_request" where
  "osx_request_make u_callback =
     \<lparr>op_valid = False, op_callback = u_callback, op_callback_called = False, sys_callback = None,
      sys_callback_called = False, req_sem = 0\<rparr>"

definition osx_set_sem :: "u64 \<Rightarrow> 'c osx_request \<Rightarrow> 'c osx_request" where
  "osx_set_sem sem op = op\<lparr>req_sem := sem, op_valid := False, op_callback_called := False\<rparr>"

definition osx_set_valid :: "bool \<Rightarrow> 'c osx_request \<Rightarrow> 'c osx_request" where
  "osx_set_valid v op = op\<lparr>op_valid := v, op_callback_called := False\<rparr>"

definition osx_is_valid :: "'c osx_request \<Rightarrow> bool" where
  "osx_is_valid op = op_valid op"

definition osx_invalidate :: "'c osx_request \<Rightarrow> 'c osx_request" where
  "osx_invalidate op = op\<lparr>op_valid := False, op_callback_called := True\<rparr>"

definition osx_is_complete :: "'c osx_request \<Rightarrow> bool" where
  "osx_is_complete op = (if \<not> osx_is_valid op then False else True)"

definition osx_cancel :: "'c osx_request \<Rightarrow> bool" where
  "osx_cancel op = (if \<not> osx_is_valid op then False else True)"

definition osx_get_waitable :: "'c osx_request \<Rightarrow> u64" where
  "osx_get_waitable op = 0"

definition osx_request_destroy :: "'c osx_request \<Rightarrow> bool option" where
  "osx_request_destroy op = (if osx_is_valid op then Some (osx_cancel op) else None)"

definition osx_call_callback ::
  "('c, 'c osx_request, 'w) runner \<Rightarrow> os_error \<Rightarrow> nat \<Rightarrow> 'c osx_request \<Rightarrow> ('w, 'c osx_request) effect"
where
  "osx_call_callback run ec len op =
     ebind (case sys_callback op of
              Some runned_callback \<Rightarrow>
                if \<not> sys_callback_called op then run runned_callback ec len (op\<lparr>sys_callback_called := True\<rparr>)
                else ereturn op
            | None \<Rightarrow> ereturn op)
     (\<lambda>op. case op_callback op of
              Some runned_callback \<Rightarrow>
                if \<not> op_callback_called op then run runned_callback ec len (op\<lparr>op_callback_called := True\<rparr>)
                else ereturn op
            | None \<Rightarrow> ereturn op)"

text \<open>\<open>call_callback()\<close> has an empty body on macOS.\<close>

definition osx_call_callback_result :: "'c osx_request \<Rightarrow> ('w, 'c osx_request) effect" where
  "osx_call_callback_result op = ereturn op"

section \<open>The contract of a request\<close>

text \<open>
  What code that drives a request relies on, with the flags as the observable state. Both branches of
  \<open>call_callback\<close> are given by the same scheme: take the callback, mark it called, run it.
\<close>

definition fire_system ::
  "('c, ('c, 'z) async_op_scheme, 'w) runner \<Rightarrow> os_error \<Rightarrow> nat \<Rightarrow> ('c, 'z) async_op_scheme
   \<Rightarrow> ('w, ('c, 'z) async_op_scheme) effect"
where
  "fire_system run ec len op =
     (case sys_callback op of
        Some c \<Rightarrow> if \<not> sys_callback_called op then run c ec len (op\<lparr>sys_callback_called := True\<rparr>) else ereturn op
      | None \<Rightarrow> ereturn op)"

definition fire_user ::
  "('c, ('c, 'z) async_op_scheme, 'w) runner \<Rightarrow> os_error \<Rightarrow> nat \<Rightarrow> ('c, 'z) async_op_scheme
   \<Rightarrow> ('w, ('c, 'z) async_op_scheme) effect"
where
  "fire_user run ec len op =
     (case op_callback op of
        Some c \<Rightarrow> if \<not> op_callback_called op then run c ec len (op\<lparr>op_callback_called := True\<rparr>) else ereturn op
      | None \<Rightarrow> ereturn op)"

definition op_slots :: "('c, 'z) async_op_scheme \<Rightarrow> 'c option \<times> 'c option" where
  "op_slots op = (op_callback op, sys_callback op)"

definition op_flags :: "('c, 'z) async_op_scheme \<Rightarrow> bool \<times> bool" where
  "op_flags op = (op_callback_called op, sys_callback_called op)"

text \<open>
  The machine: a program is a list of uses of one request, callbacks are programs. \<open>Io\<close> is the kernel
  changing the status of the I/O behind it. The trace records what the user of the request sees.
\<close>

datatype callback_id = User_Cb nat | System_Cb nat

datatype op_cmd =
  Set_Handle u64 | Set_Valid bool | Invalidate | Set_Callback "nat option" | Set_System_Callback "nat option"
  | Call_Callback os_error nat | Io bool

datatype op_event = Armed | Invalidated | Ran callback_id

record 'op request_ops =
  do_set_handle :: "u64 \<Rightarrow> 'op \<Rightarrow> 'op"
  do_set_valid :: "bool \<Rightarrow> 'op \<Rightarrow> 'op"
  do_invalidate :: "'op \<Rightarrow> 'op"
  do_set_callback :: "callback_id option \<Rightarrow> 'op \<Rightarrow> 'op result"
  do_set_system_callback :: "callback_id option \<Rightarrow> 'op \<Rightarrow> 'op result"
  do_call_callback :: "(callback_id, 'op, op_event list) runner \<Rightarrow> os_error \<Rightarrow> nat \<Rightarrow> 'op
                         \<Rightarrow> (op_event list, 'op) effect"
  do_io :: "bool \<Rightarrow> 'op \<Rightarrow> 'op"

text \<open>\<open>depth\<close> bounds the nesting of callbacks; a callback nested deeper is cut off.\<close>

fun exec ::
  "'op request_ops \<Rightarrow> (callback_id \<Rightarrow> op_cmd list) \<Rightarrow> nat \<Rightarrow> op_cmd list \<Rightarrow> 'op \<Rightarrow> (op_event list, 'op) effect"
where
  "exec V body depth [] op tr = (tr, Inr op)"
| "exec V body depth (Set_Handle h # cs) op tr = exec V body depth cs (do_set_handle V h op) (tr @ [Armed])"
| "exec V body depth (Set_Valid v # cs) op tr = exec V body depth cs (do_set_valid V v op) (tr @ [Armed])"
| "exec V body depth (Invalidate # cs) op tr = exec V body depth cs (do_invalidate V op) (tr @ [Invalidated])"
| "exec V body depth (Set_Callback c # cs) op tr =
     (case do_set_callback V (map_option User_Cb c) op of
        Inl e \<Rightarrow> (tr, Inl e) | Inr op \<Rightarrow> exec V body depth cs op tr)"
| "exec V body depth (Set_System_Callback c # cs) op tr =
     (case do_set_system_callback V (map_option System_Cb c) op of
        Inl e \<Rightarrow> (tr, Inl e) | Inr op \<Rightarrow> exec V body depth cs op tr)"
| "exec V body depth (Io b # cs) op tr = exec V body depth cs (do_io V b op) tr"
| "exec V body 0 (Call_Callback ec len # cs) op tr = (tr, Inr op)"
| "exec V body (Suc depth) (Call_Callback ec len # cs) op tr =
     (case do_call_callback V (\<lambda>c ec len op tr. exec V body depth (body c) op (tr @ [Ran c])) ec len op tr of
        (tr, Inl e) \<Rightarrow> (tr, Inl e) | (tr, Inr op) \<Rightarrow> exec V body (Suc depth) cs op tr)"

text \<open>
  The abstract specification of the callback discipline, as a monitor over the trace: the state says
  whether the user callback and whether the system callback has been called since it was last allowed.
  Only arming the request allows the user callback again; nothing allows the system callback again.
\<close>

fun monitor1 :: "bool \<times> bool \<Rightarrow> op_event \<Rightarrow> (bool \<times> bool) option" where
  "monitor1 (u, s) Armed = Some (False, s)"
| "monitor1 (u, s) Invalidated = Some (True, s)"
| "monitor1 (u, s) (Ran (User_Cb n)) = (if u then None else Some (True, s))"
| "monitor1 (u, s) (Ran (System_Cb n)) = (if s then None else Some (u, True))"

fun monitor :: "bool \<times> bool \<Rightarrow> op_event list \<Rightarrow> (bool \<times> bool) option" where
  "monitor m [] = Some m"
| "monitor m (e # es) = (case monitor1 m e of None \<Rightarrow> None | Some m \<Rightarrow> monitor m es)"

lemma monitor_append:
  "monitor m (xs @ ys) = (case monitor m xs of None \<Rightarrow> None | Some m \<Rightarrow> monitor m ys)"
  by (induction m xs rule: monitor.induct) (auto split: option.splits)

text \<open>The slots hold callbacks of their own kind, as the setters put them there.\<close>

definition slots_ok :: "(callback_id, 'z) async_op_scheme \<Rightarrow> bool" where
  "slots_ok op \<longleftrightarrow> (\<forall>c. op_callback op = Some c \<longrightarrow> (\<exists>n. c = User_Cb n)) \<and>
     (\<forall>c. sys_callback op = Some c \<longrightarrow> (\<exists>n. c = System_Cb n))"

text \<open>A run keeps to the monitor: what it adds to the trace is accepted, and leads to its final flags.\<close>

definition keeps ::
  "(callback_id, 'z) async_op_scheme \<Rightarrow> op_event list \<Rightarrow> op_event list \<times> (callback_id, 'z) async_op_scheme result \<Rightarrow> bool"
where
  "keeps op tr out \<longleftrightarrow> (\<exists>seg m. fst out = tr @ seg \<and> monitor (op_flags op) seg = Some m \<and>
     (\<forall>op'. snd out = Inr op' \<longrightarrow> m = op_flags op' \<and> slots_ok op'))"

lemma keeps_refl: "slots_ok op \<Longrightarrow> keeps op tr (tr, Inr op)"
  by (cases "op_flags op") (simp add: keeps_def)

lemma keeps_raise: "keeps op tr (tr, Inl e)"
  by (simp add: keeps_def)

lemma monitor1_flags:
  "monitor1 m Armed = Some (False, snd m)" "monitor1 m Invalidated = Some (True, snd m)"
  by (cases m, simp)+

lemma keeps_event:
  assumes "monitor1 (op_flags op) e = Some (op_flags op')" and "keeps op' (tr @ [e]) out"
  shows "keeps op tr out"
proof -
  obtain seg m where s: "fst out = (tr @ [e]) @ seg" "monitor (op_flags op') seg = Some m"
      "\<forall>op''. snd out = Inr op'' \<longrightarrow> m = op_flags op'' \<and> slots_ok op''"
    using assms(2) by (auto simp: keeps_def)
  have "monitor (op_flags op) (e # seg) = Some m" using assms(1) s(2) by simp
  with s show ?thesis unfolding keeps_def by (intro exI [of _ "e # seg"] exI [of _ m]) simp
qed

lemma keeps_same_flags:
  "op_flags op' = op_flags op \<Longrightarrow> keeps op' tr out \<Longrightarrow> keeps op tr out"
  by (simp add: keeps_def)

lemma keeps_then:
  assumes "keeps op tr (tr', Inr op')" and "slots_ok op' \<Longrightarrow> keeps op' tr' out"
  shows "keeps op tr out"
proof -
  obtain seg where 1: "tr' = tr @ seg" "monitor (op_flags op) seg = Some (op_flags op')" "slots_ok op'"
    using assms(1) by (auto simp: keeps_def)
  obtain seg' m where 2: "fst out = tr' @ seg'" "monitor (op_flags op') seg' = Some m"
      "\<forall>op''. snd out = Inr op'' \<longrightarrow> m = op_flags op'' \<and> slots_ok op''"
    using assms(2) 1(3) by (auto simp: keeps_def)
  show ?thesis
    unfolding keeps_def using 1 2
    by (intro exI [of _ "seg @ seg'"] exI [of _ m]) (simp add: monitor_append)
qed

lemma keeps_ebind:
  assumes "keeps op tr (m tr)" and "\<And>op' tr'. slots_ok op' \<Longrightarrow> keeps op' tr' (k op' tr')"
  shows "keeps op tr (ebind m k tr)"
proof (cases "m tr")
  case (Pair tr' r)
  show ?thesis
  proof (cases r)
    case (Inl e)
    then show ?thesis using assms(1) Pair by (simp add: ebind_def keeps_def)
  next
    case (Inr op')
    then show ?thesis
      using keeps_then [of op tr tr' op' "k op' tr'"] assms Pair by (simp add: ebind_def)
  qed
qed

lemma keeps_fire_system:
  assumes "slots_ok op" and run: "\<And>c op tr. slots_ok op \<Longrightarrow> keeps op (tr @ [Ran c]) (run c ec len op tr)"
  shows "keeps op tr (fire_system run ec len op tr)"
proof (cases "sys_callback op")
  case (Some c)
  then obtain n where c: "c = System_Cb n" using assms(1) by (auto simp: slots_ok_def)
  show ?thesis
  proof (cases "sys_callback_called op")
    case False
    let ?op = "op\<lparr>sys_callback_called := True\<rparr>"
    have "slots_ok ?op" using assms(1) by (simp add: slots_ok_def)
    then have "keeps ?op (tr @ [Ran c]) (run c ec len ?op tr)" by (rule run)
    moreover have "monitor1 (op_flags op) (Ran c) = Some (op_flags ?op)"
      using False by (simp add: c op_flags_def)
    ultimately show ?thesis using Some False keeps_event by (simp add: fire_system_def)
  qed (use Some assms(1) in \<open>simp add: fire_system_def ereturn_def keeps_refl\<close>)
qed (use assms(1) in \<open>simp add: fire_system_def ereturn_def keeps_refl\<close>)

lemma keeps_fire_user:
  assumes "slots_ok op" and run: "\<And>c op tr. slots_ok op \<Longrightarrow> keeps op (tr @ [Ran c]) (run c ec len op tr)"
  shows "keeps op tr (fire_user run ec len op tr)"
proof (cases "op_callback op")
  case (Some c)
  then obtain n where c: "c = User_Cb n" using assms(1) by (auto simp: slots_ok_def)
  show ?thesis
  proof (cases "op_callback_called op")
    case False
    let ?op = "op\<lparr>op_callback_called := True\<rparr>"
    have "slots_ok ?op" using assms(1) by (simp add: slots_ok_def)
    then have "keeps ?op (tr @ [Ran c]) (run c ec len ?op tr)" by (rule run)
    moreover have "monitor1 (op_flags op) (Ran c) = Some (op_flags ?op)"
      using False by (simp add: c op_flags_def)
    ultimately show ?thesis using Some False keeps_event by (simp add: fire_user_def)
  qed (use Some assms(1) in \<open>simp add: fire_user_def ereturn_def keeps_refl\<close>)
qed (use assms(1) in \<open>simp add: fire_user_def ereturn_def keeps_refl\<close>)

locale async_request =
  fixes V :: "(callback_id, 'z) async_op_scheme request_ops"
  assumes set_handle: "op_flags (do_set_handle V h op) = (False, snd (op_flags op))"
      "op_slots (do_set_handle V h op) = op_slots op"
    and set_valid: "op_flags (do_set_valid V v op) = (False, snd (op_flags op))"
      "op_slots (do_set_valid V v op) = op_slots op"
    and invalidate: "op_flags (do_invalidate V op) = (True, snd (op_flags op))"
      "op_slots (do_invalidate V op) = op_slots op"
    and set_callback: "do_set_callback V c op = Inr op' \<Longrightarrow>
      op_flags op' = op_flags op \<and> op_slots op' = (c, snd (op_slots op))"
    and set_system_callback: "do_set_system_callback V c op = Inr op' \<Longrightarrow>
      op_flags op' = op_flags op \<and> op_slots op' = (fst (op_slots op), c)"
    and call_callback: "do_call_callback V run ec len op = ebind (fire_system run ec len op) (fire_user run ec len)"
    and io: "op_flags (do_io V b op) = op_flags op" "op_slots (do_io V b op) = op_slots op"
begin

lemma slots_ok_same: "op_slots op' = op_slots op \<Longrightarrow> slots_ok op \<Longrightarrow> slots_ok op'"
  by (auto simp: slots_ok_def op_slots_def)

lemma slots_ok_set:
  "do_set_callback V (map_option User_Cb c) op = Inr op' \<Longrightarrow> slots_ok op \<Longrightarrow> slots_ok op'"
  "do_set_system_callback V (map_option System_Cb c) op = Inr op' \<Longrightarrow> slots_ok op \<Longrightarrow> slots_ok op'"
  using set_callback [of "map_option User_Cb c" op op'] set_system_callback [of "map_option System_Cb c" op op']
  by (auto simp: slots_ok_def op_slots_def)

lemma exec_keeps_simple:
  assumes ok: "slots_ok op" and rest: "\<And>op tr. slots_ok op \<Longrightarrow> keeps op tr (exec V body depth cs op tr)"
    and simple: "\<And>ec len. c \<noteq> Call_Callback ec len"
  shows "keeps op tr (exec V body depth (c # cs) op tr)"
proof (cases c)
  case (Set_Handle h)
  have "keeps (do_set_handle V h op) (tr @ [Armed]) (exec V body depth cs (do_set_handle V h op) (tr @ [Armed]))"
    by (intro rest slots_ok_same [OF set_handle(2) ok])
  then show ?thesis using Set_Handle keeps_event [of op Armed "do_set_handle V h op" tr]
    by (simp add: monitor1_flags set_handle(1))
next
  case (Set_Valid v)
  have "keeps (do_set_valid V v op) (tr @ [Armed]) (exec V body depth cs (do_set_valid V v op) (tr @ [Armed]))"
    by (intro rest slots_ok_same [OF set_valid(2) ok])
  then show ?thesis using Set_Valid keeps_event [of op Armed "do_set_valid V v op" tr]
    by (simp add: monitor1_flags set_valid(1))
next
  case Invalidate
  have "keeps (do_invalidate V op) (tr @ [Invalidated]) (exec V body depth cs (do_invalidate V op) (tr @ [Invalidated]))"
    by (intro rest slots_ok_same [OF invalidate(2) ok])
  then show ?thesis using Invalidate keeps_event [of op Invalidated "do_invalidate V op" tr]
    by (simp add: monitor1_flags invalidate(1))
next
  case (Set_Callback u)
  show ?thesis
  proof (cases "do_set_callback V (map_option User_Cb u) op")
    case (Inr op')
    then show ?thesis
      using Set_Callback rest [OF slots_ok_set(1) [OF Inr ok]] set_callback [OF Inr] keeps_same_flags [of op' op]
      by simp
  qed (simp add: Set_Callback keeps_raise)
next
  case (Set_System_Callback u)
  show ?thesis
  proof (cases "do_set_system_callback V (map_option System_Cb u) op")
    case (Inr op')
    then show ?thesis
      using Set_System_Callback rest [OF slots_ok_set(2) [OF Inr ok]] set_system_callback [OF Inr] keeps_same_flags [of op' op]
      by simp
  qed (simp add: Set_System_Callback keeps_raise)
next
  case (Io b)
  then show ?thesis
    using keeps_same_flags [OF io(1) rest [OF slots_ok_same [OF io(2) ok]]] by simp
qed (use simple in auto)

lemma keeps_call_callback:
  assumes "slots_ok op" and run: "\<And>c op tr. slots_ok op \<Longrightarrow> keeps op (tr @ [Ran c]) (run c ec len op tr)"
  shows "keeps op tr (do_call_callback V run ec len op tr)"
  unfolding call_callback using assms by (intro keeps_ebind keeps_fire_system keeps_fire_user)

lemma exec_keeps: "slots_ok op \<Longrightarrow> keeps op tr (exec V body depth cs op tr)"
proof (induction depth arbitrary: cs op tr)
  case 0
  then show ?case
  proof (induction cs arbitrary: op tr)
    case (Cons c cs)
    show ?case
    proof (cases "\<exists>ec len. c = Call_Callback ec len")
      case False
      then show ?thesis using Cons by (intro exec_keeps_simple) auto
    qed (use Cons.prems in \<open>auto simp: keeps_refl\<close>)
  qed (simp add: keeps_refl)
next
  case (Suc depth)
  from Suc.prems show ?case
  proof (induction cs arbitrary: op tr)
    case (Cons c cs)
    show ?case
    proof (cases "\<exists>ec len. c = Call_Callback ec len")
      case True
      then obtain ec len where c: "c = Call_Callback ec len" by blast
      let ?out = "do_call_callback V (\<lambda>c ec len op tr. exec V body depth (body c) op (tr @ [Ran c])) ec len op tr"
      have out: "keeps op tr ?out" using Cons.prems Suc.IH by (intro keeps_call_callback) auto
      show ?thesis
      proof (cases "snd ?out")
        case (Inl e)
        then show ?thesis using out c by (auto simp: keeps_def split: prod.splits)
      next
        case (Inr op')
        then obtain tr' where "?out = (tr', Inr op')" by (cases ?out) auto
        then show ?thesis using out c Cons.IH keeps_then [of op tr tr' op'] by simp
      qed
    next
      case False
      then show ?thesis using Cons by (intro exec_keeps_simple) auto
    qed
  qed (simp add: keeps_refl)
qed

end

section \<open>Both platforms meet the contract\<close>

definition win_ops :: "callback_id win_request request_ops" where
  "win_ops = \<lparr>do_set_handle = win_set_handle, do_set_valid = win_set_valid, do_invalidate = win_invalidate,
     do_set_callback = set_callback win_is_valid win_is_complete,
     do_set_system_callback = set_system_callback win_is_valid win_is_complete,
     do_call_callback = win_call_callback, do_io = (\<lambda>b op. op\<lparr>io_pending := b\<rparr>)\<rparr>"

definition osx_ops :: "callback_id osx_request request_ops" where
  "osx_ops = \<lparr>do_set_handle = osx_set_sem, do_set_valid = osx_set_valid, do_invalidate = osx_invalidate,
     do_set_callback = set_callback osx_is_valid osx_is_complete,
     do_set_system_callback = set_system_callback osx_is_valid osx_is_complete,
     do_call_callback = osx_call_callback, do_io = (\<lambda>b op. op)\<rparr>"

lemma win_call_callback_fire:
  "win_call_callback run ec len op = ebind (fire_system run ec len op) (fire_user run ec len)"
  by (simp add: win_call_callback_def fire_system_def fire_user_def [abs_def])

lemma osx_call_callback_fire:
  "osx_call_callback run ec len op = ebind (fire_system run ec len op) (fire_user run ec len)"
  by (simp add: osx_call_callback_def fire_system_def fire_user_def [abs_def])

interpretation win_req: async_request win_ops
  by unfold_locales
    (auto simp: win_ops_def op_flags_def op_slots_def win_set_handle_def win_set_valid_def
      win_invalidate_def set_callback_def set_system_callback_def win_call_callback_fire split: if_splits)

interpretation osx_req: async_request osx_ops
  by unfold_locales
    (auto simp: osx_ops_def op_flags_def op_slots_def osx_set_sem_def osx_set_valid_def
      osx_invalidate_def set_callback_def set_system_callback_def osx_call_callback_fire split: if_splits)

section \<open>What the monitor says\<close>

fun is_system :: "op_event \<Rightarrow> bool" where
  "is_system (Ran (System_Cb _)) = True"
| "is_system _ = False"

fun is_user :: "op_event \<Rightarrow> bool" where
  "is_user (Ran (User_Cb _)) = True"
| "is_user _ = False"

lemma monitor1_user: "monitor1 m e = Some m' \<Longrightarrow> is_user e \<Longrightarrow> \<not> fst m \<and> fst m'"
  by (cases "(m, e)" rule: monitor1.cases) (auto split: if_splits)

lemma monitor1_system: "monitor1 m e = Some m' \<Longrightarrow> is_system e \<Longrightarrow> \<not> snd m \<and> snd m'"
  by (cases "(m, e)" rule: monitor1.cases) (auto split: if_splits)

lemma monitor1_called: "monitor1 m e = Some m' \<Longrightarrow> fst m \<Longrightarrow> e \<noteq> Armed \<Longrightarrow> fst m'"
  by (cases "(m, e)" rule: monitor1.cases) (auto split: if_splits)

lemma monitor1_system_called: "monitor1 m e = Some m' \<Longrightarrow> snd m \<Longrightarrow> snd m'"
  by (cases "(m, e)" rule: monitor1.cases) (auto split: if_splits)

lemma monitor_no_system: "monitor m tr \<noteq> None \<Longrightarrow> snd m \<Longrightarrow> filter is_system tr = []"
  by (induction tr arbitrary: m) (auto dest: monitor1_system monitor1_system_called split: option.splits)

lemma monitor_system_once: "monitor m tr \<noteq> None \<Longrightarrow> length (filter is_system tr) \<le> 1"
proof (induction tr arbitrary: m)
  case (Cons e tr)
  then obtain m' where m': "monitor1 m e = Some m'" "monitor m' tr \<noteq> None"
    by (auto split: option.splits)
  show ?case
  proof (cases "is_system e")
    case True
    then have "filter is_system tr = []" using monitor_no_system [OF m'(2)] monitor1_system [OF m'(1)] by blast
    then show ?thesis using True by simp
  qed (use Cons.IH [OF m'(2)] in simp)
qed simp

text \<open>Once the user callback is used up, it runs again only after the request was armed.\<close>

lemma monitor_called_user:
  "monitor m tr \<noteq> None \<Longrightarrow> fst m \<Longrightarrow> tr = pre @ e # post \<Longrightarrow> is_user e \<Longrightarrow> Armed \<in> set pre"
proof (induction tr arbitrary: m pre)
  case (Cons a tr)
  obtain m' where m': "monitor1 m a = Some m'" "monitor m' tr \<noteq> None"
    using Cons.prems(1) by (auto split: option.splits)
  show ?case
  proof (cases pre)
    case Nil
    then have "\<not> fst m" using Cons.prems(3,4) m'(1) monitor1_user [of m a m'] by simp
    then show ?thesis using Cons.prems(2) by simp
  next
    case (Cons b pre')
    then have tr: "tr = pre' @ e # post" and ab: "b = a" using Cons.prems(3) by auto
    show ?thesis
    proof (cases "a = Armed")
      case False
      have "Armed \<in> set pre'"
        by (rule Cons.IH [OF m'(2) monitor1_called [OF m'(1) Cons.prems(2) False] tr Cons.prems(4)])
      then show ?thesis by (simp add: Cons)
    qed (simp add: Cons ab)
  qed
qed simp

lemma monitor_user_needs_arming:
  assumes "monitor m (pre @ e # mid @ e' # post) \<noteq> None" and "is_user e \<or> e = Invalidated" and "is_user e'"
  shows "Armed \<in> set mid"
proof -
  obtain m1 m2 where 1: "monitor1 m1 e = Some m2" "monitor m2 (mid @ e' # post) \<noteq> None"
    using assms(1) by (auto simp: monitor_append split: option.splits)
  have "fst m2" using assms(2)
  proof
    assume "is_user e"
    then show ?thesis using monitor1_user [OF 1(1)] by simp
  next
    assume "e = Invalidated"
    then show ?thesis using 1(1) by (auto simp: monitor1_flags)
  qed
  with 1(2) assms(3) show ?thesis using monitor_called_user by blast
qed

context async_request
begin

lemma discipline:
  assumes "slots_ok op" and "exec V body depth cs op [] = (tr, r)"
  shows "length (filter is_system tr) \<le> 1 \<and>
    (\<forall>pre e mid e' post. tr = pre @ e # mid @ e' # post \<longrightarrow> is_user e \<or> e = Invalidated \<longrightarrow> is_user e' \<longrightarrow>
       Armed \<in> set mid)"
proof -
  have "monitor (op_flags op) tr \<noteq> None"
    using exec_keeps [OF assms(1), of "[]" body depth cs] assms(2) by (auto simp: keeps_def)
  then show ?thesis using monitor_system_once monitor_user_needs_arming by blast
qed

end

lemma request_make_slots:
  "slots_ok (win_request_make (map_option User_Cb c))" "slots_ok (osx_request_make (map_option User_Cb c))"
  by (auto simp: slots_ok_def win_request_make_def osx_request_make_def)

section \<open>Properties\<close>

text \<open>C19. The callback discipline of a Windows request, whatever the client and the callbacks do with it,
  callbacks that use the request again included: in every run the system callback is run at most once in
  the life of the request, and the user callback, once it has run or the request has been invalidated,
  runs again only after the request was armed (\<open>set_handle\<close> or \<open>set_valid\<close>).\<close>

theorem win_callback_discipline:
  assumes "exec win_ops body depth cs (win_request_make (map_option User_Cb c)) [] = (tr, r)"
  shows "length (filter is_system tr) \<le> 1 \<and>
    (\<forall>pre e mid e' post. tr = pre @ e # mid @ e' # post \<longrightarrow> is_user e \<or> e = Invalidated \<longrightarrow> is_user e' \<longrightarrow>
       Armed \<in> set mid)"
  by (rule win_req.discipline [OF request_make_slots(1) assms])

text \<open>A system callback that completes the request again and re-arms it before the user callback runs.\<close>

definition rearming_body :: "callback_id \<Rightarrow> op_cmd list" where
  "rearming_body c = (if c = System_Cb 1 then [Call_Callback E_Success 3, Set_Valid True] else [])"

definition rearming_client :: "op_cmd list" where
  "rearming_client = [Set_System_Callback (Some 1), Set_Valid True, Call_Callback E_Success 3, Call_Callback E_Success 3]"

theorem win_callback_discipline_witness:
  "fst (exec win_ops rearming_body 2 rearming_client (win_request_make (map_option User_Cb (Some 0))) []) =
     [Armed, Ran (System_Cb 1), Ran (User_Cb 0), Armed, Ran (User_Cb 0)] \<and>
   length (filter is_system
     (fst (exec win_ops rearming_body 2 rearming_client (win_request_make (map_option User_Cb (Some 0))) []))) \<le> 1"
proof -
  have "fst (exec win_ops rearming_body 2 rearming_client (win_request_make (map_option User_Cb (Some 0))) []) =
      [Armed, Ran (System_Cb 1), Ran (User_Cb 0), Armed, Ran (User_Cb 0)]"
    by (simp add: numeral_2_eq_2 win_ops_def win_request_make_def win_set_valid_def rearming_client_def
        rearming_body_def set_system_callback_def win_is_valid_def win_call_callback_def ebind_def ereturn_def)
  moreover note win_callback_discipline [OF prod.collapse [symmetric], of rearming_body 2 rearming_client "Some 0"]
  ultimately show ?thesis by blast
qed

text \<open>The same discipline for a macOS request.\<close>

theorem osx_callback_discipline:
  assumes "exec osx_ops body depth cs (osx_request_make (map_option User_Cb c)) [] = (tr, r)"
  shows "length (filter is_system tr) \<le> 1 \<and>
    (\<forall>pre e mid e' post. tr = pre @ e # mid @ e' # post \<longrightarrow> is_user e \<or> e = Invalidated \<longrightarrow> is_user e' \<longrightarrow>
       Armed \<in> set mid)"
  by (rule osx_req.discipline [OF request_make_slots(2) assms])

theorem osx_callback_discipline_witness:
  "fst (exec osx_ops rearming_body 2 rearming_client (osx_request_make (map_option User_Cb (Some 0))) []) =
     [Armed, Ran (System_Cb 1), Ran (User_Cb 0), Armed, Ran (User_Cb 0)] \<and>
   length (filter is_system
     (fst (exec osx_ops rearming_body 2 rearming_client (osx_request_make (map_option User_Cb (Some 0))) []))) \<le> 1"
proof -
  have "fst (exec osx_ops rearming_body 2 rearming_client (osx_request_make (map_option User_Cb (Some 0))) []) =
      [Armed, Ran (System_Cb 1), Ran (User_Cb 0), Armed, Ran (User_Cb 0)]"
    by (simp add: numeral_2_eq_2 osx_ops_def osx_request_make_def osx_set_valid_def rearming_client_def
        rearming_body_def set_system_callback_def osx_is_valid_def osx_call_callback_def ebind_def ereturn_def)
  moreover note osx_callback_discipline [OF prod.collapse [symmetric], of rearming_body 2 rearming_client "Some 0"]
  ultimately show ?thesis by blast
qed

text \<open>Completion reaches the callbacks, on both platforms: completing a freshly armed request with
  both callbacks set runs the system callback and then the user callback, with the flags set before
  each runs; completing it again without arming runs neither; after arming it again only the user
  callback runs.\<close>

theorem completion_runs_both_once:
  "fst (exec win_ops (\<lambda>_. []) 1 [Set_System_Callback (Some s), Set_Valid True, Call_Callback ec len,
      Call_Callback ec' len', Set_Valid v, Call_Callback ec'' len''] (win_request_make (Some (User_Cb u))) []) =
     [Armed, Ran (System_Cb s), Ran (User_Cb u), Armed, Ran (User_Cb u)] \<and>
   fst (exec osx_ops (\<lambda>_. []) 1 [Set_System_Callback (Some s), Set_Valid True, Call_Callback ec len,
      Call_Callback ec' len', Set_Valid v, Call_Callback ec'' len''] (osx_request_make (Some (User_Cb u))) []) =
     [Armed, Ran (System_Cb s), Ran (User_Cb u), Armed, Ran (User_Cb u)]"
  by (simp add: win_ops_def win_request_make_def win_set_valid_def win_is_valid_def win_call_callback_def
      osx_ops_def osx_request_make_def osx_set_valid_def osx_is_valid_def osx_call_callback_def
      set_system_callback_def ebind_def ereturn_def)

text \<open>The guard of \<open>set_callback\<close> and \<open>set_system_callback\<close>: on Windows they raise, and leave the
  request as it is, exactly when the request is valid and its I/O is outstanding; on macOS, where a valid
  request always counts as complete, they never raise, so a callback can be changed while an operation
  is in flight.\<close>

theorem set_callback_guard:
  "set_callback win_is_valid win_is_complete c op =
     (if op_valid op \<and> io_pending op then Inl (Exception change_error) else Inr (op\<lparr>op_callback := c\<rparr>)) \<and>
   set_system_callback win_is_valid win_is_complete c op =
     (if op_valid op \<and> io_pending op then Inl (Exception change_error) else Inr (op\<lparr>sys_callback := c\<rparr>)) \<and>
   set_callback osx_is_valid osx_is_complete c' op' = Inr (op'\<lparr>op_callback := c'\<rparr>) \<and>
   set_system_callback osx_is_valid osx_is_complete c' op' = Inr (op'\<lparr>sys_callback := c'\<rparr>)"
  by (simp add: set_callback_def set_system_callback_def win_is_valid_def win_is_complete_def
      osx_is_valid_def osx_is_complete_def)

end
