(* ===== verification/Win_Overlapped.thy ===== *)
theory Win_Overlapped
  imports Async_Op
begin

text \<open>
  Two small parts of the Windows code: the \<open>OVERLAPPED\<close> of a request with the pointer back to its owner
  (\<open>overlapped.cpp\<close>, and the completion routine of \<open>async_request.cpp\<close> that follows it), and the search for
  the parent process (\<open>utility.cpp\<close>), whose exit code a failed write logs.
\<close>

section \<open>The buffer of a request\<close>

text \<open>
  The buffer holds the pointer \<open>this\<close> (8 bytes) and the \<open>OVERLAPPED\<close>, 32 bytes of which the last 8 are the
  event handle. \<open>get_overlapped_pointer\<close> points behind the first 8 bytes; the model has the offset.
\<close>

definition overlapped_make :: "u64 \<Rightarrow> u64 \<Rightarrow> buffer result" where
  "overlapped_make this event =
     rbind (poke (replicate (8 + 32) (CHR 0x00)) 0 (u64_bytes this)) (\<lambda>ov_buf.
     rbind (poke ov_buf 8 (replicate 32 (CHR 0x00))) (\<lambda>ov_buf.
     poke ov_buf (8 + 24) (u64_bytes event)))"

definition get_overlapped_pointer :: nat where
  "get_overlapped_pointer = 8"

definition get_pointer_from_overlapped :: "buffer \<Rightarrow> nat \<Rightarrow> u64 result" where
  "get_pointer_from_overlapped ov_buf ov =
     (if ov < 8 then Inl Bad_Access
      else rbind (peek ov_buf (ov - 8) 8) (\<lambda>bs. Inr (u64_of_bytes bs)))"

text \<open>\<open>get_waitable\<close> is the event; \<open>signal\<close> sets it. \<open>events\<close> are the events that are set.\<close>

definition ov_get_waitable :: "buffer \<Rightarrow> u64 result" where
  "ov_get_waitable ov_buf = rbind (peek ov_buf (8 + 24) 8) (\<lambda>bs. Inr (u64_of_bytes bs))"

text \<open>The destructor: the event it closes.\<close>

definition overlapped_destroy :: "buffer \<Rightarrow> u64 option result" where
  "overlapped_destroy ov_buf =
     (if length ov_buf \<noteq> 0 then rbind (ov_get_waitable ov_buf) (\<lambda>event. Inr (Some event)) else Inr None)"

definition ov_signal :: "buffer \<Rightarrow> u64 set \<Rightarrow> u64 set result" where
  "ov_signal ov_buf events = rbind (ov_get_waitable ov_buf) (\<lambda>event. Inr (insert event events))"

text \<open>
  \<open>completion_routine\<close>: the system calls it with a pointer into the buffer of a request. \<open>objs\<close> are the
  buffers of the requests that exist, by the address of the request.
\<close>

definition completion_routine ::
  "(u64 \<Rightarrow> buffer option) \<Rightarrow> buffer \<Rightarrow> nat \<Rightarrow> u64 set \<Rightarrow> u64 set result"
where
  "completion_routine objs ov_buf ov events =
     rbind (get_pointer_from_overlapped ov_buf ov) (\<lambda>ovp.
     if ovp = 0 then Inr events
     else (case objs ovp of None \<Rightarrow> Inl Bad_Access | Some ov_buf \<Rightarrow> ov_signal ov_buf events))"

lemma overlapped_layout:
  "overlapped_make this event = Inr (u64_bytes this @ replicate 24 (CHR 0x00) @ u64_bytes event)"
proof -
  have "length (u64_bytes this) = 8" "length (u64_bytes event) = 8" by simp_all
  then show ?thesis by (simp add: overlapped_make_def poke_def)
qed

text \<open>A completed transfer sets the event of its own request and no other.\<close>

theorem completion_signals_own_event:
  assumes "overlapped_make this event = Inr ov_buf" and "objs this = Some ov_buf" and "this \<noteq> 0"
  shows "completion_routine objs ov_buf get_overlapped_pointer events = Inr (insert event events)"
proof -
  have buf: "ov_buf = u64_bytes this @ replicate 24 (CHR 0x00) @ u64_bytes event"
    using assms(1) by (simp add: overlapped_layout)
  have "get_pointer_from_overlapped ov_buf 8 = Inr this"
    by (simp add: get_pointer_from_overlapped_def buf peek_def)
  moreover have "ov_get_waitable ov_buf = Inr event"
    by (simp add: ov_get_waitable_def buf peek_def)
  ultimately show ?thesis
    using assms(2,3) by (simp add: completion_routine_def get_overlapped_pointer_def ov_signal_def)
qed

section \<open>The parent process\<close>

text \<open>
  The entries of a process snapshot are pairs of a process and its parent; \<open>None\<close> says that there is no
  snapshot. \<open>(DWORD)-1\<close> stands for not found.
\<close>

fun find_parent :: "u32 \<Rightarrow> (u32 \<times> u32) list \<Rightarrow> u32" where
  "find_parent current [] = -1"
| "find_parent current ((pid, ppid) # entries) = (if pid = current then ppid else find_parent current entries)"

definition get_parent_process_id :: "u32 \<Rightarrow> (u32 \<times> u32) list option \<Rightarrow> u32" where
  "get_parent_process_id current snapshot =
     (case snapshot of None \<Rightarrow> -1 | Some entries \<Rightarrow> find_parent current entries)"

text \<open>
  \<open>open_process\<close> and \<open>exit_code_of\<close> are \<open>OpenProcess\<close> and \<open>GetExitCodeProcess\<close>. The code compares the handle
  with \<open>INVALID_HANDLE_VALUE\<close>, although \<open>OpenProcess\<close> is documented to return 0 when it fails; the query on
  the handle 0 then decides.
\<close>

definition get_parent_process_exit_code ::
  "(u32 \<Rightarrow> u64) \<Rightarrow> (u64 \<Rightarrow> u32 option) \<Rightarrow> u32 \<Rightarrow> (u32 \<times> u32) list option \<Rightarrow> u32"
where
  "get_parent_process_exit_code open_process exit_code_of current snapshot =
     (let handle = open_process (get_parent_process_id current snapshot) in
      if handle \<noteq> -1 then (case exit_code_of handle of None \<Rightarrow> -1 | Some c \<Rightarrow> c) else -1)"

lemma find_parent_distinct:
  "distinct (map fst entries) \<Longrightarrow> (current, ppid) \<in> set entries \<Longrightarrow> find_parent current entries = ppid"
  by (induction entries) force+

text \<open>The exit code is that of the parent when the snapshot lists the process and the queries succeed.\<close>

theorem parent_exit_code:
  assumes "distinct (map fst entries)" and "(current, ppid) \<in> set entries"
    and "open_process ppid = h" and "h \<noteq> -1" and "exit_code_of h = Some c"
  shows "get_parent_process_exit_code open_process exit_code_of current (Some entries) = c"
  using assms find_parent_distinct [OF assms(1,2)]
  by (simp add: get_parent_process_exit_code_def get_parent_process_id_def)

end
