(* ===== verification/Socket_Win.thy ===== *)
theory Socket_Win
  imports Async_Op
begin

text \<open>
  The Windows socket (\<open>windows/ipc-socket-win.cpp\<close>): a named pipe with the identity of the peer it was
  connected to. The system calls are arguments: what the pipe's identity queries answer is a
  \<open>pipe_env\<close>, the outcome of a connect, read or write is what the call returns and the last error it
  leaves. Request callbacks are either the socket's own \<open>handle_accept_callback\<close> or the client's.
\<close>

section \<open>Names and parameters\<close>

text \<open>\<open>MAX_PATH\<close> is 260; the macro prints as its text.\<close>

definition max_path_minus_prefix :: nat where
  "max_path_minus_prefix = 260 - 9"

definition name_text :: string where
  "name_text = [CHR 0x27] @ ''name'' @ [CHR 0x27]"

definition validate_open_param :: "string \<Rightarrow> unit result" where
  "validate_open_param name =
     (if length name = 0 then Inl (Exception (name_text @ '' can'' @ [CHR 0x27] @ ''t be empty.''))
      else if max_path_minus_prefix \<le> length name
      then Inl (Exception (name_text @ '' can'' @ [CHR 0x27] @ ''t be longer than (260 - 9) characters.''))
      else Inr ())"

definition instances_text :: string where
  "instances_text = [CHR 0x27] @ ''max_instances'' @ [CHR 0x27]"

definition validate_create_param :: "string \<Rightarrow> nat \<Rightarrow> unit result" where
  "validate_create_param name max_instances =
     (if length name = 0 then Inl (Exception (name_text @ '' can'' @ [CHR 0x27] @ ''t be empty.''))
      else if max_path_minus_prefix \<le> length name
      then Inl (Exception (name_text @ '' can'' @ [CHR 0x27] @ ''t be longer than (260 - 9) characters.''))
      else if max_instances = 0
      then Inl (Exception (instances_text @ '' can'' @ [CHR 0x27] @ ''t be zero.''))
      else if 255 < max_instances
      then Inl (Exception (instances_text @ '' can'' @ [CHR 0x27] @ ''t be greater than 255''))
      else Inr ())"

definition pipe_prefix :: string where
  "pipe_prefix = [CHR 0x5C, CHR 0x5C] @ ''.'' @ [CHR 0x5C] @ ''pipe'' @ [CHR 0x5C]"

definition make_windows_compatible :: "string \<Rightarrow> string" where
  "make_windows_compatible name = pipe_prefix @ map (\<lambda>v. if v = CHR 0x5C then CHR 0x2F else v) name"

text \<open>
  \<open>make_wide_string\<close>: the conversion from UTF-8 to UTF-16, which throws for a byte that does not fit, a
  sequence that is cut off and a value above \<open>0x10FFFF\<close>. A form that is longer than needed, which the standard leaves to
  the library, is taken by its value.
\<close>

fun utf8_tail :: "nat \<Rightarrow> nat \<Rightarrow> string \<Rightarrow> (nat \<times> string) option" where
  "utf8_tail 0 c bs = (if c \<le> 0x10FFFF then Some (c, bs) else None)"
| "utf8_tail (Suc n) c [] = None"
| "utf8_tail (Suc n) c (b # bs) =
     (if 0x80 \<le> (of_char b :: nat) \<and> of_char b < (0xC0 :: nat) then utf8_tail n (64 * c + (of_char b - 0x80)) bs else None)"

definition utf8_first :: "nat \<Rightarrow> string \<Rightarrow> (nat \<times> string) option" where
  "utf8_first b bs =
     (if b < 0x80 then utf8_tail 0 b bs
      else if b < 0xC0 then None
      else if b < 0xE0 then utf8_tail 1 (b - 0xC0) bs
      else if b < 0xF0 then utf8_tail 2 (b - 0xE0) bs
      else if b < 0xF8 then utf8_tail 3 (b - 0xF0) bs
      else None)"

definition utf16_units :: "nat \<Rightarrow> 16 word list" where
  "utf16_units c =
     (if c < 0x10000 then [of_nat c] else [of_nat (0xD7C0 + c div 0x400), of_nat (0xDC00 + c mod 0x400)])"

lemma utf8_tail_shorter: "utf8_tail n c bs = Some (c', bs') \<Longrightarrow> length bs' \<le> length bs"
  by (induction n c bs rule: utf8_tail.induct) (auto split: if_splits)

lemma utf8_first_shorter: "utf8_first b bs = Some (c, bs') \<Longrightarrow> length bs' \<le> length bs"
  by (auto simp: utf8_first_def dest: utf8_tail_shorter split: if_splits)

function utf16_text :: "string \<Rightarrow> 16 word list option" where
  "utf16_text [] = Some []"
| "utf16_text (b # bs) =
     (case utf8_first (of_char b) bs of
        None \<Rightarrow> None
      | Some (c, bs') \<Rightarrow> map_option (\<lambda>ws. utf16_units c @ ws) (utf16_text bs'))"
  by pat_completeness auto
termination
  by (relation "measure length") (auto dest: utf8_first_shorter)

definition make_wide_string :: "string \<Rightarrow> 16 word list result" where
  "make_wide_string text = (case utf16_text text of None \<Rightarrow> Inl (Exception ''bad conversion'') | Some ws \<Rightarrow> Inr ws)"

text \<open>The \<open>c_str\<close> of a wide string, for the system calls that take a name.\<close>

definition wide_c_str :: "16 word list \<Rightarrow> 16 word list" where
  "wide_c_str = takeWhile (\<lambda>c. c \<noteq> 0)"

section \<open>State\<close>

record win_socket =
  ws_handle :: u64
  ws_created :: bool
  ws_session :: u32
  ws_process :: u32

text \<open>
  What the four identity queries and \<open>PeekNamedPipe\<close> answer at one moment; \<open>None\<close> when a query fails.
\<close>

record pipe_env =
  client_process :: "u32 option"
  client_session :: "u32 option"
  server_process :: "u32 option"
  server_session :: "u32 option"
  peek_ok :: bool

text \<open>The queries of one end: a created socket asks for the client, an opened one for the server.\<close>

definition peer_ids :: "pipe_env \<Rightarrow> win_socket \<Rightarrow> (u32 \<times> u32) option" where
  "peer_ids env s =
     (if ws_created s then
        (case client_process env of None \<Rightarrow> None
         | Some p \<Rightarrow> (case client_session env of None \<Rightarrow> None | Some i \<Rightarrow> Some (p, i)))
      else
        (case server_process env of None \<Rightarrow> None
         | Some p \<Rightarrow> (case server_session env of None \<Rightarrow> None | Some i \<Rightarrow> Some (p, i))))"

definition win_set_connected :: "pipe_env \<Rightarrow> bool \<Rightarrow> win_socket \<Rightarrow> win_socket" where
  "win_set_connected env connected s =
     (if connected then
        (case peer_ids env s of None \<Rightarrow> s | Some (p, i) \<Rightarrow> s\<lparr>ws_session := i, ws_process := p\<rparr>)
      else s\<lparr>ws_session := 0, ws_process := 0\<rparr>)"

definition win_is_created :: "win_socket \<Rightarrow> bool" where
  "win_is_created s = ws_created s"

definition win_is_connected :: "pipe_env \<Rightarrow> win_socket \<Rightarrow> bool \<times> win_socket" where
  "win_is_connected env s =
     (case peer_ids env s of
        None \<Rightarrow> (False, s)
      | Some (p, i) \<Rightarrow>
          if p \<noteq> ws_process s \<or> p = 0 then (False, s\<lparr>ws_process := 0, ws_session := 0\<rparr>)
          else if i \<noteq> ws_session s \<or> i = 0 then (False, s\<lparr>ws_process := 0, ws_session := 0\<rparr>)
          else if \<not> peek_ok env then (False, s)
          else (True, s\<lparr>ws_session := i, ws_process := p\<rparr>))"

text \<open>The default constructor: \<open>INVALID_HANDLE_VALUE\<close> is -1, and nobody is connected.\<close>

definition win_socket_make :: "pipe_env \<Rightarrow> win_socket" where
  "win_socket_make env = win_set_connected env False \<lparr>ws_handle = -1, ws_created = False, ws_session = 0, ws_process = 0\<rparr>"

datatype pipe_type = Pipe_Byte | Pipe_Message

text \<open>
  The flags for \<open>CreateNamedPipeW\<close>, by their documented values: \<open>PIPE_ACCESS_DUPLEX\<close> 3,
  \<open>FILE_FLAG_FIRST_PIPE_INSTANCE\<close> \<open>0x80000\<close>, \<open>FILE_FLAG_OVERLAPPED\<close> \<open>0x40000000\<close>,
  \<open>FILE_FLAG_WRITE_THROUGH\<close> \<open>0x80000000\<close>, \<open>PIPE_TYPE_MESSAGE\<close> 4, \<open>PIPE_READMODE_MESSAGE\<close> 2. The value of
  \<open>create_pipe\<close> is the handle and the last error.
\<close>

definition pipe_open_mode :: "bool \<Rightarrow> u32" where
  "pipe_open_mode is_unique =
     or (or 3 (or 0x80000000 0x40000000)) (if is_unique then 0x80000 else 0)"

definition pipe_mode :: "pipe_type \<Rightarrow> pipe_type \<Rightarrow> u32" where
  "pipe_mode type mode =
     or (case type of Pipe_Message \<Rightarrow> 4 | _ \<Rightarrow> 0) (case mode of Pipe_Message \<Rightarrow> 2 | _ \<Rightarrow> 0)"

definition create_logic ::
  "(u32 \<Rightarrow> string) \<Rightarrow> (16 word list \<Rightarrow> u32 \<Rightarrow> u32 \<Rightarrow> nat \<Rightarrow> u64 \<times> u32) \<Rightarrow> 16 word list \<Rightarrow> nat \<Rightarrow> pipe_type \<Rightarrow> pipe_type \<Rightarrow> bool \<Rightarrow> u64 result"
where
  "create_logic hex create_pipe name max_instances type mode is_unique =
     (case create_pipe (wide_c_str name) (pipe_open_mode is_unique) (pipe_mode type mode) max_instances of
        (handle, err) \<Rightarrow>
          if handle = -1
          then Inl (Exception (''Creating Named Pipe failed with error code '' @ hex err @ ''.''))
          else Inr handle)"

text \<open>
  \<open>open_file\<close> is \<open>CreateFileW\<close>, handle and last error; \<open>set_mode\<close> is \<open>SetNamedPipeHandleState\<close>,
  success and last error.
\<close>

definition open_logic ::
  "(u32 \<Rightarrow> string) \<Rightarrow> (16 word list \<Rightarrow> u64 \<times> u32) \<Rightarrow> (u64 \<Rightarrow> u32 \<Rightarrow> bool \<times> u32) \<Rightarrow> 16 word list \<Rightarrow> pipe_type
   \<Rightarrow> u64 result"
where
  "open_logic hex open_file set_mode name mode =
     (case open_file (wide_c_str name) of
        (handle, err) \<Rightarrow>
          if handle = 0 \<or> err \<noteq> 0
          then Inl (Exception (''Opening Named Pipe failed with error code '' @ hex err @ ''.''))
          else (case set_mode handle (pipe_mode Pipe_Byte mode) of
                  (ok, err) \<Rightarrow>
                    if \<not> ok
                    then Inl (Exception (''Changing Named Pipe read mode failed with error code '' @ hex err @ ''.''))
                    else Inr handle))"

text \<open>The two constructors; a NUL is appended to the name.\<close>

definition win_socket_create ::
  "(u32 \<Rightarrow> string) \<Rightarrow> (16 word list \<Rightarrow> u32 \<Rightarrow> u32 \<Rightarrow> nat \<Rightarrow> u64 \<times> u32) \<Rightarrow> pipe_env \<Rightarrow> string \<Rightarrow> nat
   \<Rightarrow> pipe_type \<Rightarrow> pipe_type \<Rightarrow> bool \<Rightarrow> win_socket result"
where
  "win_socket_create hex create_pipe env name max_instances type mode is_unique =
     rbind (validate_create_param name max_instances) (\<lambda>_.
     rbind (make_wide_string (make_windows_compatible (name @ [CHR 0x00]))) (\<lambda>wide_name.
     rbind (create_logic hex create_pipe wide_name max_instances type mode is_unique) (\<lambda>handle.
     Inr ((win_socket_make env)\<lparr>ws_handle := handle, ws_created := True\<rparr>))))"

definition win_socket_open ::
  "(u32 \<Rightarrow> string) \<Rightarrow> (16 word list \<Rightarrow> u64 \<times> u32) \<Rightarrow> (u64 \<Rightarrow> u32 \<Rightarrow> bool \<times> u32) \<Rightarrow> pipe_env
   \<Rightarrow> string \<Rightarrow> pipe_type \<Rightarrow> win_socket result"
where
  "win_socket_open hex open_file set_mode env name mode =
     rbind (validate_open_param name) (\<lambda>_.
     rbind (make_wide_string (make_windows_compatible (name @ [CHR 0x00]))) (\<lambda>wide_name.
     rbind (open_logic hex open_file set_mode wide_name mode) (\<lambda>handle.
     Inr (win_set_connected env True ((win_socket_make env)\<lparr>ws_handle := handle\<rparr>)))))"

text \<open>The destructor: the handle it disconnects and closes, if any; \<open>INVALID_HANDLE_VALUE\<close> counts as one.\<close>

definition win_socket_destroy :: "win_socket \<Rightarrow> u64 option" where
  "win_socket_destroy s = (if ws_handle s \<noteq> 0 then Some (ws_handle s) else None)"

definition win_handle_accept_callback :: "pipe_env \<Rightarrow> os_error \<Rightarrow> nat \<Rightarrow> win_socket \<Rightarrow> win_socket" where
  "win_handle_accept_callback env code len s =
     (if code = E_Connected \<or> code = E_Success then win_set_connected env True s
      else win_set_connected env False s)"

section \<open>Requests on the socket\<close>

text \<open>
  A request of the socket runs \<open>Handle_Accept\<close> on the socket itself and \<open>Client_Cb c\<close> by \<open>client\<close>, which
  gets the socket, the request and the rest of the world.
\<close>

datatype 'c sock_cb = Handle_Accept | Client_Cb 'c

type_synonym ('c, 'x) client_runner =
  "'c \<Rightarrow> os_error \<Rightarrow> nat \<Rightarrow> 'c sock_cb win_request \<Rightarrow> (win_socket \<times> 'x, 'c sock_cb win_request) effect"

fun run_sock_cb ::
  "pipe_env \<Rightarrow> ('c, 'x) client_runner \<Rightarrow> ('c sock_cb, 'c sock_cb win_request, win_socket \<times> 'x) runner"
where
  "run_sock_cb env client Handle_Accept ec len op (s, x) =
     ((win_handle_accept_callback env ec len s, x), Inr op)"
| "run_sock_cb env client (Client_Cb c) ec len op (s, x) = client c ec len op (s, x)"

text \<open>A null request is replaced by a new one.\<close>

definition request_for :: "'c win_request option \<Rightarrow> 'c win_request" where
  "request_for op = (case op of None \<Rightarrow> win_request_make None | Some ar \<Rightarrow> ar)"

definition elift :: "'a result \<Rightarrow> ('w, 'a) effect" where
  "elift r w = (w, r)"

text \<open>
  \<open>accept\<close>: \<open>err\<close> is the last error \<open>ConnectNamedPipe\<close> leaves. A pending connect leaves the status of the
  I/O at pending. The result is the code and the request, which is a reference argument.
\<close>

definition win_accept ::
  "pipe_env \<Rightarrow> ('c, 'x) client_runner \<Rightarrow> u32 \<Rightarrow> 'c sock_cb win_request option \<Rightarrow> 'c option
   \<Rightarrow> (win_socket \<times> 'x, os_error \<times> 'c sock_cb win_request option) effect"
where
  "win_accept env client err op cb = (\<lambda>(s, x).
     if \<not> win_is_created s then ((s, x), Inr (E_Error, op))
     else
       ebind (elift (set_callback win_is_valid win_is_complete (map_option Client_Cb cb) (request_for op))) (\<lambda>ar.
       ebind (elift (set_system_callback win_is_valid win_is_complete (Some Handle_Accept) ar)) (\<lambda>ar.
       let ar = win_set_handle (ws_handle s) ar; ec = translate_code err in
       if ec \<noteq> E_Pending \<and> ec \<noteq> E_Connected then
         ebind (win_call_callback (run_sock_cb env client) ec 0 ar) (\<lambda>ar. ereturn (ec, Some ar))
       else
         let ar = win_set_valid True (ar\<lparr>io_pending := (ec = E_Pending)\<rparr>) in
         if ec = E_Connected then
           ebind (win_call_callback (run_sock_cb env client) ec 0 ar) (\<lambda>ar. ereturn (ec, Some ar))
         else ereturn (ec, Some ar))) (s, x))"

text \<open>
  \<open>suc\<close> and \<open>err\<close> are what \<open>ReadFileEx\<close> returns and the last error; a started transfer is pending. \<open>write\<close>
  is the same code with \<open>WriteFileEx\<close>. The \<open>cancel\<close> of a request whose call failed only asks the system
  to stop I/O that was never started.
\<close>

definition win_read ::
  "pipe_env \<Rightarrow> ('c, 'x) client_runner \<Rightarrow> bool \<Rightarrow> u32 \<Rightarrow> nat \<Rightarrow> 'c sock_cb win_request option \<Rightarrow> 'c option
   \<Rightarrow> (win_socket \<times> 'x, os_error \<times> 'c sock_cb win_request option) effect"
where
  "win_read env client suc err buffer_length op cb = (\<lambda>(s, x).
     case win_is_connected env s of
       (False, s) \<Rightarrow> ((s, x), Inr (E_Disconnected, op))
     | (True, s) \<Rightarrow>
         ebind (elift (set_callback win_is_valid win_is_complete (map_option Client_Cb cb) (request_for op))) (\<lambda>ar.
         let ar = win_set_handle (ws_handle s) ar; ec = translate_code err in
         if \<not> suc then
           ebind (win_call_callback (run_sock_cb env client) ec buffer_length ar) (\<lambda>ar. ereturn (ec, Some ar))
         else ereturn (ec, Some (win_set_valid True (ar\<lparr>io_pending := True\<rparr>)))) (s, x))"

definition win_write ::
  "pipe_env \<Rightarrow> ('c, 'x) client_runner \<Rightarrow> bool \<Rightarrow> u32 \<Rightarrow> nat \<Rightarrow> 'c sock_cb win_request option \<Rightarrow> 'c option
   \<Rightarrow> (win_socket \<times> 'x, os_error \<times> 'c sock_cb win_request option) effect"
where
  "win_write env client suc err buffer_length op cb = (\<lambda>(s, x).
     case win_is_connected env s of
       (False, s) \<Rightarrow> ((s, x), Inr (E_Disconnected, op))
     | (True, s) \<Rightarrow>
         ebind (elift (set_callback win_is_valid win_is_complete (map_option Client_Cb cb) (request_for op))) (\<lambda>ar.
         let ar = win_set_handle (ws_handle s) ar; ec = translate_code err in
         if \<not> suc then
           ebind (win_call_callback (run_sock_cb env client) ec buffer_length ar) (\<lambda>ar. ereturn (ec, Some ar))
         else ereturn (ec, Some (win_set_valid True (ar\<lparr>io_pending := True\<rparr>)))) (s, x))"

lemma win_cleared_not_connected:
  assumes "ws_process s = 0" and "ws_session s = 0"
  shows "win_is_connected env s = (False, s)"
proof -
  have "s\<lparr>ws_process := 0, ws_session := 0\<rparr> = s" using assms by (cases s) simp
  then show ?thesis using assms by (cases "peer_ids env s") (auto simp: win_is_connected_def)
qed

lemma create_logic_iff:
  "create_logic hex create_pipe name max_instances type mode is_unique = Inr h \<longleftrightarrow>
   h = fst (create_pipe (wide_c_str name) (pipe_open_mode is_unique) (pipe_mode type mode) max_instances) \<and> h \<noteq> -1"
  by (auto simp: create_logic_def split: prod.splits)

lemma make_wide_ascii:
  "list_all (\<lambda>c. of_char c < (0x80 :: nat)) name \<Longrightarrow> make_wide_string name = Inr (map of_char name)"
proof -
  have "list_all (\<lambda>c. of_char c < (0x80 :: nat)) name \<Longrightarrow> utf16_text name = Some (map of_char name)"
    by (induction name) (simp_all add: utf8_first_def utf16_units_def of_nat_of_char)
  then show "list_all (\<lambda>c. of_char c < (0x80 :: nat)) name \<Longrightarrow> make_wide_string name = Inr (map of_char name)"
    by (simp add: make_wide_string_def)
qed

section \<open>Properties\<close>

text \<open>A Windows socket is created exactly for a name of 1 to 250 bytes of UTF-8 and 1 to 255 instances for
  which the system gives a pipe; it then asks for the pipe under the prefix with every backslash of the
  name replaced, up to its first NUL, keeps the handle, and counts as created with no peer. A name of ASCII
  characters is asked for character by character.\<close>

theorem win_socket_create_spec:
  "(win_socket_create hex create_pipe env name max_instances type mode is_unique = Inr s \<longleftrightarrow>
    name \<noteq> [] \<and> length name \<le> 250 \<and> 1 \<le> max_instances \<and> max_instances \<le> 255 \<and>
    (\<exists>ws. make_wide_string (pipe_prefix @ map (\<lambda>v. if v = CHR 0x5C then CHR 0x2F else v) name @ [CHR 0x00]) = Inr ws \<and>
      (let h = fst (create_pipe (wide_c_str ws) (pipe_open_mode is_unique) (pipe_mode type mode) max_instances) in
       h \<noteq> -1 \<and> s = \<lparr>ws_handle = h, ws_created = True, ws_session = 0, ws_process = 0\<rparr>))) \<and>
   (list_all (\<lambda>c. of_char c < (0x80 :: nat)) name \<longrightarrow> make_wide_string name = Inr (map of_char name))"
  by (auto simp: win_socket_create_def validate_create_param_def max_path_minus_prefix_def create_logic_iff
      make_windows_compatible_def win_socket_make_def win_set_connected_def rbind_eq_Inr_iff Let_def make_wide_ascii
      split: if_splits)

theorem win_socket_create_spec_witness:
  "make_wide_string ''ab'' = Inr [0x61, 0x62] \<and>
   make_wide_string [CHR 0x61, CHR 0xE2, CHR 0x82, CHR 0xAC, CHR 0xF0, CHR 0x9F, CHR 0x98, CHR 0x80] =
     Inr [0x61, 0x20AC, 0xD83D, 0xDE00] \<and>
   make_wide_string [CHR 0xC3] = Inl (Exception ''bad conversion'')"
proof -
  have "make_wide_string ''ab'' = Inr (map of_char ''ab'')"
    using win_socket_create_spec [of "\<lambda>_. [CHR 0x30]" "\<lambda>_ _ _ _. (5, 0)" undefined "''ab''"] by simp
  then show ?thesis by (simp add: make_wide_string_def utf8_first_def utf16_units_def numeral_2_eq_2 numeral_3_eq_3)
qed

text \<open>What connected means on Windows: the queries name a peer with non-zero process and session that
  are the ones remembered, and the pipe can be peeked. A change of peer clears the memory, and from then
  on, whatever the system answers, the socket is not connected until it is marked connected anew. A peer
  in session 0 is never connected.\<close>

theorem win_is_connected_spec:
  "(fst (win_is_connected env s) \<longleftrightarrow>
      peek_ok env \<and> peer_ids env s = Some (ws_process s, ws_session s) \<and> ws_process s \<noteq> 0 \<and> ws_session s \<noteq> 0) \<and>
   (snd (win_is_connected env s) = s \<or>
    (\<forall>env'. win_is_connected env' (snd (win_is_connected env s)) = (False, snd (win_is_connected env s))))"
proof
  show "fst (win_is_connected env s) \<longleftrightarrow>
      peek_ok env \<and> peer_ids env s = Some (ws_process s, ws_session s) \<and> ws_process s \<noteq> 0 \<and> ws_session s \<noteq> 0"
    by (cases "peer_ids env s") (auto simp: win_is_connected_def split: if_splits)
  have "snd (win_is_connected env s) = s \<or> snd (win_is_connected env s) = s\<lparr>ws_process := 0, ws_session := 0\<rparr>"
    by (cases "peer_ids env s") (auto simp: win_is_connected_def)
  then show "snd (win_is_connected env s) = s \<or>
      (\<forall>env'. win_is_connected env' (snd (win_is_connected env s)) = (False, snd (win_is_connected env s)))"
    using win_cleared_not_connected [of "s\<lparr>ws_process := 0, ws_session := 0\<rparr>"] by auto
qed

text \<open>Accepting on Windows with a fresh request and a callback. A socket that was not created is an
  error. A pending connect runs no callback and leaves a valid request in flight. In every other case the
  socket records the outcome first and the callback then runs exactly once, with the code that is
  returned, on a request whose callbacks are both used up and which is valid only if the client was
  already connected.\<close>

theorem win_accept_spec:
  "win_accept env client err None (Some c) (s, x) =
    (let ec = translate_code err;
         ar = \<lparr>op_valid = (ec = E_Connected), op_callback = Some (Client_Cb c), op_callback_called = True,
               sys_callback = Some Handle_Accept, sys_callback_called = True, req_handle = ws_handle s,
               io_pending = False\<rparr> in
     if \<not> ws_created s then ((s, x), Inr (E_Error, None))
     else if ec = E_Pending then
       ((s, x), Inr (E_Pending, Some (ar\<lparr>op_valid := True, op_callback_called := False,
                                        sys_callback_called := False, io_pending := True\<rparr>)))
     else ebind (client c ec 0 ar) (\<lambda>ar. ereturn (ec, Some ar)) (win_handle_accept_callback env ec 0 s, x))"
  by (simp add: win_accept_def win_is_created_def request_for_def win_request_make_def set_callback_def
      set_system_callback_def win_is_valid_def win_set_handle_def win_set_valid_def win_call_callback_def
      elift_def ebind_def ereturn_def Let_def split: prod.splits sum.splits)

text \<open>A transfer on a socket whose peer is gone touches neither the request nor the world and reports
  \<open>Disconnected\<close>; on a connected one a started transfer leaves a valid request in flight with the new
  callback armed, and a failed one runs the callback at once with the code that is returned.\<close>

theorem win_read_spec:
  assumes "\<not> (op_valid ar \<and> io_pending ar)" and "sys_callback ar = None"
  shows "win_read env client suc err len (Some ar) (Some c) (s, x) =
    (let ec = translate_code err;
         armed = ar\<lparr>op_callback := Some (Client_Cb c), req_handle := ws_handle s, op_valid := False,
                    op_callback_called := False\<rparr> in
     if \<not> fst (win_is_connected env s) then ((snd (win_is_connected env s), x), Inr (E_Disconnected, Some ar))
     else if suc then ((s, x), Inr (ec, Some (armed\<lparr>op_valid := True, io_pending := True\<rparr>)))
     else ebind (client c ec len (armed\<lparr>op_callback_called := True\<rparr>)) (\<lambda>ar. ereturn (ec, Some ar)) (s, x))"
proof (cases "win_is_connected env s")
  case (Pair b s')
  have s': "b \<Longrightarrow> s' = s"
    using Pair by (auto simp: win_is_connected_def split: option.splits if_splits)
  show ?thesis
    using assms Pair s'
    by (cases b)
      (simp_all add: win_read_def request_for_def set_callback_def win_is_valid_def win_is_complete_def
        win_set_handle_def win_set_valid_def win_call_callback_def elift_def ebind_def ereturn_def Let_def)
qed

definition silent_pipe :: pipe_env where
  "silent_pipe = \<lparr>client_process = None, client_session = None, server_process = None, server_session = None,
     peek_ok = True\<rparr>"

theorem win_read_spec_witness:
  "snd (win_read silent_pipe (\<lambda>_ _ _ op w. (w, Inr op)) True 0 8 (Some (win_request_make None)) (Some (1 :: nat))
      (win_socket_make silent_pipe, 2 :: nat)) = Inr (E_Disconnected, Some (win_request_make None))"
proof -
  let ?r = "win_request_make None :: nat sock_cb win_request"
  have "\<not> (op_valid ?r \<and> io_pending ?r)" "sys_callback ?r = None"
    by (simp_all add: win_request_make_def)
  note spec = win_read_spec [OF this, of silent_pipe "\<lambda>_ _ _ op w. (w, Inr op)" True 0 8 1 "win_socket_make silent_pipe" "2 :: nat"]
  have "\<not> fst (win_is_connected silent_pipe (win_socket_make silent_pipe))"
    by (simp add: win_is_connected_def peer_ids_def silent_pipe_def)
  with spec show ?thesis by (simp add: Let_def)
qed

end
