(* ===== verification/Socket_Osx.thy ===== *)
theory Socket_Osx
  imports Async_Op
begin

text \<open>
  The macOS socket (\<open>apple/ipc-socket-osx.cpp\<close>): two named pipes, one for requests and one for replies,
  read and written in chunks of 8 KB. The system calls are arguments, as the lists of their answers; a
  loop that has used up the answers without returning has the value \<open>None\<close>. Buffers are shorter than
  \<open>2 ^ 31\<close> bytes, so the \<open>int\<close> counters of the code do not overflow.
\<close>

section \<open>State\<close>

datatype socket_type = REQUEST | REPLY

record osx_socket =
  os_created :: bool
  os_connected :: bool
  name_req :: string
  name_rep :: string
  fd_write :: int
  fd_read_b :: int
  fd_read_nb :: int

text \<open>
  The constructors; \<open>mkfifo_req\<close> and \<open>mkfifo_rep\<close> are the results of \<open>mkfifo\<close>.
\<close>

definition osx_socket_create :: "int \<Rightarrow> int \<Rightarrow> string \<Rightarrow> osx_socket result" where
  "osx_socket_create mkfifo_req mkfifo_rep name =
     (if mkfifo_req < 0 then Inl (Exception ''Could not create request pipe'')
      else if mkfifo_rep < 0 then Inl (Exception ''Could not create reply pipe'')
      else Inr \<lparr>os_created = True, os_connected = True, name_req = name @ ''-req'', name_rep = name @ ''-rep'',
                fd_write = -1, fd_read_b = -1, fd_read_nb = -1\<rparr>)"

definition osx_socket_open :: "string \<Rightarrow> osx_socket" where
  "osx_socket_open name =
     \<lparr>os_created = False, os_connected = True, name_req = name @ ''-req'', name_rep = name @ ''-rep'',
      fd_write = -1, fd_read_b = -1, fd_read_nb = -1\<rparr>"

definition osx_is_created :: "osx_socket \<Rightarrow> bool" where
  "osx_is_created s = os_created s"

definition osx_is_connected :: "osx_socket \<Rightarrow> bool" where
  "osx_is_connected s = os_connected s"

definition osx_set_connected :: "bool \<Rightarrow> osx_socket \<Rightarrow> osx_socket" where
  "osx_set_connected connected s = s\<lparr>os_connected := connected\<rparr>"

definition osx_handle_accept_callback :: "os_error \<Rightarrow> nat \<Rightarrow> osx_socket \<Rightarrow> osx_socket" where
  "osx_handle_accept_callback code len s =
     (if code = E_Connected \<or> code = E_Success then osx_set_connected True s
      else osx_set_connected False s)"

text \<open>The descriptors \<open>clean_file_descriptors\<close> closes, and the names it removes.\<close>

definition clean_file_descriptors :: "osx_socket \<Rightarrow> int list \<times> string list" where
  "clean_file_descriptors s =
     (filter (\<lambda>fd. 0 < fd) [fd_write s, fd_read_b s, fd_read_nb s], [name_req s, name_rep s])"

section \<open>Reading\<close>

text \<open>The answers of \<open>::read\<close>: some bytes, end of file, or an error.\<close>

datatype sys_read = Got buffer | Eof | Fail

fun sys_ret :: "sys_read \<Rightarrow> int" where
  "sys_ret (Got bs) = int (length bs)"
| "sys_ret Eof = 0"
| "sys_ret Fail = -1"

definition chunk_size :: nat where
  "chunk_size = 8 * 1024"

text \<open>
  The two nested loops of \<open>read\<close>, one system call per step. \<open>chunk\<close> says that the next call is the one of
  the inner loop: it reads up to a chunk and copies it behind what was read so far, at \<open>offset\<close>. The call
  of the outer loop reads into the start of the buffer.
\<close>

definition inner_goes_on :: "int \<Rightarrow> bool" where
  "inner_goes_on ret \<longleftrightarrow> ret \<noteq> 0 \<and> (ret = int chunk_size - 8 \<or> ret = int chunk_size \<or> ret < 0)"

fun osx_read_loop :: "bool \<Rightarrow> sys_read list \<Rightarrow> nat \<Rightarrow> buffer \<Rightarrow> (buffer \<times> sys_read list) result option" where
  "osx_read_loop chunk [] offset buf = None"
| "osx_read_loop chunk (a # answers) offset buf =
     (case (case a of Got bs \<Rightarrow> poke buf (if chunk then offset else 0) bs | _ \<Rightarrow> Inr buf) of
        Inl e \<Rightarrow> Some (Inl e)
      | Inr buf \<Rightarrow>
          let ret = sys_ret a; offset = offset + nat ret in
          if inner_goes_on ret then osx_read_loop True answers offset buf
          else if ret \<le> 0 then osx_read_loop False answers offset buf
          else Some (Inr (buf, answers)))"

text \<open>
  \<open>read\<close>: \<open>opened\<close> is the descriptor \<open>open\<close> returns. The result is the code, the socket and the buffer. A
  blocking read leaves its descriptor open; the other one closes both, and keeps their numbers.
\<close>

definition osx_read ::
  "int \<Rightarrow> sys_read list \<Rightarrow> nat \<Rightarrow> bool \<Rightarrow> osx_socket \<Rightarrow> buffer \<Rightarrow> (os_error \<times> osx_socket \<times> buffer) result option"
where
  "osx_read opened answers buffer_length is_blocking s buf =
     (let s = (if is_blocking then s\<lparr>fd_read_b := opened\<rparr> else s\<lparr>fd_read_nb := opened\<rparr>) in
      if opened < 0 then Some (Inr (E_Error, s, buf))
      else (case osx_read_loop False answers 0 buf of
              None \<Rightarrow> None
            | Some (Inl e) \<Rightarrow> Some (Inl e)
            | Some (Inr (buf, _)) \<Rightarrow> Some (Inr (E_Success, s, buf))))"

section \<open>Writing\<close>

text \<open>
  The loop for a buffer longer than a chunk. Each step reopens the pipe when it was closed, writes one
  chunk and closes it again; \<open>answers\<close> are, per step, the descriptor \<open>open\<close> returns if it is called and the
  result of \<open>::write\<close>. The value is what the pipe received, per call, the descriptor and the last result.
\<close>

definition received :: "int \<Rightarrow> buffer \<Rightarrow> buffer" where
  "received ret bs = take (nat ret) bs"

function osx_write_loop ::
  "buffer \<Rightarrow> nat \<Rightarrow> (int \<times> int) list \<Rightarrow> int \<Rightarrow> buffer list \<Rightarrow> int \<Rightarrow> (buffer list \<times> int \<times> int) option"
where
  "osx_write_loop buf size_wrote answers fd sent ret =
     (if size_wrote < length buf then
        (case answers of
           [] \<Rightarrow> None
         | (reopened, ret) # answers \<Rightarrow>
             let fd = (if fd < 0 then reopened else fd);
                 at_end = length buf - size_wrote \<le> chunk_size;
                 size_to_write = (if at_end then length buf - size_wrote else chunk_size);
                 sent = sent @ [received ret (take size_to_write (drop size_wrote buf))] in
             if ret < 0 then Some (sent, fd, ret)
             else osx_write_loop buf (size_wrote + size_to_write) answers (-1) sent ret)
      else Some (sent, fd, ret))"
  by pat_completeness auto
termination
  by (relation "measure (\<lambda>(buf, size_wrote, answers, fd, sent, ret). length buf - size_wrote)")
    (auto simp: chunk_size_def)

declare osx_write_loop.simps [simp del]

definition osx_write ::
  "int \<Rightarrow> (int \<times> int) list \<Rightarrow> buffer \<Rightarrow> osx_socket \<Rightarrow> (os_error \<times> buffer list \<times> osx_socket) option"
where
  "osx_write opened answers buf s =
     (let s = s\<lparr>fd_write := opened\<rparr> in
      if opened < 0 then Some (E_Error, [], s)
      else if length buf \<le> chunk_size then
        (case answers of
           [] \<Rightarrow> None
         | (_, ret) # _ \<Rightarrow> Some (if ret < 0 then E_Error else E_Success, [received ret buf], s))
      else
        (case osx_write_loop buf 0 answers opened [] 0 of
           None \<Rightarrow> None
         | Some (sent, fd, ret) \<Rightarrow> Some (if ret < 0 then E_Error else E_Success, sent, s\<lparr>fd_write := fd\<rparr>)))"

section \<open>Accepting\<close>

text \<open>The code is always \<open>Connected\<close>, so the callbacks run at once.\<close>

datatype 'c osx_cb = Osx_Handle_Accept | Osx_Client_Cb 'c

type_synonym ('c, 'x) osx_client_runner =
  "'c \<Rightarrow> os_error \<Rightarrow> nat \<Rightarrow> 'c osx_cb osx_request \<Rightarrow> (osx_socket \<times> 'x, 'c osx_cb osx_request) effect"

fun run_osx_cb ::
  "('c, 'x) osx_client_runner \<Rightarrow> ('c osx_cb, 'c osx_cb osx_request, osx_socket \<times> 'x) runner"
where
  "run_osx_cb client Osx_Handle_Accept ec len op (s, x) = ((osx_handle_accept_callback ec len s, x), Inr op)"
| "run_osx_cb client (Osx_Client_Cb c) ec len op (s, x) = client c ec len op (s, x)"

definition osx_accept ::
  "('c, 'x) osx_client_runner \<Rightarrow> 'c osx_cb osx_request option \<Rightarrow> 'c option
   \<Rightarrow> (osx_socket \<times> 'x, os_error \<times> 'c osx_cb osx_request option) effect"
where
  "osx_accept client op cb = (\<lambda>(s, x).
     if \<not> osx_is_created s then ((s, x), Inr (E_Error, op))
     else
       let ar = (case op of None \<Rightarrow> osx_request_make None | Some ar \<Rightarrow> ar) in
       case set_callback osx_is_valid osx_is_complete (map_option Osx_Client_Cb cb) ar of
         Inl e \<Rightarrow> ((s, x), Inl e)
       | Inr ar \<Rightarrow>
           (case set_system_callback osx_is_valid osx_is_complete (Some Osx_Handle_Accept) ar of
              Inl e \<Rightarrow> ((s, x), Inl e)
            | Inr ar \<Rightarrow>
                let ar = osx_set_sem 0 ar; s = s\<lparr>os_connected := True\<rparr>; ec = E_Connected in
                if ec \<noteq> E_Pending \<and> ec \<noteq> E_Connected then
                  ebind (osx_call_callback (run_osx_cb client) ec 0 ar) (\<lambda>ar. ereturn (ec, Some ar)) (s, x)
                else
                  let ar = osx_set_valid True ar in
                  if ec = E_Connected then
                    ebind (osx_call_callback (run_osx_cb client) ec 0 ar) (\<lambda>ar. ereturn (ec, Some ar)) (s, x)
                  else ((s, x), Inr (ec, Some ar))))"

section \<open>Lemmas\<close>

text \<open>What a reader sees of chunks: each after some failed calls, as of a non-blocking descriptor.\<close>

definition chunk_answers :: "(nat \<times> buffer) list \<Rightarrow> sys_read list" where
  "chunk_answers ncs = concat (map (\<lambda>(n, c). replicate n Fail @ [Got c]) ncs)"

definition chunk_bytes :: "(nat \<times> buffer) list \<Rightarrow> buffer" where
  "chunk_bytes ncs = concat (map snd ncs)"

lemma chunk_simps [simp]:
  "chunk_answers [] = []" "chunk_answers ((n, c) # ncs) = replicate n Fail @ Got c # chunk_answers ncs"
  "chunk_bytes [] = []" "chunk_bytes ((n, c) # ncs) = c @ chunk_bytes ncs"
  by (simp_all add: chunk_answers_def chunk_bytes_def)

text \<open>A chunk after which the loop goes on: as long as a whole one, or as the rest of one after a header.\<close>

definition long_chunk :: "nat \<times> buffer \<Rightarrow> bool" where
  "long_chunk nc \<longleftrightarrow> length (snd nc) = 8184 \<or> length (snd nc) = 8192"

lemma goes_on_long: "inner_goes_on (int (length c)) \<longleftrightarrow> long_chunk (n, c)"
  by (auto simp: inner_goes_on_def long_chunk_def chunk_size_def)

lemma osx_read_loop_start: "osx_read_loop False answers 0 buf = osx_read_loop True answers 0 buf"
  by (cases answers) (auto split: sys_read.split)

lemma osx_read_loop_fails:
  "osx_read_loop True (replicate n Fail @ answers) offset buf = osx_read_loop True answers offset buf"
  by (induction n) (simp_all add: inner_goes_on_def)

lemma osx_read_loop_chunks:
  "list_all long_chunk ncs \<Longrightarrow> offset + length (chunk_bytes ncs) \<le> length buf \<Longrightarrow>
   osx_read_loop True (chunk_answers ncs @ answers) offset buf =
     osx_read_loop True answers (offset + length (chunk_bytes ncs))
       (take offset buf @ chunk_bytes ncs @ drop (offset + length (chunk_bytes ncs)) buf)"
proof (induction ncs arbitrary: offset buf)
  case (Cons nc ncs)
  obtain n c where nc: "nc = (n, c)" by (cases nc)
  then have "inner_goes_on (int (length c))" using Cons.prems by (simp add: goes_on_long [of c n])
  then show ?case
    using Cons.prems Cons.IH [of "offset + length c" "take offset buf @ c @ drop (offset + length c) buf"]
    by (simp add: nc osx_read_loop_fails poke_def add.assoc ac_simps)
qed (simp add: append_take_drop_id)

lemma osx_read_loop_overflow:
  "list_all long_chunk ncs \<Longrightarrow> offset \<le> length buf \<Longrightarrow> length buf < offset + length (chunk_bytes ncs) \<Longrightarrow>
   osx_read_loop True (chunk_answers ncs @ answers) offset buf = Some (Inl Bad_Access)"
proof (induction ncs arbitrary: offset buf)
  case (Cons nc ncs)
  obtain n c where nc: "nc = (n, c)" by (cases nc)
  then have g: "inner_goes_on (int (length c))" using Cons.prems by (simp add: goes_on_long [of c n])
  show ?case
  proof (cases "offset + length c \<le> length buf")
    case True
    then show ?thesis
      using Cons.prems g Cons.IH [of "offset + length c" "take offset buf @ c @ drop (offset + length c) buf"]
      by (simp add: nc osx_read_loop_fails poke_def)
  qed (simp add: nc osx_read_loop_fails poke_def)
qed simp

lemma chunk_answers_snoc: "chunk_answers (ncs @ [(n, c)]) = chunk_answers ncs @ replicate n Fail @ [Got c]"
  by (simp add: chunk_answers_def)

lemma chunk_bytes_snoc: "chunk_bytes (ncs @ [(n, c)]) = chunk_bytes ncs @ c"
  by (simp add: chunk_bytes_def)

text \<open>The chunks of a frame: as the writer cuts it.\<close>

function chunks_of :: "buffer \<Rightarrow> buffer list" where
  "chunks_of buf = (if length buf \<le> chunk_size then [buf] else take chunk_size buf # chunks_of (drop chunk_size buf))"
  by pat_completeness auto
termination by (relation "measure length") (auto simp: chunk_size_def)

declare chunks_of.simps [simp del]

lemma concat_chunks_of: "concat (chunks_of buf) = buf"
  by (induction buf rule: chunks_of.induct) (subst chunks_of.simps, simp)

lemma chunks_of_shape:
  "buf \<noteq> [] \<Longrightarrow> \<exists>cs c. chunks_of buf = cs @ [c] \<and> list_all (\<lambda>c. length c = chunk_size) cs \<and> c \<noteq> [] \<and>
     length c \<le> chunk_size \<and> length buf = length cs * chunk_size + length c"
proof (induction buf rule: chunks_of.induct)
  case (1 buf)
  show ?case
  proof (cases "length buf \<le> chunk_size")
    case True
    then show ?thesis using 1(2) by (intro exI [of _ "[]"] exI [of _ buf]) (subst chunks_of.simps, simp)
  next
    case False
    then have "drop chunk_size buf \<noteq> []" by simp
    with 1(1) [OF False] obtain cs c where c: "chunks_of (drop chunk_size buf) = cs @ [c]"
        "list_all (\<lambda>c. length c = chunk_size) cs" "c \<noteq> []" "length c \<le> chunk_size"
        "length (drop chunk_size buf) = length cs * chunk_size + length c" by blast
    then show ?thesis using False
      by (intro exI [of _ "take chunk_size buf # cs"] exI [of _ c]) (subst chunks_of.simps, simp)
  qed
qed

text \<open>
  A reference for \<open>write\<close>: what the pipe gets of the chunks, until a call fails, and whether one does.
\<close>

fun written :: "buffer list \<Rightarrow> (int \<times> int) list \<Rightarrow> buffer list" where
  "written (c # cs) ((_, ret) # answers) = received ret c # (if ret < 0 then [] else written cs answers)"
| "written _ _ = []"

definition none_fails :: "buffer list \<Rightarrow> (int \<times> int) list \<Rightarrow> bool" where
  "none_fails cs answers \<longleftrightarrow> list_all (\<lambda>(_, ret). 0 \<le> ret) (take (length cs) answers)"

lemma chunks_of_cases:
  obtains (last) "length buf \<le> chunk_size" and "chunks_of buf = [buf]"
  | (more) "chunk_size < length buf" and "chunks_of buf = take chunk_size buf # chunks_of (drop chunk_size buf)"
  using chunks_of.simps [of buf] by (cases "length buf \<le> chunk_size") auto

lemma osx_write_loop_spec:
  "size_wrote < length buf \<Longrightarrow> length (chunks_of (drop size_wrote buf)) \<le> length answers \<Longrightarrow>
   \<exists>fd' ret. osx_write_loop buf size_wrote answers fd sent r =
       Some (sent @ written (chunks_of (drop size_wrote buf)) answers, fd', ret) \<and>
     (0 \<le> ret \<longleftrightarrow> none_fails (chunks_of (drop size_wrote buf)) answers)"
proof (induction "length buf - size_wrote" arbitrary: size_wrote answers fd sent r rule: less_induct)
  case less
  let ?d = "drop size_wrote buf"
  have "chunks_of ?d \<noteq> []" by (cases rule: chunks_of_cases [of ?d]) simp_all
  then obtain o1 ret as where answers: "answers = (o1, ret) # as" using less.prems(2) by (cases answers) auto
  have done_: "osx_write_loop buf (length buf) as d s q = Some (s, d, q)" for d s q
    by (subst osx_write_loop.simps) simp
  show ?case
  proof (cases rule: chunks_of_cases [of ?d])
    case last
    then show ?thesis using less.prems
      by (subst osx_write_loop.simps) (auto simp: Let_def answers done_ none_fails_def)
  next
    case more
    have "length buf - (size_wrote + chunk_size) < length buf - size_wrote" "size_wrote + chunk_size < length buf"
      "length (chunks_of (drop (size_wrote + chunk_size) buf)) \<le> length as"
      using more less.prems by (auto simp: answers chunk_size_def add.commute)
    note ih = less.hyps [OF this, of "-1" "sent @ [received ret (take chunk_size ?d)]" ret]
    show ?thesis
    proof (cases "ret < 0")
      case True
      then show ?thesis using less.prems(1) more
        by (subst osx_write_loop.simps) (simp add: Let_def answers none_fails_def)
    next
      case False
      then show ?thesis using less.prems(1) more ih
        by (subst osx_write_loop.simps) (simp add: Let_def answers none_fails_def add.commute)
    qed
  qed
qed

lemma osx_write_returns:
  assumes "0 \<le> opened" and "length (chunks_of buf) \<le> length answers"
  shows "\<exists>s'. osx_write opened answers buf s =
    Some (if none_fails (chunks_of buf) answers then E_Success else E_Error, written (chunks_of buf) answers, s')"
proof (cases rule: chunks_of_cases [of buf])
  case last
  then obtain o1 ret as where "answers = (o1, ret) # as" using assms(2) by (cases answers) auto
  then show ?thesis using last assms(1) by (auto simp: osx_write_def Let_def none_fails_def)
next
  case more
  have "0 < length buf" using more(1) by linarith
  from osx_write_loop_spec [OF this, of answers opened "[]" 0] obtain fd ret where
    "osx_write_loop buf 0 answers opened [] 0 = Some (written (chunks_of buf) answers, fd, ret)"
    "0 \<le> ret \<longleftrightarrow> none_fails (chunks_of buf) answers"
    using assms(2) by auto
  then show ?thesis using more(1) assms(1) by (auto simp: osx_write_def Let_def)
qed

text \<open>The answers of a pipe that takes every chunk whole, each time reopened as \<open>fd\<close>.\<close>

definition whole_writes :: "int \<Rightarrow> buffer list \<Rightarrow> (int \<times> int) list" where
  "whole_writes fd cs = map (\<lambda>c. (fd, int (length c))) cs"

lemma written_whole: "written cs (whole_writes fd cs) = cs" "none_fails cs (whole_writes fd cs)"
  by (induction cs) (simp_all add: whole_writes_def received_def none_fails_def)

lemma osx_write_whole:
  assumes "0 \<le> opened"
  shows "\<exists>s'. osx_write opened (whole_writes opened (chunks_of buf)) buf s = Some (E_Success, chunks_of buf, s')"
  using osx_write_returns [OF assms, of buf "whole_writes opened (chunks_of buf)" s] written_whole
  by (simp add: whole_writes_def)

lemma osx_read_ends:
  assumes "list_all long_chunk ncs" and "c \<noteq> []" and "\<not> long_chunk (n, c)" and "0 \<le> opened"
  shows "\<exists>s'. osx_read opened (chunk_answers (ncs @ [(n, c)]) @ rest) len blocking s buf =
    (let bytes = chunk_bytes (ncs @ [(n, c)]) in
     if length bytes \<le> length buf then Some (Inr (E_Success, s', bytes @ drop (length bytes) buf))
     else Some (Inl Bad_Access))"
proof -
  let ?k = "length (chunk_bytes ncs)"
  have g: "\<not> inner_goes_on (int (length c))" using assms(3) by (simp add: goes_on_long [of c n])
  have last: "osx_read_loop True (replicate n Fail @ Got c # rest) ?k buf' =
      (case poke buf' ?k c of Inl e \<Rightarrow> Some (Inl e) | Inr buf' \<Rightarrow> Some (Inr (buf', rest)))" for buf'
    using g assms(2) by (simp add: osx_read_loop_fails split: sum.split)
  have loop: "osx_read_loop False (chunk_answers (ncs @ [(n, c)]) @ rest) 0 buf =
      (if ?k + length c \<le> length buf
       then Some (Inr (chunk_bytes (ncs @ [(n, c)]) @ drop (?k + length c) buf, rest)) else Some (Inl Bad_Access))"
  proof (cases "?k \<le> length buf")
    case True
    then show ?thesis
      using osx_read_loop_chunks [OF assms(1), of 0 buf "replicate n Fail @ Got c # rest"]
      by (simp add: osx_read_loop_start chunk_answers_snoc chunk_bytes_snoc last poke_def add.commute)
  next
    case False
    then show ?thesis
      using osx_read_loop_overflow [OF assms(1), of 0 buf "replicate n Fail @ Got c # rest"]
      by (simp add: osx_read_loop_start chunk_answers_snoc)
  qed
  then show ?thesis using assms(4) by (simp add: osx_read_def Let_def chunk_bytes_snoc)
qed

text \<open>
  After chunks that are all long the loop asks for another one; from an empty pipe it never gets it.
\<close>

lemma osx_read_hangs:
  assumes "list_all long_chunk ncs" and "ncs \<noteq> []" and "length (chunk_bytes ncs) \<le> length buf" and "0 \<le> opened"
  shows "osx_read opened (chunk_answers ncs @ replicate k Fail) len blocking s buf = None"
proof -
  have "osx_read_loop True (replicate k Fail) off buf' = None" for off buf'
    using osx_read_loop_fails [of k "[]"] by simp
  then show ?thesis
    using osx_read_loop_chunks [OF assms(1), of 0 buf] assms
    by (simp add: osx_read_def osx_read_loop_start Let_def)
qed

section \<open>Properties\<close>

text \<open>Reading chunks on macOS. When the pipe hands out chunks that are all as long as a whole chunk, or
  as the rest of one behind a header, except a shorter non-empty last one, with any number of failed
  calls in between, the read returns with exactly these bytes at the start of the buffer if they fit, and
  writes past the end of the buffer if they do not.\<close>

theorem osx_read_spec:
  assumes "list_all long_chunk ncs" and "c \<noteq> []" and "\<not> long_chunk (n, c)" and "0 \<le> opened"
  shows "\<exists>s'. osx_read opened (chunk_answers (ncs @ [(n, c)]) @ rest) len blocking s buf =
    (let bytes = chunk_bytes (ncs @ [(n, c)]) in
     if length bytes \<le> length buf then Some (Inr (E_Success, s', bytes @ drop (length bytes) buf))
     else Some (Inl Bad_Access))"
  using assms by (rule osx_read_ends)

theorem osx_read_spec_witness:
  "\<exists>s'. osx_read 3 (chunk_answers ([] @ [(2, ''abc'')]) @ []) 4 False (osx_socket_open ''p'') ''....'' =
     Some (Inr (E_Success, s', ''abc.''))"
proof -
  have "list_all long_chunk []" "''abc'' \<noteq> []" "\<not> long_chunk (2, ''abc'')" "(0 :: int) \<le> 3"
    by (simp_all add: long_chunk_def)
  from osx_read_spec [OF this, of "[]" 4 False "osx_socket_open ''p''" "''....''"] show ?thesis
    by (simp add: chunk_bytes_def)
qed

text \<open>Writing on macOS when the pipe takes every chunk whole: the buffer goes out in chunks of 8192
  bytes and a last one of 1 to 8192, which together are the buffer, and the write succeeds.\<close>

theorem osx_write_complete:
  assumes "0 \<le> opened"
  shows "\<exists>s'. osx_write opened (whole_writes opened (chunks_of buf)) buf s = Some (E_Success, chunks_of buf, s') \<and>
    concat (chunks_of buf) = buf"
  using osx_write_whole [OF assms] by (auto simp: concat_chunks_of)

theorem osx_write_complete_witness:
  "\<exists>s'. osx_write 4 [(4, 3)] ''abc'' (osx_socket_open ''p'') = Some (E_Success, [''abc''], s')"
proof -
  have "(0 :: int) \<le> 4" by simp
  moreover have "chunks_of ''abc'' = [''abc'']" by (subst chunks_of.simps) (simp add: chunk_size_def)
  ultimately show ?thesis using osx_write_complete [of 4 "''abc''" "osx_socket_open ''p''"] by (simp add: whole_writes_def)
qed

text \<open>C24. Writing on macOS returns, and does what the reference says: with an answer for every chunk, whatever the
  answers are, the loop ends; the pipe gets of each chunk in order as much as the call took, until one fails; and the
  write succeeds exactly if no call failed. A call that took only a part of its chunk counts as one that took it all.\<close>

theorem osx_write_spec:
  assumes "0 \<le> opened" and "length (chunks_of buf) \<le> length answers"
  shows "\<exists>s'. osx_write opened answers buf s =
    Some (if list_all (\<lambda>(_, ret). 0 \<le> ret) (take (length (chunks_of buf)) answers) then E_Success else E_Error,
      written (chunks_of buf) answers, s')"
  using osx_write_returns [OF assms] by (simp add: none_fails_def)

theorem osx_write_spec_witness:
  "let buf = replicate 10000 CHR ''a'' in
   \<exists>s'. osx_write 4 [(4, 100), (5, 1808)] buf (osx_socket_open ''p'') =
     Some (E_Success, [replicate 100 CHR ''a'', replicate 1808 CHR ''a''], s')"
proof -
  let ?b = "replicate 10000 CHR ''a''"
  have cs: "chunks_of ?b = [replicate 8192 CHR ''a'', replicate 1808 CHR ''a'']"
    by (subst chunks_of.simps, subst chunks_of.simps) (simp add: chunk_size_def)
  have "(0 :: int) \<le> 4" "length (chunks_of ?b) \<le> length [(4 :: int, 100 :: int), (5, 1808)]" by (simp_all add: cs)
  from osx_write_spec [OF this, of "osx_socket_open ''p''"] show ?thesis by (simp add: cs received_def)
qed

text \<open>A short write on macOS goes unnoticed: when the pipe takes only \<open>r\<close> of the bytes of a buffer of
  at most one chunk, the write still succeeds, and the rest of the buffer is not sent.\<close>

theorem osx_write_short:
  assumes "length buf \<le> 8192" and "0 \<le> r" and "r \<le> int (length buf)" and "0 \<le> opened"
  shows "\<exists>sent s'. osx_write opened [(fd, r)] buf s = Some (E_Success, [sent], s') \<and>
    sent = take (nat r) buf \<and> length sent = nat r"
  using assms by (simp add: osx_write_def chunk_size_def received_def)

theorem osx_write_short_witness:
  "\<exists>s'. osx_write 4 [(4, 1)] ''abc'' (osx_socket_open ''p'') = Some (E_Success, [''a''], s')"
  using osx_write_short [of "''abc''" 1 4 4 "osx_socket_open ''p''"] by simp

text \<open>The body as the reader gets it: the chunks of the frame without the header, after gaps.\<close>

definition body_answers :: "(nat \<Rightarrow> nat) \<Rightarrow> buffer \<Rightarrow> (nat \<times> buffer) list" where
  "body_answers gaps frame = (case chunks_of frame of [] \<Rightarrow> [] | c # cs \<Rightarrow>
     zip (map gaps [0..<Suc (length cs)]) (drop 8 c # cs))"

lemma body_answers_shape:
  assumes "8 < length frame"
  shows "\<exists>ncs n c. body_answers gaps frame = ncs @ [(n, c)] \<and> list_all long_chunk ncs \<and> c \<noteq> [] \<and>
    chunk_bytes (ncs @ [(n, c)]) = drop 8 frame \<and>
    (long_chunk (n, c) \<longleftrightarrow> length frame mod 8192 = 0 \<or> (8192 < length frame \<and> length frame mod 8192 = 8184))"
proof -
  have "frame \<noteq> []" using assms by auto
  from chunks_of_shape [OF this] obtain cs c where c: "chunks_of frame = cs @ [c]"
      "list_all (\<lambda>c. length c = chunk_size) cs" "c \<noteq> []" "length c \<le> chunk_size"
      "length frame = length cs * chunk_size + length c" by blast
  have cat: "concat cs @ c = frame" using concat_chunks_of [of frame] c(1) by simp
  have m: "length frame mod 8192 = length c mod 8192" using c(5) by (simp add: chunk_size_def)
  show ?thesis
  proof (cases cs)
    case Nil
    then have cf: "c = frame" "chunks_of frame = [frame]" using cat c(1) by simp_all
    then have "body_answers gaps frame = [] @ [(gaps 0, drop 8 frame)]" by (simp add: body_answers_def)
    moreover have "long_chunk (gaps 0, drop 8 frame) \<longleftrightarrow>
        length frame mod 8192 = 0 \<or> (8192 < length frame \<and> length frame mod 8192 = 8184)"
      using c(4) cf(1) assms by (cases "length frame = 8192") (auto simp: long_chunk_def chunk_size_def)
    moreover have "drop 8 frame \<noteq> []" using assms by simp
    ultimately show ?thesis by (intro exI conjI) (assumption | simp add: chunk_bytes_def)+
  next
    case (Cons c0 cs')
    let ?ncs = "zip (map gaps [0..<Suc (length cs')]) (drop 8 c0 # cs')"
    have ba: "body_answers gaps frame = ?ncs @ [(gaps (Suc (length cs')), c)]"
      using zip_append [of "map gaps [0..<Suc (length cs')]" "drop 8 c0 # cs'" "[gaps (Suc (length cs'))]" "[c]"]
      by (simp add: body_answers_def c(1) Cons)
    moreover have "list_all long_chunk ?ncs"
      using c(2) Cons by (auto simp: list_all_iff long_chunk_def chunk_size_def dest!: set_zip_rightD)
    moreover have "map snd ?ncs = drop 8 c0 # cs'" by (simp add: map_snd_zip del: upt_Suc zip_Cons_Cons)
    moreover have "drop 8 c0 @ concat cs' @ c = drop 8 frame"
      using cat Cons c(2) by (auto simp: chunk_size_def)
    moreover have "long_chunk (n, c) \<longleftrightarrow> length frame mod 8192 = 0 \<or> (8192 < length frame \<and> length frame mod 8192 = 8184)" for n
      using c(3,4,5) Cons m by (auto simp: long_chunk_def chunk_size_def mod_if)
    ultimately show ?thesis using c(3)
      by (intro exI [of _ ?ncs] exI [of _ "gaps (Suc (length cs'))"] exI [of _ c]) (simp add: chunk_bytes_def)
  qed
qed

text \<open>C28. Which frames get through on macOS. A frame that was written whole, and is read as a header of 8
  bytes and then as its body chunk by chunk from a pipe that is empty in between and afterwards, is
  received exactly when its last chunk is not a long one; a frame whose length is a multiple of 8192, and
  one over 8192 bytes whose length is 8184 beyond such a multiple, keeps its reader waiting for ever.\<close>

theorem osx_frame_delivery:
  assumes "8 < length frame" and "0 \<le> opened"
  shows "let out = osx_read opened (chunk_answers (body_answers gaps frame) @ replicate k Fail) (length frame - 8) False s
        (replicate (length frame - 8) CHR 0x00) in
    if length frame mod 8192 = 0 \<or> (8192 < length frame \<and> length frame mod 8192 = 8184) then out = None
    else \<exists>s'. out = Some (Inr (E_Success, s', drop 8 frame))"
proof -
  obtain ncs n c where b: "body_answers gaps frame = ncs @ [(n, c)]" "list_all long_chunk ncs" "c \<noteq> []"
      "chunk_bytes (ncs @ [(n, c)]) = drop 8 frame"
      "long_chunk (n, c) \<longleftrightarrow> length frame mod 8192 = 0 \<or> (8192 < length frame \<and> length frame mod 8192 = 8184)"
    using body_answers_shape [OF assms(1)] by blast
  show ?thesis
  proof (cases "long_chunk (n, c)")
    case True
    then have "list_all long_chunk (ncs @ [(n, c)])" using b(2) by simp
    from osx_read_hangs [OF this, of "replicate (length frame - 8) CHR 0x00" opened k "length frame - 8" False s]
    show ?thesis using True b assms(2) by simp
  next
    case False
    from osx_read_ends [OF b(2,3) False assms(2), of "replicate k Fail" "length frame - 8" False s
        "replicate (length frame - 8) CHR 0x00"]
    show ?thesis using False b(1,4,5) by (auto simp: Let_def)
  qed
qed

theorem osx_frame_delivery_witness:
  "osx_read 3 (chunk_answers (body_answers (\<lambda>_. 1) (replicate 8192 CHR 0x61)) @ replicate 1000 Fail) 8184 False
     (osx_socket_open ''p'') (replicate 8184 CHR 0x00) = None"
proof -
  have "8 < length (replicate 8192 CHR 0x61)" "(0 :: int) \<le> 3" by simp_all
  from osx_frame_delivery [OF this, of "\<lambda>_. 1" 1000 "osx_socket_open ''p''"] show ?thesis
    by (simp add: Let_def)
qed

end
