(* ===== verification/Ipc_Server.thy ===== *)
theory Ipc_Server
  imports Ipc_Dispatch Socket_Win Socket_Osx
begin

text \<open>
  The life of \<open>ipc::server\<close> (\<open>source/ipc-server.cpp\<close>): \<open>initialize\<close>, \<open>finalize\<close>, the destructor, the
  watcher thread that accepts clients and notices dead ones, \<open>spawn_client\<close> and \<open>kill_client\<close>. The watcher
  goes through the sockets while it holds \<open>m_sockets_mtx\<close>, \<open>finalize\<close> and \<open>initialize\<close> hold it too: one
  pass of the watcher, one \<open>initialize\<close> and one \<open>finalize\<close> are atomic steps.
\<close>

section \<open>Clients\<close>

text \<open>
  \<open>server_instance::create\<close> gives a new instance, \<open>client\<close>. The value the connect handler returns is not
  used. Both handlers get the identifier 0.
\<close>

definition spawn_client :: "addr \<Rightarrow> addr \<Rightarrow> 'w server \<times> 'w \<Rightarrow> 'w server \<times> 'w" where
  "spawn_client client socket = (\<lambda>(s, w).
     let w = (case fst (m_handlerConnect s) of
                Some f \<Rightarrow> snd (f (snd (m_handlerConnect s)) 0 w) | None \<Rightarrow> w) in
     (s\<lparr>m_clients := map_assign socket client (m_clients s)\<rparr>, w))"

definition kill_client :: "addr \<Rightarrow> 'w server \<times> 'w \<Rightarrow> 'w server \<times> 'w" where
  "kill_client socket = (\<lambda>(s, w).
     let s = s\<lparr>m_clients := map_erase socket (m_clients s)\<rparr>;
         w = (case fst (m_handlerDisconnect s) of
                Some f \<Rightarrow> f (snd (m_handlerDisconnect s)) 0 w | None \<Rightarrow> w) in
     (s, w))"

text \<open>The copies of both for macOS, which also write a line to the console, do the same.\<close>

definition spawn_client_osx :: "addr \<Rightarrow> addr \<Rightarrow> 'w server \<times> 'w \<Rightarrow> 'w server \<times> 'w" where
  "spawn_client_osx client socket = (\<lambda>(s, w).
     let w = (case fst (m_handlerConnect s) of
                Some f \<Rightarrow> snd (f (snd (m_handlerConnect s)) 0 w) | None \<Rightarrow> w) in
     (s\<lparr>m_clients := map_assign socket client (m_clients s)\<rparr>, w))"

definition kill_client_osx :: "addr \<Rightarrow> 'w server \<times> 'w \<Rightarrow> 'w server \<times> 'w" where
  "kill_client_osx socket = (\<lambda>(s, w).
     let s = s\<lparr>m_clients := map_erase socket (m_clients s)\<rparr>;
         w = (case fst (m_handlerDisconnect s) of
                Some f \<Rightarrow> f (snd (m_handlerDisconnect s)) 0 w | None \<Rightarrow> w) in
     (s, w))"

lemma spawn_client_osx_eq [simp]: "spawn_client_osx = spawn_client"
  by (intro ext) (simp add: spawn_client_osx_def spawn_client_def)

lemma kill_client_osx_eq [simp]: "kill_client_osx = kill_client"
  by (intro ext) (simp add: kill_client_osx_def kill_client_def)

section \<open>Starting and stopping\<close>

text \<open>\<open>created\<close> is the new socket, or what its constructor threw.\<close>

definition initialize :: "addr result \<Rightarrow> string \<Rightarrow> 'w server \<Rightarrow> 'w server result" where
  "initialize created socketPath s =
     rbind created (\<lambda>socket.
     Inr (s\<lparr>m_sockets := m_sockets s @ [socket], m_isInitialized := True, m_socketPath := socketPath\<rparr>))"

text \<open>\<open>while (m_clients.size() > 0) kill_client(m_clients.begin()->first);\<close>\<close>

function kill_all :: "'w server \<times> 'w \<Rightarrow> 'w server \<times> 'w" where
  "kill_all (s, w) =
     (case m_clients s of
        [] \<Rightarrow> (s, w)
      | (socket, client) # _ \<Rightarrow> kill_all (kill_client socket (s, w)))"
  by pat_completeness auto
termination
  by (relation "measure (\<lambda>(s, w). length (m_clients s))")
    (auto simp: kill_client_def map_erase_def Let_def le_imp_less_Suc)

declare kill_all.simps [simp del]

definition finalize :: "'w server \<times> 'w \<Rightarrow> 'w server \<times> 'w" where
  "finalize = (\<lambda>(s, w).
     if \<not> m_isInitialized s then (s, w)
     else (case kill_all (s, w) of (s, w) \<Rightarrow> (s\<lparr>m_sockets := []\<rparr>, w)))"

definition server_destroy :: "'w server \<times> 'w \<Rightarrow> 'w server \<times> 'w" where
  "server_destroy sw = (case finalize sw of (s, w) \<Rightarrow> (s\<lparr>m_watcher_stop := True\<rparr>, w))"

section \<open>The watcher\<close>

text \<open>
  What the sockets answer during one pass: whether a socket is connected; for \<open>accept\<close> the code it
  returns and the code its callback was run with, if it was run; the address of a new instance and the
  time. A pending accept is kept with its start time.
\<close>

record watch_env =
  env_connected :: "addr \<Rightarrow> bool"
  env_accept :: "addr \<Rightarrow> os_error \<times> os_error option"
  env_instance :: "addr \<Rightarrow> addr"
  env_now :: int

text \<open>\<open>accept_client_cb\<close>\<close>

definition accept_client_cb :: "addr \<Rightarrow> addr \<Rightarrow> os_error \<Rightarrow> 'w server \<times> 'w \<Rightarrow> 'w server \<times> 'w" where
  "accept_client_cb client socket ec sw = (if ec = E_Connected then spawn_client client socket sw else sw)"

definition watch_socket ::
  "watch_env \<Rightarrow> addr \<Rightarrow> (addr, int) map_rep \<times> 'w server \<times> 'w \<Rightarrow> (addr, int) map_rep \<times> 'w server \<times> 'w"
where
  "watch_socket env socket = (\<lambda>(pa_map, s, w).
     if map_find (m_clients s) socket \<noteq> None then
       (if \<not> env_connected env socket then (pa_map, kill_client socket (s, w)) else (pa_map, s, w))
     else if map_find pa_map socket = None then
       (case env_accept env socket of
          (ec, fired) \<Rightarrow>
            let sw = (case fired of Some code \<Rightarrow> accept_client_cb (env_instance env socket) socket code (s, w)
                      | None \<Rightarrow> (s, w)) in
            if ec = E_Success then (map_assign socket (env_now env) pa_map, sw) else (pa_map, sw))
     else (pa_map, s, w))"

text \<open>One pass over the sockets.\<close>

definition watch_pass ::
  "watch_env \<Rightarrow> (addr, int) map_rep \<times> 'w server \<times> 'w \<Rightarrow> (addr, int) map_rep \<times> 'w server \<times> 'w"
where
  "watch_pass env st = fold (watch_socket env) (m_sockets (fst (snd st))) st"

text \<open>
  What follows a pass: the sockets with a pending accept are collected, and the thread sleeps for 20
  milliseconds when there is none. The collected requests are not waited for.
\<close>

definition watch_waits :: "(addr, int) map_rep \<Rightarrow> addr list" where
  "watch_waits pa_map = map fst pa_map"

definition watch_sleep :: "(addr, int) map_rep \<Rightarrow> int" where
  "watch_sleep pa_map = (if length (watch_waits pa_map) = 0 then 20 else 0)"

section \<open>The accept contract\<close>

text \<open>
  What the watcher relies on: the callback has run before \<open>accept\<close> returns, with the code that is
  returned, unless the code is \<open>Pending\<close>.
\<close>

definition accept_ok :: "os_error \<times> os_error option \<Rightarrow> bool" where
  "accept_ok r \<longleftrightarrow> snd r = (if fst r = E_Pending then None else Some (fst r))"

text \<open>Both sockets of the code keep to it, for a created socket and a fresh request.\<close>

locale accepting_socket =
  fixes created :: "'s \<Rightarrow> bool"
    and accept :: "'env \<Rightarrow> 's \<Rightarrow> os_error \<times> os_error option"
  assumes accept_runs: "created s \<Longrightarrow> accept_ok (accept env s)"
begin

lemma accept_fired: "created s \<Longrightarrow> fst (accept env s) \<noteq> E_Pending \<Longrightarrow> snd (accept env s) = Some (fst (accept env s))"
  using accept_runs [of s env] by (simp add: accept_ok_def)

lemma accept_pending: "created s \<Longrightarrow> fst (accept env s) = E_Pending \<Longrightarrow> snd (accept env s) = None"
  using accept_runs [of s env] by (simp add: accept_ok_def)

end

text \<open>
  The accepts of the two sockets with a callback that records its code. The watcher's callback also
  invalidates the request on Windows.
\<close>

definition win_accept_outcome :: "pipe_env \<times> u32 \<Rightarrow> win_socket \<Rightarrow> os_error \<times> os_error option" where
  "win_accept_outcome pe s =
     (case win_accept (fst pe) (\<lambda>c ec len op (s, x). ((s, Some ec), Inr (win_invalidate op))) (snd pe)
             None (Some ()) (s, None) of
        ((_, fired), Inr (ec, _)) \<Rightarrow> (ec, fired)
      | ((_, fired), Inl _) \<Rightarrow> (E_Error, fired))"

definition osx_accept_outcome :: "unit \<Rightarrow> osx_socket \<Rightarrow> os_error \<times> os_error option" where
  "osx_accept_outcome _ s =
     (case osx_accept (\<lambda>c ec len op (s, x). ((s, Some ec), Inr op)) None (Some ()) (s, None) of
        ((_, fired), Inr (ec, _)) \<Rightarrow> (ec, fired)
      | ((_, fired), Inl _) \<Rightarrow> (E_Error, fired))"

interpretation win_sock: accepting_socket ws_created win_accept_outcome
  by unfold_locales
    (simp add: win_accept_outcome_def win_accept_def win_is_created_def request_for_def win_request_make_def
      set_callback_def set_system_callback_def win_is_valid_def win_set_handle_def win_set_valid_def
      win_call_callback_def elift_def ebind_def ereturn_def Let_def accept_ok_def)

interpretation osx_sock: accepting_socket os_created osx_accept_outcome
  by unfold_locales
    (simp add: osx_accept_outcome_def osx_accept_def osx_is_created_def osx_request_make_def set_callback_def
      set_system_callback_def osx_is_valid_def osx_set_sem_def osx_set_valid_def osx_call_callback_def
      ebind_def ereturn_def Let_def accept_ok_def)

section \<open>One pass of the watcher\<close>

text \<open>What a pass makes of one socket: its client afterwards, and whether an accept is kept as pending.\<close>

definition client_after :: "watch_env \<Rightarrow> addr \<Rightarrow> addr option \<Rightarrow> bool \<Rightarrow> addr option" where
  "client_after env socket client pending =
     (if client \<noteq> None then (if env_connected env socket then client else None)
      else if \<not> pending \<and> snd (env_accept env socket) = Some E_Connected then Some (env_instance env socket)
      else None)"

definition pending_after :: "watch_env \<Rightarrow> addr \<Rightarrow> addr option \<Rightarrow> bool \<Rightarrow> bool" where
  "pending_after env socket client pending \<longleftrightarrow>
     pending \<or> (client = None \<and> fst (env_accept env socket) = E_Success)"

definition st_clients :: "(addr, int) map_rep \<times> 'w server \<times> 'w \<Rightarrow> (addr, addr) map_rep" where
  "st_clients st = m_clients (fst (snd st))"

definition st_sockets :: "(addr, int) map_rep \<times> 'w server \<times> 'w \<Rightarrow> addr list" where
  "st_sockets st = m_sockets (fst (snd st))"

definition st_ok :: "(addr, int) map_rep \<times> 'w server \<times> 'w \<Rightarrow> bool" where
  "st_ok st \<longleftrightarrow> map_ok (fst st) \<and> map_ok (st_clients st)"

lemma kill_client_simps [simp]:
  "m_clients (fst (kill_client x sw)) = map_erase x (m_clients (fst sw))"
  "m_sockets (fst (kill_client x sw)) = m_sockets (fst sw)"
  "m_isInitialized (fst (kill_client x sw)) = m_isInitialized (fst sw)"
  "m_handlerConnect (fst (kill_client x sw)) = m_handlerConnect (fst sw)"
  "m_handlerDisconnect (fst (kill_client x sw)) = m_handlerDisconnect (fst sw)"
  by (simp_all add: kill_client_def Let_def split_beta)

lemma spawn_client_simps [simp]:
  "m_clients (fst (spawn_client c x sw)) = map_assign x c (m_clients (fst sw))"
  "m_sockets (fst (spawn_client c x sw)) = m_sockets (fst sw)"
  "m_isInitialized (fst (spawn_client c x sw)) = m_isInitialized (fst sw)"
  "m_handlerConnect (fst (spawn_client c x sw)) = m_handlerConnect (fst sw)"
  "m_handlerDisconnect (fst (spawn_client c x sw)) = m_handlerDisconnect (fst sw)"
  by (simp_all add: spawn_client_def Let_def split_beta)

lemma watch_socket_cases:
  obtains (kill) "map_find (st_clients st) x \<noteq> None" "\<not> env_connected env x"
      "watch_socket env x st = (fst st, kill_client x (snd st))"
  | (stay) "map_find (st_clients st) x \<noteq> None \<and> env_connected env x \<or>
        map_find (st_clients st) x = None \<and> map_find (fst st) x \<noteq> None"
      "watch_socket env x st = st"
  | (accept) "map_find (st_clients st) x = None" "map_find (fst st) x = None"
      "watch_socket env x st =
        (if fst (env_accept env x) = E_Success then map_assign x (env_now env) (fst st) else fst st,
         if snd (env_accept env x) = Some E_Connected then spawn_client (env_instance env x) x (snd st) else snd st)"
proof -
  obtain pa s w where st: "st = (pa, s, w)" by (cases st)
  show thesis
  proof (cases "map_find (m_clients s) x = None")
    case True
    show thesis
    proof (cases "map_find pa x = None")
      case None: True
      show thesis
        by (rule accept) (use True None in \<open>auto simp: st st_clients_def watch_socket_def accept_client_cb_def Let_def
          split: prod.splits option.splits\<close>)
    qed (rule stay, use True in \<open>auto simp: st st_clients_def watch_socket_def\<close>)
  next
    case False
    then show thesis
      using kill stay by (cases "env_connected env x") (auto simp: st st_clients_def watch_socket_def)
  qed
qed

lemma watch_socket_ok: "st_ok st \<Longrightarrow> st_ok (watch_socket env x st)"
  by (cases rule: watch_socket_cases [where st = st and x = x and env = env])
    (auto simp: st_ok_def st_clients_def om.invar_erase om.invar_assign)

lemma watch_socket_sockets [simp]: "st_sockets (watch_socket env x st) = st_sockets st"
  by (cases rule: watch_socket_cases [where st = st and x = x and env = env]) (auto simp: st_sockets_def)

lemma watch_socket_here:
  assumes "st_ok st"
  shows "map_find (st_clients (watch_socket env x st)) x =
      client_after env x (map_find (st_clients st) x) (map_find (fst st) x \<noteq> None)"
    and "map_find (fst (watch_socket env x st)) x \<noteq> None \<longleftrightarrow>
      pending_after env x (map_find (st_clients st) x) (map_find (fst st) x \<noteq> None)"
  using assms
  by (cases rule: watch_socket_cases [where st = st and x = x and env = env];
      auto simp: st_ok_def st_clients_def client_after_def pending_after_def om.find_erase om.find_assign)+

lemma watch_socket_elsewhere:
  assumes "st_ok st" and "y \<noteq> x"
  shows "map_find (st_clients (watch_socket env x st)) y = map_find (st_clients st) y"
    and "map_find (fst (watch_socket env x st)) y = map_find (fst st) y"
  using assms
  by (cases rule: watch_socket_cases [where st = st and x = x and env = env];
      auto simp: st_ok_def st_clients_def om.find_erase om.find_assign)+

lemma watch_fold:
  "st_ok st \<Longrightarrow> distinct xs \<Longrightarrow>
   map_find (st_clients (fold (watch_socket env) xs st)) y =
     (if y \<in> set xs then client_after env y (map_find (st_clients st) y) (map_find (fst st) y \<noteq> None)
      else map_find (st_clients st) y) \<and>
   (map_find (fst (fold (watch_socket env) xs st)) y \<noteq> None \<longleftrightarrow>
     (if y \<in> set xs then pending_after env y (map_find (st_clients st) y) (map_find (fst st) y \<noteq> None)
      else map_find (fst st) y \<noteq> None))"
proof (induction xs arbitrary: st)
  case (Cons x xs)
  then show ?case
    using watch_socket_ok [OF Cons.prems(1), of env x] watch_socket_here [OF Cons.prems(1), of env x]
      watch_socket_elsewhere [OF Cons.prems(1), of y x env]
    by (cases "y = x") auto
qed simp

section \<open>Shutting down\<close>

text \<open>One notification of the disconnect handler.\<close>

definition notify_disconnect :: "'w server \<Rightarrow> 'w \<Rightarrow> 'w" where
  "notify_disconnect s w =
     (case fst (m_handlerDisconnect s) of Some f \<Rightarrow> f (snd (m_handlerDisconnect s)) 0 w | None \<Rightarrow> w)"

lemma kill_all_spec:
  "map_ok (m_clients s) \<Longrightarrow>
   kill_all (s, w) = (s\<lparr>m_clients := []\<rparr>, (notify_disconnect s ^^ length (m_clients s)) w)"
proof (induction "m_clients s" arbitrary: s w)
  case Nil
  then have "s\<lparr>m_clients := []\<rparr> = s" by (cases s) simp
  with Nil show ?case by (subst kill_all.simps) simp
next
  case (Cons kv m)
  obtain x c where kv: "kv = (x, c)" by (cases kv)
  let ?s = "s\<lparr>m_clients := m\<rparr>"
  have k: "kill_client x (s, w) = (?s, notify_disconnect s w)"
    using Cons.prems Cons.hyps(2) map_erase_first [of x c m]
    by (simp add: kill_client_def notify_disconnect_def Let_def kv flip: Cons.hyps(2) split: option.split)
  have "map_ok (m_clients ?s)" using Cons.prems by (simp add: kv map_ok_Cons flip: Cons.hyps(2))
  then have "kill_all (?s, notify_disconnect s w) =
      (?s\<lparr>m_clients := []\<rparr>, (notify_disconnect ?s ^^ length m) (notify_disconnect s w))"
    using Cons.hyps(1) [of ?s] by simp
  moreover have "notify_disconnect ?s = notify_disconnect s"
    by (auto simp: notify_disconnect_def split: option.split)
  ultimately show ?case
    using k by (subst kill_all.simps) (simp add: kv funpow_swap1 flip: Cons.hyps(2))
qed

section \<open>The server as a state machine\<close>

text \<open>
  What can happen to a server whose handlers were set at the start. A new socket has a new address. The
  watcher's sockets keep the accept contract.
\<close>

type_synonym 'w server_state = "(addr, int) map_rep \<times> 'w server \<times> 'w"

inductive server_step :: "'w server_state \<Rightarrow> 'w server_state \<Rightarrow> bool" where
  initialize: "initialize (Inr socket) path s = Inr s' \<Longrightarrow> socket \<notin> set (m_sockets s) \<Longrightarrow>
    map_find pa socket = None \<Longrightarrow> map_find (m_clients s) socket = None \<Longrightarrow>
    server_step (pa, s, w) (pa, s', w)"
| watch: "\<not> m_watcher_stop (fst (snd st)) \<Longrightarrow> \<forall>x. accept_ok (env_accept env x) \<Longrightarrow>
    server_step st (watch_pass env st)"
| finalize: "server_step (pa, sw) (pa, finalize sw)"
| destroy: "server_step (pa, sw) (pa, server_destroy sw)"

inductive_cases server_stepE: "server_step st st'"

text \<open>The invariant, relative to the handlers.\<close>

definition server_inv :: "'w server \<Rightarrow> 'w server_state \<Rightarrow> bool" where
  "server_inv s0 st \<longleftrightarrow> st_ok st \<and> distinct (st_sockets st) \<and>
     (\<forall>x. map_find (st_clients st) x \<noteq> None \<longrightarrow> x \<in> set (st_sockets st) \<and> map_find (fst st) x = None) \<and>
     (\<not> m_isInitialized (fst (snd st)) \<longrightarrow> st_sockets st = []) \<and>
     m_handlerConnect (fst (snd st)) = m_handlerConnect s0 \<and>
     m_handlerDisconnect (fst (snd st)) = m_handlerDisconnect s0"

lemma no_entries: "\<forall>x. map_find m x = None \<Longrightarrow> m = []"
  by (cases m) (auto simp: map_find_def split: if_splits)

lemma finalize_inv:
  assumes "server_inv s0 (pa, sw)"
  shows "finalize sw = ((fst sw)\<lparr>m_clients := [], m_sockets := []\<rparr>,
    (notify_disconnect s0 ^^ length (m_clients (fst sw))) (snd sw))"
proof (cases "m_isInitialized (fst sw)")
  case True
  obtain s w where sw: "sw = (s, w)" by (cases sw)
  have ok: "map_ok (m_clients s)" using assms by (simp add: server_inv_def st_ok_def st_clients_def sw)
  have "notify_disconnect s = notify_disconnect s0"
    using assms by (auto simp: server_inv_def notify_disconnect_def sw split: option.split)
  then show ?thesis using True by (simp add: finalize_def sw kill_all_spec [OF ok])
next
  case False
  then have "m_sockets (fst sw) = []" using assms by (simp add: server_inv_def st_sockets_def)
  moreover from this have "m_clients (fst sw) = []"
    using assms by (intro no_entries) (auto simp: server_inv_def st_sockets_def st_clients_def)
  moreover from calculation have "(fst sw)\<lparr>m_clients := [], m_sockets := []\<rparr> = fst sw"
    by (cases "fst sw") simp
  ultimately show ?thesis using False by (cases sw) (simp add: finalize_def)
qed

lemma watch_fold_keeps:
  "m_isInitialized (fst (snd (fold (watch_socket env) xs st))) = m_isInitialized (fst (snd st))"
  "m_handlerConnect (fst (snd (fold (watch_socket env) xs st))) = m_handlerConnect (fst (snd st))"
  "m_handlerDisconnect (fst (snd (fold (watch_socket env) xs st))) = m_handlerDisconnect (fst (snd st))"
  "st_sockets (fold (watch_socket env) xs st) = st_sockets st"
  "st_ok st \<Longrightarrow> st_ok (fold (watch_socket env) xs st)"
proof (induction xs arbitrary: st)
  case (Cons x xs)
  { case 1 show ?case using Cons(1) [of "watch_socket env x st"]
      by (cases rule: watch_socket_cases [where st = st and x = x and env = env]) auto
  next case 2 show ?case using Cons(2) [of "watch_socket env x st"]
      by (cases rule: watch_socket_cases [where st = st and x = x and env = env]) auto
  next case 3 show ?case using Cons(3) [of "watch_socket env x st"]
      by (cases rule: watch_socket_cases [where st = st and x = x and env = env]) auto
  next case 4 show ?case using Cons(4) [of "watch_socket env x st"] by simp
  next case 5 show ?case using Cons(5) [of "watch_socket env x st"] watch_socket_ok [OF 5] by simp
  }
qed simp_all

lemma watch_inv:
  assumes "server_inv s0 st" and "\<forall>x. accept_ok (env_accept env x)"
  shows "server_inv s0 (watch_pass env st)"
proof -
  have ok: "st_ok st" "distinct (m_sockets (fst (snd st)))"
    using assms(1) by (simp_all add: server_inv_def st_sockets_def)
  note pass = watch_fold [OF ok, of env]
  have "x \<in> set (st_sockets st) \<and> map_find (fst (watch_pass env st)) x = None"
    if "map_find (st_clients (watch_pass env st)) x \<noteq> None" for x
  proof (cases "x \<in> set (st_sockets st)")
    case True
    have old: "map_find (st_clients st) x \<noteq> None \<Longrightarrow> map_find (fst st) x = None"
      using assms(1) by (simp add: server_inv_def)
    have "accept_ok (env_accept env x)" using assms(2) by simp
    then show ?thesis
      using that True pass [of x] old
      by (auto simp: watch_pass_def st_sockets_def client_after_def pending_after_def accept_ok_def split: if_splits)
  next
    case False
    then show ?thesis
      using that pass [of x] assms(1) by (auto simp: watch_pass_def st_sockets_def server_inv_def)
  qed
  then show ?thesis
    using assms(1) watch_fold_keeps [where env = env and st = st]
    by (auto simp: server_inv_def watch_pass_def)
qed

lemma step_inv: "server_step st st' \<Longrightarrow> server_inv s0 st \<Longrightarrow> server_inv s0 st'"
proof (induction rule: server_step.induct)
  case (initialize socket path s s' pa w)
  then show ?case
    by (auto simp: initialize_def server_inv_def st_ok_def st_clients_def st_sockets_def)
next
  case (watch st env)
  then show ?case by (simp add: watch_inv)
next
  case (finalize pa sw)
  then show ?case
    unfolding finalize_inv [OF finalize] by (auto simp: server_inv_def st_ok_def st_clients_def st_sockets_def)
next
  case (destroy pa sw)
  then show ?case
    unfolding server_destroy_def finalize_inv [OF destroy]
    by (auto simp: server_inv_def st_ok_def st_clients_def st_sockets_def)
qed

section \<open>Counting the notifications\<close>

text \<open>Handlers that count how often they are called; whatever the connect handler returns.\<close>

type_synonym counts = "nat \<times> nat"

definition counting_start :: "bool \<Rightarrow> counts server" where
  "counting_start b = set_disconnect_handler (Some (\<lambda>d i w. (fst w, Suc (snd w)))) 0
     (set_connect_handler (Some (\<lambda>d i w. (b, (Suc (fst w), snd w)))) 0 server_make)"

definition counts_ok :: "counts server_state \<Rightarrow> bool" where
  "counts_ok st \<longleftrightarrow> fst (snd (snd st)) = snd (snd (snd st)) + length (st_clients st)"

lemma length_map_erase:
  "map_ok m \<Longrightarrow> map_find m k \<noteq> None \<Longrightarrow> Suc (length (map_erase k m)) = length m"
proof (induction m)
  case (Cons kv m)
  obtain x v where kv: "kv = (x, v)" by (cases kv)
  show ?case
  proof (cases "x = k")
    case True
    then show ?thesis using Cons.prems(1) kv map_erase_first [of k v m] by simp
  next
    case False
    then show ?thesis using Cons kv by (auto simp: map_erase_def map_find_def map_ok_Cons)
  qed
qed simp

lemma length_map_assign:
  "map_ok m \<Longrightarrow> map_find m k = None \<Longrightarrow> length (map_assign k v m) = Suc (length m)"
  by (induction k v m rule: map_assign.induct) (auto simp: map_find_def map_ok_Cons split: if_splits)

lemma watch_socket_counts:
  assumes "counts_ok st" and "st_ok st"
    and "m_handlerConnect (fst (snd st)) = m_handlerConnect (counting_start b)"
    and "m_handlerDisconnect (fst (snd st)) = m_handlerDisconnect (counting_start b)"
  shows "counts_ok (watch_socket env x st)"
proof (cases rule: watch_socket_cases [where st = st and x = x and env = env])
  case kill
  moreover have "Suc (length (map_erase x (st_clients st))) = length (st_clients st)"
    using kill(1) assms(2) by (intro length_map_erase) (auto simp: st_ok_def)
  ultimately show ?thesis
    using assms by (auto simp: counts_ok_def st_clients_def kill_client_def counting_start_def
        set_connect_handler_def set_disconnect_handler_def Let_def split_beta)
next
  case accept
  have "length (map_assign x (env_instance env x) (st_clients st)) = Suc (length (st_clients st))"
    using accept(1) assms(2) by (intro length_map_assign) (auto simp: st_ok_def)
  then show ?thesis
    using assms accept by (auto simp: counts_ok_def st_clients_def spawn_client_def counting_start_def
        set_connect_handler_def set_disconnect_handler_def Let_def split_beta)
qed (use assms in simp)

lemma watch_fold_counts:
  assumes "counts_ok st" and "st_ok st"
    and "m_handlerConnect (fst (snd st)) = m_handlerConnect (counting_start b)"
    and "m_handlerDisconnect (fst (snd st)) = m_handlerDisconnect (counting_start b)"
  shows "counts_ok (fold (watch_socket env) xs st)"
  using assms
proof (induction xs arbitrary: st)
  case (Cons x xs)
  have "counts_ok (watch_socket env x st)" using watch_socket_counts Cons.prems by blast
  moreover have "st_ok (watch_socket env x st)" using watch_socket_ok Cons.prems(2) by blast
  ultimately show ?case
    using Cons.IH [of "watch_socket env x st"] Cons.prems watch_fold_keeps(2,3) [of env "[x]" st] by simp
qed simp

lemma funpow_count: "((\<lambda>w :: counts. (fst w, Suc (snd w))) ^^ n) w = (fst w, snd w + n)"
  by (induction n) auto

lemma finalize_counts:
  assumes "server_inv (counting_start b) (pa, sw)" and "counts_ok (pa, sw)"
  shows "fst (snd (finalize sw)) = snd (snd (finalize sw)) \<and> m_clients (fst (finalize sw)) = [] \<and>
    m_sockets (fst (finalize sw)) = []"
proof -
  have "notify_disconnect (counting_start b) = (\<lambda>w. (fst w, Suc (snd w)))"
    by (simp add: notify_disconnect_def counting_start_def set_disconnect_handler_def fun_eq_iff)
  then show ?thesis
    using assms by (simp add: finalize_inv [OF assms(1)] funpow_count counts_ok_def st_clients_def)
qed

lemma counts_step:
  assumes "server_step st st'" and inv: "server_inv (counting_start b) st" and cnt: "counts_ok st"
  shows "counts_ok st'"
  using assms(1)
  proof (cases rule: server_step.cases)
    case (initialize socket path s s' pa w)
    then show ?thesis using cnt by (auto simp: initialize_def counts_ok_def st_clients_def)
  next
    case (watch env)
    then show ?thesis using inv cnt watch_fold_counts [of st b env]
      by (simp add: watch_pass_def server_inv_def)
  next
    case (finalize pa sw)
    then show ?thesis using finalize_counts [of b pa sw] inv cnt by (simp add: counts_ok_def st_clients_def)
  next
    case (destroy pa sw)
    then show ?thesis using finalize_counts [of b pa sw] inv cnt
      by (simp add: counts_ok_def st_clients_def server_destroy_def split_beta)
  qed

interpretation server_life: state_machine "\<lambda>st. st = ([], counting_start b, (0, 0))" server_step
  "\<lambda>st. server_inv (counting_start b) st \<and> counts_ok st"
  for b
proof
  show "server_inv (counting_start b) st \<and> counts_ok st" if "st = ([], counting_start b, (0, 0))" for st
    using that
    by (simp add: server_inv_def counts_ok_def st_ok_def st_clients_def st_sockets_def counting_start_def
        set_connect_handler_def set_disconnect_handler_def)
qed (blast intro: step_inv counts_step)

section \<open>Properties\<close>

text \<open>C15. The clients of a server, in every state the server can get into from its construction with
  handlers that count: every connect notification has been followed by exactly one disconnect
  notification or its client is still there; a client's socket is one of the server's sockets and has no
  pending accept; and destroying the server in such a state brings the two counts together and leaves
  neither clients nor sockets, so nobody is disconnected twice or forgotten.\<close>

theorem server_clients_accounted:
  assumes "server_step\<^sup>*\<^sup>* ([], counting_start b, (0, 0)) (pa, s, (connects, disconnects))"
  shows "connects = disconnects + length (m_clients s) \<and>
    (\<forall>x. map_find (m_clients s) x \<noteq> None \<longrightarrow> x \<in> set (m_sockets s) \<and> map_find pa x = None) \<and>
    (\<exists>s' n. server_destroy (s, (connects, disconnects)) = (s', (n, n)) \<and> m_clients s' = [] \<and> m_sockets s' = [])"
proof (intro conjI)
  note r = server_life.reachable_inv [OF refl assms]
  show "connects = disconnects + length (m_clients s)" using r by (simp add: counts_ok_def st_clients_def)
  show "\<forall>x. map_find (m_clients s) x \<noteq> None \<longrightarrow> x \<in> set (m_sockets s) \<and> map_find pa x = None"
    using r by (auto simp: server_inv_def st_clients_def st_sockets_def)
  show "\<exists>s' n. server_destroy (s, (connects, disconnects)) = (s', (n, n)) \<and> m_clients s' = [] \<and> m_sockets s' = []"
    using finalize_counts [of b pa "(s, (connects, disconnects))"] r
    by (cases "finalize (s, (connects, disconnects))") (auto simp: server_destroy_def)
qed

definition connecting_env :: watch_env where
  "connecting_env = \<lparr>env_connected = (\<lambda>_. True), env_accept = (\<lambda>_. (E_Connected, Some E_Connected)),
     env_instance = (\<lambda>x. x + 100), env_now = 0\<rparr>"

theorem server_clients_accounted_witness:
  "\<exists>s. server_step\<^sup>*\<^sup>* ([], counting_start True, (0, 0)) ([], s, (1, 0)) \<and> 1 = 0 + length (m_clients s)"
proof -
  let ?s1 = "(counting_start True)\<lparr>m_sockets := [7], m_isInitialized := True, m_socketPath := ''p''\<rparr>"
  have s1: "server_step ([], counting_start True, (0, 0)) ([], ?s1, (0, 0))"
    by (rule server_step.initialize [of 7 "''p''"])
      (simp_all add: initialize_def counting_start_def set_connect_handler_def set_disconnect_handler_def)
  let ?s2 = "?s1\<lparr>m_clients := [(7, 107)]\<rparr>"
  have pass: "watch_pass connecting_env ([], ?s1, (0, 0)) = ([], ?s2, (1, 0))"
    by (simp add: watch_pass_def watch_socket_def connecting_env_def accept_client_cb_def spawn_client_def
        counting_start_def set_connect_handler_def set_disconnect_handler_def Let_def)
  have "server_step ([], ?s1, (0, 0)) (watch_pass connecting_env ([], ?s1, (0, 0)))"
    by (rule server_step.watch)
      (simp_all add: connecting_env_def accept_ok_def counting_start_def set_connect_handler_def
        set_disconnect_handler_def server_make_def)
  then have "server_step ([], ?s1, (0, 0)) ([], ?s2, (1, 0))" unfolding pass .
  then have r: "server_step\<^sup>*\<^sup>* ([], counting_start True, (0, 0)) ([], ?s2, (1, 0))"
    using s1 by (meson rtranclp.rtrancl_into_rtrancl r_into_rtranclp)
  from r conjunct1 [OF server_clients_accounted [OF r]] show ?thesis by (intro exI [of _ ?s2] conjI)
qed

text \<open>C40. One pass of the watcher over distinct sockets, socket by socket: a client that is still connected
  stays and one that is not is removed; a socket without client and without pending accept gets a new
  client exactly when its accept reported \<open>Connected\<close>, and is remembered as pending exactly when its
  accept returned \<open>Success\<close>; a remembered socket is never accepted again.\<close>

theorem watch_pass_spec:
  assumes "map_ok pa" and "map_ok (m_clients s)" and "distinct (m_sockets s)" and "x \<in> set (m_sockets s)"
    and "watch_pass env (pa, s, w) = (pa', s', w')"
  shows "map_find (m_clients s') x = client_after env x (map_find (m_clients s) x) (map_find pa x \<noteq> None) \<and>
    (map_find pa' x \<noteq> None \<longleftrightarrow> pending_after env x (map_find (m_clients s) x) (map_find pa x \<noteq> None))"
proof -
  have "st_ok (pa, s, w)" using assms(1,2) by (simp add: st_ok_def st_clients_def)
  from watch_fold [OF this assms(3), of env x] assms(4,5) show ?thesis
    by (simp add: watch_pass_def st_clients_def)
qed

theorem watch_pass_spec_witness:
  "map_find (m_clients (fst (snd (watch_pass connecting_env ([], server_make\<lparr>m_sockets := [7]\<rparr> :: nat server, 0))))) 7 =
     client_after connecting_env 7 None False"
proof -
  let ?s = "server_make\<lparr>m_sockets := [7]\<rparr> :: nat server"
  obtain pa' s' w' where p: "watch_pass connecting_env ([], ?s, 0) = (pa', s', w')"
    by (rule prod_cases3)
  have s: "map_ok ([] :: (addr, int) map_rep)" "map_ok (m_clients ?s)" "distinct (m_sockets ?s)" "7 \<in> set (m_sockets ?s)"
    by simp_all
  from watch_pass_spec [OF s p] show ?thesis by (simp add: p)
qed

end
