(* ===== verification/Named_Pipe_Osx.thy ===== *)
theory Named_Pipe_Osx
  imports Ipc_Server
begin

text \<open>
  The class \<open>named_pipe\<close> (\<open>apple/named-pipe.cpp\<close>), the older macOS transport, which the build does not use
  any more: two named pipes whose descriptors stay open. The conventions are those of \<open>Socket_Osx\<close>.
\<close>

section \<open>State\<close>

record named_pipe =
  np_created :: bool
  np_connected :: bool
  np_name_req :: string
  np_name_rep :: string
  np_file_req :: int
  np_file_rep :: int

text \<open>
  The constructors, with the results of \<open>mkfifo\<close> and \<open>open\<close> in the order of the calls. \<open>connected\<close> is
  true from the start in both.
\<close>

definition named_pipe_create :: "int \<Rightarrow> int \<Rightarrow> int \<Rightarrow> int \<Rightarrow> string \<Rightarrow> named_pipe result" where
  "named_pipe_create mkfifo_req mkfifo_rep open_req open_rep name =
     (if mkfifo_req < 0 then Inl (Exception ''Could not create request pipe'')
      else if mkfifo_rep < 0 then Inl (Exception ''Could not create reply pipe'')
      else if open_req < 0 then Inl (Exception ''Could not open reader request pipe'')
      else if open_rep < 0 then Inl (Exception ''Could not open write reply pipe'')
      else Inr \<lparr>np_created = True, np_connected = True, np_name_req = name @ ''-req'', np_name_rep = name @ ''-rep'',
                np_file_req = open_req, np_file_rep = open_rep\<rparr>)"

definition named_pipe_open :: "int \<Rightarrow> int \<Rightarrow> string \<Rightarrow> named_pipe result" where
  "named_pipe_open open_rep open_req name =
     (if open_rep < 0 then Inl (Exception ''Could not open reader reply pipe'')
      else if open_req < 0 then Inl (Exception ''Could not open write request pipe'')
      else Inr \<lparr>np_created = False, np_connected = True, np_name_req = name @ ''-req'', np_name_rep = name @ ''-rep'',
                np_file_req = open_req, np_file_rep = open_rep\<rparr>)"

text \<open>The destructor: the descriptors it closes and the names it removes, in this order, pair by pair.\<close>

definition named_pipe_destroy :: "named_pipe \<Rightarrow> (int \<times> string) list" where
  "named_pipe_destroy p = [(np_file_req p, np_name_req p), (np_file_rep p, np_name_rep p)]"

definition named_pipe_is_created :: "named_pipe \<Rightarrow> bool" where
  "named_pipe_is_created p = np_created p"

definition named_pipe_is_connected :: "named_pipe \<Rightarrow> bool" where
  "named_pipe_is_connected p = np_connected p"

definition named_pipe_set_connected :: "bool \<Rightarrow> named_pipe \<Rightarrow> named_pipe" where
  "named_pipe_set_connected is_connected p = p\<lparr>np_connected := is_connected\<rparr>"

definition named_pipe_handle_accept_callback :: "os_error \<Rightarrow> nat \<Rightarrow> named_pipe \<Rightarrow> named_pipe" where
  "named_pipe_handle_accept_callback code len p =
     (if code = E_Connected \<or> code = E_Success then named_pipe_set_connected True p
      else named_pipe_set_connected False p)"

section \<open>Reading and writing\<close>

definition named_pipe_fd :: "socket_type \<Rightarrow> named_pipe \<Rightarrow> int" where
  "named_pipe_fd t p = (if t = REQUEST then np_file_req p else np_file_rep p)"

text \<open>
  The two loops of \<open>read\<close>, one system call per step. The inner one runs while a whole chunk came; it moves
  the offset by a chunk and copies what the next call returns, an error as a copy of \<open>2 ^ 64 - 1\<close> bytes.
  When the inner loop ends without bytes, the outer one reads into the start of the buffer again.
\<close>

fun named_pipe_read_loop :: "bool \<Rightarrow> sys_read list \<Rightarrow> nat \<Rightarrow> buffer \<Rightarrow> (buffer \<times> sys_read list) result option" where
  "named_pipe_read_loop chunk [] offset buf = None"
| "named_pipe_read_loop chunk (a # answers) offset buf =
     (case (case a of
              Got bs \<Rightarrow> poke buf (if chunk then offset else 0) bs
            | Eof \<Rightarrow> Inr buf
            | Fail \<Rightarrow> if chunk then Inl Bad_Access else Inr buf) of
        Inl e \<Rightarrow> Some (Inl e)
      | Inr buf \<Rightarrow>
          let ret = sys_ret a in
          if ret = int chunk_size then named_pipe_read_loop True answers (offset + chunk_size) buf
          else if ret \<le> 0 then named_pipe_read_loop False answers offset buf
          else Some (Inr (buf, answers)))"

definition named_pipe_read ::
  "sys_read list \<Rightarrow> nat \<Rightarrow> bool \<Rightarrow> socket_type \<Rightarrow> named_pipe \<Rightarrow> buffer \<Rightarrow> (os_error \<times> buffer) result option"
where
  "named_pipe_read answers buffer_length is_blocking t p buf =
     (if named_pipe_fd t p < 0 then Some (Inr (E_Error, buf))
      else (case named_pipe_read_loop False answers 0 buf of
              None \<Rightarrow> None
            | Some (Inl e) \<Rightarrow> Some (Inl e)
            | Some (Inr (buf, _)) \<Rightarrow> Some (Inr (E_Success, buf))))"

text \<open>\<open>write\<close>: one call, whose result is \<open>ret\<close>; the value includes what the pipe received.\<close>

definition named_pipe_write :: "int \<Rightarrow> buffer \<Rightarrow> socket_type \<Rightarrow> named_pipe \<Rightarrow> os_error \<times> buffer" where
  "named_pipe_write ret buf t p =
     (if named_pipe_fd t p < 0 then (E_Error, [])
      else if ret < 0 then (E_Error, [])
      else (E_Success, received ret buf))"

section \<open>Accepting\<close>

type_synonym ('c, 'x) np_client_runner =
  "'c \<Rightarrow> os_error \<Rightarrow> nat \<Rightarrow> 'c osx_cb osx_request \<Rightarrow> (named_pipe \<times> 'x, 'c osx_cb osx_request) effect"

fun run_np_cb :: "('c, 'x) np_client_runner \<Rightarrow> ('c osx_cb, 'c osx_cb osx_request, named_pipe \<times> 'x) runner" where
  "run_np_cb client Osx_Handle_Accept ec len op (p, x) = ((named_pipe_handle_accept_callback ec len p, x), Inr op)"
| "run_np_cb client (Osx_Client_Cb c) ec len op (p, x) = client c ec len op (p, x)"

definition named_pipe_accept ::
  "('c, 'x) np_client_runner \<Rightarrow> 'c osx_cb osx_request option \<Rightarrow> 'c option
   \<Rightarrow> (named_pipe \<times> 'x, os_error \<times> 'c osx_cb osx_request option) effect"
where
  "named_pipe_accept client op cb = (\<lambda>(p, x).
     if \<not> named_pipe_is_created p then ((p, x), Inr (E_Error, op))
     else
       let ar = (case op of None \<Rightarrow> osx_request_make None | Some ar \<Rightarrow> ar) in
       case set_callback osx_is_valid osx_is_complete (map_option Osx_Client_Cb cb) ar of
         Inl e \<Rightarrow> ((p, x), Inl e)
       | Inr ar \<Rightarrow>
           (case set_system_callback osx_is_valid osx_is_complete (Some Osx_Handle_Accept) ar of
              Inl e \<Rightarrow> ((p, x), Inl e)
            | Inr ar \<Rightarrow>
                let ar = osx_set_sem 0 ar; p = p\<lparr>np_connected := True\<rparr>; ec = E_Connected in
                if ec \<noteq> E_Pending \<and> ec \<noteq> E_Connected then
                  ebind (osx_call_callback (run_np_cb client) ec 0 ar) (\<lambda>ar. ereturn (ec, Some ar)) (p, x)
                else
                  let ar = osx_set_valid True ar in
                  if ec = E_Connected then
                    ebind (osx_call_callback (run_np_cb client) ec 0 ar) (\<lambda>ar. ereturn (ec, Some ar)) (p, x)
                  else ((p, x), Inr (ec, Some ar))))"

text \<open>It keeps to the contract of a socket that accepts, as the two sockets of the build do.\<close>

definition np_accept_outcome :: "unit \<Rightarrow> named_pipe \<Rightarrow> os_error \<times> os_error option" where
  "np_accept_outcome _ p =
     (case named_pipe_accept (\<lambda>c ec len op (p, x). ((p, Some ec), Inr op)) None (Some ()) (p, None) of
        ((_, fired), Inr (ec, _)) \<Rightarrow> (ec, fired)
      | ((_, fired), Inl _) \<Rightarrow> (E_Error, fired))"

interpretation np_sock: accepting_socket np_created np_accept_outcome
  by unfold_locales
    (simp add: np_accept_outcome_def named_pipe_accept_def named_pipe_is_created_def osx_request_make_def set_callback_def
      set_system_callback_def osx_is_valid_def osx_set_sem_def osx_set_valid_def osx_call_callback_def
      ebind_def ereturn_def Let_def accept_ok_def)

section \<open>Lemmas\<close>

definition whole_chunk :: "buffer \<Rightarrow> bool" where
  "whole_chunk c \<longleftrightarrow> length c = chunk_size"

lemma np_loop_start: "named_pipe_read_loop False (replicate k Fail @ answers) 0 buf = named_pipe_read_loop False answers 0 buf"
  by (induction k) (simp_all add: chunk_size_def)

lemma np_loop_first:
  "whole_chunk c \<Longrightarrow> named_pipe_read_loop False (Got c # answers) 0 buf = named_pipe_read_loop True (Got c # answers) 0 buf"
  by (simp add: whole_chunk_def)

lemma np_loop_chunks:
  "list_all whole_chunk cs \<Longrightarrow> offset + length (concat cs) \<le> length buf \<Longrightarrow>
   named_pipe_read_loop True (map Got cs @ answers) offset buf =
     named_pipe_read_loop True answers (offset + length (concat cs))
       (take offset buf @ concat cs @ drop (offset + length (concat cs)) buf)"
proof (induction cs arbitrary: offset buf)
  case (Cons c cs)
  have c: "length c = chunk_size" using Cons.prems by (simp add: whole_chunk_def)
  show ?case
    using Cons.prems c Cons.IH [of "offset + chunk_size" "take offset buf @ c @ drop (offset + length c) buf"]
    by (simp add: poke_def add.assoc ac_simps)
qed (simp add: append_take_drop_id)

lemma np_loop_whole:
  assumes "list_all whole_chunk cs" and "cs \<noteq> []" and "length (concat cs) \<le> length buf"
  shows "named_pipe_read_loop False (replicate k Fail @ map Got cs @ answers) 0 buf =
    named_pipe_read_loop True answers (length (concat cs)) (concat cs @ drop (length (concat cs)) buf)"
proof -
  obtain c cs' where cs: "cs = c # cs'" using assms(2) by (cases cs) auto
  have "named_pipe_read_loop False (map Got cs @ answers) 0 buf = named_pipe_read_loop True (map Got cs @ answers) 0 buf"
    using np_loop_first [of c] assms(1) by (simp add: cs)
  with np_loop_chunks [OF assms(1), of 0 buf answers] assms(3) show ?thesis by (simp add: np_loop_start)
qed

section \<open>Properties\<close>

text \<open>What the older macOS transport makes of a message of whole chunks, with any number of failed calls before
  the first. A shorter non-empty last chunk ends the read with exactly these bytes. A call that fails
  behind whole chunks, as on a pipe that does not block, is a copy past the end of every buffer. And when
  the writer closes the pipe there, the read does not end: the next message is read over the start of
  this one.\<close>

theorem named_pipe_read_spec:
  assumes "list_all whole_chunk cs" and "cs \<noteq> []" and "0 \<le> named_pipe_fd t p"
    and "c \<noteq> []" and "length c \<noteq> 8192" and "length (concat (cs @ [c])) \<le> length buf"
  shows "named_pipe_read (replicate k Fail @ map Got (cs @ [c]) @ rest) len blocking t p buf =
      Some (Inr (E_Success, concat (cs @ [c]) @ drop (length (concat (cs @ [c]))) buf)) \<and>
    named_pipe_read (replicate k Fail @ map Got cs @ Fail # rest) len blocking t p buf = Some (Inl Bad_Access) \<and>
    named_pipe_read (replicate k Fail @ map Got cs @ Eof # Got c # rest) len blocking t p buf =
      Some (Inr (E_Success, c @ drop (length c) (concat cs @ drop (length (concat cs)) buf)))"
proof (intro conjI)
  have fits: "length (concat cs) \<le> length buf" using assms(6) by simp
  note loop = np_loop_whole [OF assms(1,2) fits, of k]
  show "named_pipe_read (replicate k Fail @ map Got (cs @ [c]) @ rest) len blocking t p buf =
      Some (Inr (E_Success, concat (cs @ [c]) @ drop (length (concat (cs @ [c]))) buf))"
    using assms(3-6) loop [of "Got c # rest"]
    by (simp add: named_pipe_read_def poke_def chunk_size_def add.commute)
  show "named_pipe_read (replicate k Fail @ map Got cs @ Fail # rest) len blocking t p buf = Some (Inl Bad_Access)"
    using assms(3) loop [of "Fail # rest"] by (simp add: named_pipe_read_def)
  show "named_pipe_read (replicate k Fail @ map Got cs @ Eof # Got c # rest) len blocking t p buf =
      Some (Inr (E_Success, c @ drop (length c) (concat cs @ drop (length (concat cs)) buf)))"
    using assms(3-6) loop [of "Eof # Got c # rest"]
    by (simp add: named_pipe_read_def poke_def chunk_size_def)
qed

theorem named_pipe_read_spec_witness:
  "\<exists>p. named_pipe_open 3 4 ''p'' = Inr p \<and>
     named_pipe_read (Fail # Got (replicate 8192 CHR 0x61) # Fail # []) 8200 False REPLY p (replicate 8200 CHR 0x00) =
       Some (Inl Bad_Access)"
proof -
  obtain p where p: "named_pipe_open 3 4 ''p'' = Inr p" "named_pipe_fd REPLY p = 3"
    by (simp add: named_pipe_open_def named_pipe_fd_def)
  have "list_all whole_chunk [replicate 8192 CHR 0x61]" "[replicate 8192 CHR 0x61] \<noteq> []" "0 \<le> named_pipe_fd REPLY p"
    "''a'' \<noteq> []" "length ''a'' \<noteq> 8192" "length (concat ([replicate 8192 CHR 0x61] @ [''a''])) \<le> length (replicate 8200 CHR 0x00)"
    using p(2) by (simp_all add: whole_chunk_def chunk_size_def)
  from named_pipe_read_spec [OF this, of 1 "[]" 8200 False] p(1) show ?thesis by auto
qed

end
