(* ===== verification/Client_Base.thy ===== *)
theory Client_Base
  imports Ipc_Rpc Async_Op
begin

text \<open>
  What the Windows and the macOS client have in common: the first part of \<open>call\<close>, which is the same code
  on both, the table of callbacks, the search of a reply's callback, and the stack data of
  \<open>call_synchronous_helper\<close> with the callback that fills it.
\<close>

section \<open>Callbacks and calls\<close>

type_synonym 'w reply_fn = "ptr \<Rightarrow> ipc_value list \<Rightarrow> 'w \<Rightarrow> 'w"
type_synonym 'w callbacks = "(int, 'w reply_fn \<times> ptr) map_rep"

text \<open>
  The unique id is a \<open>uint64_t\<close>, the keys of the table and \<open>cbid\<close> are \<open>int64_t\<close>: the same 64 bits.
\<close>

definition callback_key :: "u64 \<Rightarrow> int" where
  "callback_key uid = sint uid"

lemma callback_key_inj [simp]: "callback_key a = callback_key b \<longleftrightarrow> a = b"
  by (auto simp: callback_key_def intro: signed_word_eqI)

text \<open>
  The first part of \<open>call\<close>: the next timestamp (a counter all clients share), the message, its frame, and
  the registration. \<open>cbid\<close> is a reference argument and changes only when there is a callback.
\<close>

definition begin_call ::
  "u64 \<Rightarrow> string \<Rightarrow> string \<Rightarrow> ipc_value list \<Rightarrow> ('w reply_fn) option \<Rightarrow> ptr \<Rightarrow> int \<Rightarrow> u64 \<Rightarrow> 'w callbacks
   \<Rightarrow> (buffer \<times> int \<times> u64 \<times> 'w callbacks) result"
where
  "begin_call u cname fname args fn data cbid timestamp cb =
     (let timestamp = timestamp + 1;
          msg = build_call timestamp u cname fname args in
      rbind (function_call_serialize msg (replicate (function_call_size msg + 8) (CHR 0x00)) 8) (\<lambda>(buf, _).
      let (cb, cbid) = (case fn of
              None \<Rightarrow> (cb, cbid)
            | Some f \<Rightarrow> (map_insert (callback_key timestamp) (f, data) cb, callback_key timestamp)) in
      rbind (make_sendable buf) (\<lambda>buf. Inr (buf, cbid, timestamp, cb))))"

text \<open>The id of the new entry and the table afterwards.\<close>

definition new_cbid :: "('w reply_fn) option \<Rightarrow> int \<Rightarrow> u64 \<Rightarrow> int" where
  "new_cbid fn cbid timestamp = (case fn of None \<Rightarrow> cbid | Some f \<Rightarrow> callback_key timestamp)"

definition registered :: "('w reply_fn) option \<Rightarrow> ptr \<Rightarrow> u64 \<Rightarrow> 'w callbacks \<Rightarrow> 'w callbacks" where
  "registered fn data timestamp cb =
     (case fn of None \<Rightarrow> cb | Some f \<Rightarrow> map_insert (callback_key timestamp) (f, data) cb)"

lemma new_cbid_simps [simp]: "new_cbid None cbid t = cbid" "new_cbid (Some f) cbid t = callback_key t"
  by (simp_all add: new_cbid_def)

lemma registered_simps [simp]:
  "registered None data t cb = cb" "registered (Some f) data t cb = map_insert (callback_key t) (f, data) cb"
  by (simp_all add: registered_def)

lemma callback_key_one [simp]: "callback_key 1 = 1"
  by (simp add: callback_key_def)

lemma function_call_serialize_fresh:
  assumes "function_call_size m + 8 < 2 ^ 64"
  shows "function_call_serialize m (replicate (function_call_size m + 8) (CHR 0x00)) 8 =
    Inr (replicate 8 (CHR 0x00) @ call_wire m, function_call_size m)"
  using call.ser_inside [of 8 m "replicate (function_call_size m + 8) (CHR 0x00)"] assms
  by (simp add: min_def)

lemma begin_call_frame:
  assumes "function_call_size (build_call (timestamp + 1) u cname fname args) + 8 < 2 ^ 64"
  shows "begin_call u cname fname args fn data cbid timestamp cb =
    Inr (frame_image (call_wire (build_call (timestamp + 1) u cname fname args)),
      new_cbid fn cbid (timestamp + 1), timestamp + 1, registered fn data (timestamp + 1) cb)"
proof -
  let ?m = "build_call (timestamp + 1) u cname fname args"
  have "make_sendable (replicate 8 (CHR 0x00) @ call_wire ?m) = Inr (frame_image (call_wire ?m))"
    using assms by (simp add: make_sendable_image length_call_wire frame_image_def min_def)
  then show ?thesis
    using function_call_serialize_fresh [OF assms]
    by (simp add: begin_call_def new_cbid_def registered_def Let_def split: option.split)
qed

lemma begin_call_cases:
  assumes "begin_call u cname fname args fn data cbid timestamp cb = Inr (buf, cbid', timestamp', cb')"
  shows "timestamp' = timestamp + 1" and "cbid' = new_cbid fn cbid (timestamp + 1)"
    and "cb' = registered fn data (timestamp + 1) cb"
  using assms
  by (auto simp: begin_call_def new_cbid_def registered_def Let_def rbind_eq_Inr_iff split: option.splits)

lemma small_call: "function_call_size (build_call (0 + 1) 0 ''C'' ''f'' []) + 8 < 2 ^ 64"
  by (simp add: build_call_def function_call_size_def value_size_def value_of_uint64_def value_of_string_def)

lemma timestamp_grows:
  assumes "(timestamp :: u64) + 1 \<noteq> 0" and "d \<le> timestamp"
  shows "d \<le> timestamp + 1" and "d \<noteq> timestamp + 1"
proof -
  have "unat (timestamp + 1) = Suc (unat timestamp)" using assms(1) unatSuc [of timestamp] by (simp add: add.commute)
  moreover have "unat d \<le> unat timestamp" using assms(2) by (simp add: word_le_nat_alt)
  ultimately show "d \<le> timestamp + 1" "d \<noteq> timestamp + 1" by (auto simp: word_le_nat_alt)
qed

lemma map_entries: "map_ok m \<Longrightarrow> (k, v) \<in> set m \<longleftrightarrow> map_find m k = Some v"
  using om.distinct_keys [of m] by (simp add: map_find_def)

section \<open>The freeze callback\<close>

text \<open>The setter of the base class: on Windows it keeps both, on macOS its body is empty.\<close>

record 'f freez_state =
  fz_cb :: "'f option"
  fz_app_state_path :: string

definition set_freez_callback :: "'f option \<Rightarrow> string \<Rightarrow> 'f freez_state \<Rightarrow> 'f freez_state" where
  "set_freez_callback cb app_state f = f\<lparr>fz_cb := cb, fz_app_state_path := app_state\<rparr>"

definition set_freez_callback_osx :: "'f option \<Rightarrow> string \<Rightarrow> 'f freez_state \<Rightarrow> 'f freez_state" where
  "set_freez_callback_osx cb app_state f = f"

section \<open>A reply that arrives\<close>

text \<open>What decoding the body of a storable reply yields, and the values its callback gets.\<close>

definition reply_for :: "function_reply \<Rightarrow> u64 \<Rightarrow> string \<Rightarrow> bool" where
  "reply_for m uid err \<longleftrightarrow> reply_ok m \<and> function_reply_size m < 2 ^ 64 \<and>
     value_content (reply_uid m) = Content64 TUInt64 uid \<and> value_content (reply_error m) = Content_Bytes TString err"

definition carries :: "function_reply \<Rightarrow> string \<Rightarrow> ipc_value list \<Rightarrow> bool" where
  "carries m err vs \<longleftrightarrow>
     (if err = [] then map value_content vs = map value_content (reply_values m) \<and> list_all plain_null vs
      else \<exists>v. vs = [v] \<and> value_type v = TNull \<and> value_str v = err)"

lemma reply_decodes:
  assumes "reply_for m uid err"
  obtains m' where "function_reply_deserialize junk (function_reply_init u) (reply_wire m) 0 =
      Inr (m', function_reply_size m)"
    and "value_union (reply_uid m') = uid" and "carries m err (delivered_values junk m')"
proof -
  obtain m' where m': "function_reply_deserialize junk (function_reply_init u) (reply_wire m) 0 =
      Inr (m', function_reply_size m)" "reply_content m' = reply_content m"
    using reply.de_mid [of m 0 "[]" "[]" junk "function_reply_init u"] assms
    by (auto simp: length_reply_wire reply_for_def)
  have "value_content (reply_uid m') = Content64 TUInt64 uid" "value_content (reply_error m') = Content_Bytes TString err"
    and vs: "map value_content (reply_values m') = map value_content (reply_values m)"
    using m'(2) assms unfolding reply_content_def reply_for_def by auto
  then have c: "value_union (reply_uid m') = uid" "value_str (reply_error m') = err"
    by (simp_all add: content_uint64 content_string)
  have "carries m err (delivered_values junk m')"
    using delivered_error [OF c(2)] delivered_results [of m' junk] c(2) vs function_reply_deserialize_plain [OF m'(1)]
    by (simp add: carries_def)
  then show thesis using that m'(1) c(1) by blast
qed

definition one_reply :: "u64 \<Rightarrow> function_reply" where
  "one_reply uid = (function_reply_init 0)\<lparr>reply_uid := value_of_uint64 uid, reply_values := [value_of_uint64 7]\<rparr>"

lemma one_reply_for: "reply_for (one_reply uid) uid []"
  by (simp add: reply_for_def one_reply_def reply_ok_def function_reply_init_def value_ok_def values_ok_def
      value_of_uint64_def value_of_string_def function_reply_size_def value_size_def value_content_def)

section \<open>The data of a synchronous call\<close>

text \<open>
  \<open>CallData\<close> lives on the stack of the caller; \<open>cd_sgn\<close> is the value of its semaphore, 0 at first. The
  stacks are a map from addresses; \<open>None\<close> for the whole world says that some callback has used the
  address of a \<open>CallData\<close> that is gone.
\<close>

record call_data =
  cd_sgn :: nat
  cd_called :: bool
  cd_values :: "ipc_value list"

type_synonym call_world = "(ptr \<Rightarrow> call_data option) option"

definition call_data_init :: call_data where
  "call_data_init = \<lparr>cd_sgn = 0, cd_called = False, cd_values = []\<rparr>"

definition stack_alloc :: "ptr \<Rightarrow> call_world \<Rightarrow> call_world" where
  "stack_alloc data w = map_option (\<lambda>h. h(data \<mapsto> call_data_init)) w"

definition stack_free :: "ptr \<Rightarrow> call_world \<Rightarrow> call_world" where
  "stack_free data w = map_option (\<lambda>h. h(data := None)) w"

text \<open>The lambda \<open>cb\<close> of the helper.\<close>

definition sync_callback :: "call_world reply_fn" where
  "sync_callback data rval w =
     (case w of
        None \<Rightarrow> None
      | Some h \<Rightarrow>
          (case h data of
             None \<Rightarrow> None
           | Some cd \<Rightarrow> Some (h(data \<mapsto> cd\<lparr>cd_values := cd_values cd @ rval, cd_called := True, cd_sgn := cd_sgn cd + 1\<rparr>))))"

end
