(* ===== verification/Waitable.thy ===== *)
theory Waitable
  imports Async_Op
begin

text \<open>
  Waiting: \<open>windows/waitable.cpp\<close>, \<open>apple/waitable.cpp\<close> and the two \<open>semaphore.cpp\<close>. The operating system
  is an argument: the answers of its wait function, one per call, each with the milliseconds the clock
  measured around it. A function that uses up the answers without returning gives \<open>None\<close> for its result
  (it is still waiting). What a wait asks the system for, its timeouts, is part of its value.
\<close>

section \<open>Windows: waiting for one item\<close>

text \<open>\<open>duration_cast<milliseconds>\<close> of a count of nanoseconds truncates towards zero.\<close>

definition to_milliseconds :: "int \<Rightarrow> int" where
  "to_milliseconds ns = (if ns < 0 then - ((- ns) div 1000000) else ns div 1000000)"

text \<open>
  The results of \<open>WaitForSingleObjectEx\<close>: \<open>WAIT_OBJECT_0\<close> 0, \<open>WAIT_ABANDONED\<close> 128,
  \<open>WAIT_IO_COMPLETION\<close> 192, \<open>WAIT_TIMEOUT\<close> 258. The result says whether the item's callback is called,
  which is the case for an \<open>async_op\<close> (\<open>aop\<close>) only.
\<close>

fun win_wait_retry :: "bool \<Rightarrow> (u32 \<times> int) list \<Rightarrow> int \<Rightarrow> u32 list \<times> (os_error \<times> bool) option" where
  "win_wait_retry aop [] ms_timeout = ([], None)"
| "win_wait_retry aop ((res, elapsed) # env) ms_timeout =
     (let ms_timeout = (if ms_timeout < 0 then 0 else ms_timeout);
          asked = word_of_int ms_timeout in
      if res = 0 then ([asked], Some (E_Success, aop))
      else if res = 258 then ([asked], Some (E_TimedOut, False))
      else if res = 128 then ([asked], Some (E_Disconnected, False))
      else if res = 192 then
        (case win_wait_retry aop env (ms_timeout - elapsed) of (asks, out) \<Rightarrow> (asked # asks, out))
      else ([asked], Some (E_Error, False)))"

definition win_wait_for :: "bool \<Rightarrow> (u32 \<times> int) list \<Rightarrow> int \<Rightarrow> u32 list \<times> (os_error \<times> bool) option" where
  "win_wait_for aop env timeout = win_wait_retry aop env (to_milliseconds timeout)"

text \<open>\<open>wait(item)\<close>: \<open>INFINITE\<close> is \<open>0xFFFFFFFF\<close>, passed as a number of milliseconds.\<close>

definition win_wait :: "bool \<Rightarrow> (u32 \<times> int) list \<Rightarrow> u32 list \<times> (os_error \<times> bool) option" where
  "win_wait aop env = win_wait_for aop env (4294967295 * 1000000)"

section \<open>Windows: waiting for any of several items\<close>

text \<open>
  The first loop of \<open>wait_any\<close>: the handles of the items that are there, and the index table. An item
  is \<open>None\<close> for a null pointer, else its handle and whether it is an \<open>async_op\<close>.
\<close>

type_synonym wait_item = "(u64 \<times> bool) option"

fun collect_handles ::
  "wait_item list \<Rightarrow> nat \<Rightarrow> nat \<Rightarrow> u64 list \<Rightarrow> nat list \<Rightarrow> nat \<times> u64 list \<times> nat list"
where
  "collect_handles [] idx valid_handles handles idxToTrueIdx = (valid_handles, handles, idxToTrueIdx)"
| "collect_handles (None # items) idx valid_handles handles idxToTrueIdx =
     collect_handles items (Suc idx) valid_handles handles idxToTrueIdx"
| "collect_handles (Some (h, aop) # items) idx valid_handles handles idxToTrueIdx =
     collect_handles items (Suc idx) (Suc valid_handles) (handles[valid_handles := h])
       (idxToTrueIdx[idx := valid_handles])"

text \<open>
  The outcome: the error code, the signalled index (\<open>-1\<close>, the largest \<open>size_t\<close>, on a timeout; \<open>None\<close>
  when it is left as it was), and the index of the item whose callback is called.
\<close>

type_synonym any_outcome = "os_error \<times> nat option \<times> nat option"

definition table_at :: "nat list \<Rightarrow> nat \<Rightarrow> nat result" where
  "table_at t i = (if i < length t then Inr (t ! i) else Inl Bad_Access)"

fun win_wait_any_retry ::
  "wait_item list \<Rightarrow> nat list \<Rightarrow> (u32 \<times> int) list \<Rightarrow> int \<Rightarrow> u32 list \<times> any_outcome result option"
where
  "win_wait_any_retry items idxToTrueIdx [] ms_timeout = ([], None)"
| "win_wait_any_retry items idxToTrueIdx ((res, elapsed) # env) ms_timeout =
     (let ms_timeout = (if ms_timeout < 0 then 0 else ms_timeout);
          asked = word_of_int ms_timeout in
      if res < 64 then
        ([asked], Some (rbind (table_at idxToTrueIdx (unat res)) (\<lambda>signalled_index.
           if length items \<le> signalled_index then Inl Bad_Access
           else Inr (E_Success, Some signalled_index,
             (case items ! signalled_index of Some (h, True) \<Rightarrow> Some signalled_index | _ \<Rightarrow> None)))))
      else if res = 258 then ([asked], Some (Inr (E_TimedOut, Some (2 ^ 64 - 1), None)))
      else if 128 \<le> res \<and> res < 192 then
        ([asked], Some (rbind (table_at idxToTrueIdx (unat (res - 128))) (\<lambda>signalled_index.
           Inr (E_Disconnected, Some signalled_index, None))))
      else if res = 192 then
        (case win_wait_any_retry items idxToTrueIdx env (ms_timeout - elapsed) of
           (asks, out) \<Rightarrow> (asked # asks, out))
      else ([asked], Some (Inr (E_Error, None, None))))"

text \<open>\<open>items\<close> is \<open>None\<close> for a null array. The vectors start out with zeros.\<close>

definition win_wait_any ::
  "wait_item list option \<Rightarrow> (u32 \<times> int) list \<Rightarrow> int \<Rightarrow> u32 list \<times> any_outcome result option"
where
  "win_wait_any items env timeout =
     (case items of
        None \<Rightarrow> ([], Some (Inl (Exception ([CHR 0x27] @ ''items'' @ [CHR 0x27] @ '' can'' @ [CHR 0x27]
                  @ ''t be nullptr.''))))
      | Some items \<Rightarrow>
          if 64 < length items then ([], Some (Inl (Exception ''Too many items to wait for.'')))
          else (case collect_handles items 0 0 (replicate (length items) 0) (replicate (length items) 0) of
                  (valid_handles, handles, idxToTrueIdx) \<Rightarrow>
                    win_wait_any_retry items idxToTrueIdx env (to_milliseconds timeout)))"

section \<open>macOS\<close>

text \<open>
  \<open>wait\<close> with a timeout polls \<open>sem_trywait\<close>: every answer other than 0 is retried, whatever is left of
  the timeout. Without a timeout it is one \<open>sem_wait\<close>. \<open>wait_any\<close> is an error.
\<close>

fun osx_wait_retry :: "bool \<Rightarrow> (int \<times> int) list \<Rightarrow> int \<Rightarrow> (os_error \<times> bool) option" where
  "osx_wait_retry aop [] ms_timeout = None"
| "osx_wait_retry aop ((res, elapsed) # env) ms_timeout =
     (let ms_timeout = (if ms_timeout < 0 then 0 else ms_timeout) in
      if res = 0 then Some (E_Success, aop)
      else osx_wait_retry aop env (ms_timeout - elapsed))"

definition osx_wait_for :: "bool \<Rightarrow> (int \<times> int) list \<Rightarrow> int \<Rightarrow> (os_error \<times> bool) option" where
  "osx_wait_for aop env timeout = osx_wait_retry aop env (to_milliseconds timeout)"

definition osx_wait :: "int \<Rightarrow> os_error" where
  "osx_wait sem_wait = (if sem_wait < 0 then E_Error else E_Success)"

definition osx_wait_any :: "wait_item list option \<Rightarrow> int \<Rightarrow> os_error" where
  "osx_wait_any items timeout = E_Error"

section \<open>Semaphores\<close>

text \<open>
  The constructors check the counts before they create the semaphore. On Windows \<open>create\<close> is the handle
  \<open>CreateSemaphoreW\<close> returns and the last error, which was cleared; the exception's text has the error
  code in hexadecimal, \<open>hex\<close>. The documented effect of \<open>ReleaseSemaphore\<close> on the count is
  \<open>release_semaphore\<close>: it fails with \<open>ERROR_TOO_MANY_POSTS\<close> when the maximum would be exceeded.
\<close>

definition check_counts :: "int \<Rightarrow> int \<Rightarrow> unit result" where
  "check_counts initial_count maximum_count =
     (if maximum_count < initial_count
      then Inl (Exception (''initial_count can'' @ [CHR 0x27] @ ''t be larger than maximum_count''))
      else if maximum_count = 0 then Inl (Exception (''maximum_count can'' @ [CHR 0x27] @ ''t be 0''))
      else Inr ())"

definition win_semaphore_make :: "(u32 \<Rightarrow> string) \<Rightarrow> (u64 \<times> u32) \<Rightarrow> int \<Rightarrow> int \<Rightarrow> u64 result" where
  "win_semaphore_make hex create initial_count maximum_count =
     rbind (check_counts initial_count maximum_count) (\<lambda>_.
     if fst create = 0 \<or> snd create \<noteq> 0
     then Inl (Exception (''Semaphore creation failed with error code '' @ hex (snd create) @ ''.''))
     else Inr (fst create))"

text \<open>The destructor: the handle it closes.\<close>

definition win_semaphore_destroy :: "u64 \<Rightarrow> u64 option" where
  "win_semaphore_destroy handle = (if handle \<noteq> 0 then Some handle else None)"

definition win_semaphore_signal :: "(bool \<times> u32) \<Rightarrow> os_error" where
  "win_semaphore_signal release =
     (if \<not> fst release then (if snd release = 298 then E_TooMuchData else E_Error) else E_Success)"

definition osx_semaphore_make :: "u64 \<Rightarrow> int \<Rightarrow> int \<Rightarrow> u64 result" where
  "osx_semaphore_make sem_open initial_count maximum_count =
     rbind (check_counts initial_count maximum_count) (\<lambda>_. Inr sem_open)"

text \<open>\<open>count\<close> is not used: one post whatever it says.\<close>

definition osx_semaphore_signal :: "int \<Rightarrow> u32 \<Rightarrow> os_error" where
  "osx_semaphore_signal sem_post count = (if sem_post < 0 then E_Error else E_Success)"

section \<open>Lemmas\<close>

text \<open>What a final answer of the system means.\<close>

definition wait_outcome :: "bool \<Rightarrow> u32 \<Rightarrow> os_error \<times> bool" where
  "wait_outcome aop res =
     (if res = 0 then (E_Success, aop) else if res = 258 then (E_TimedOut, False)
      else if res = 128 then (E_Disconnected, False) else (E_Error, False))"

lemma win_wait_retry_interrupted:
  "list_all (\<lambda>e. 0 \<le> e) es \<Longrightarrow> res \<noteq> 192 \<Longrightarrow>
   win_wait_retry aop (map (\<lambda>e. (192, e)) es @ [(res, e')]) ms =
     (map (\<lambda>k. word_of_int (max 0 (ms - sum_list (take k es)))) [0..<Suc (length es)], Some (wait_outcome aop res))"
proof (induction es arbitrary: ms)
  case (Cons e es)
  have "win_wait_retry aop (map (\<lambda>e. (192, e)) es @ [(res, e')]) (max 0 ms - e) =
      (map (\<lambda>k. word_of_int (max 0 (max 0 ms - e - sum_list (take k es)))) [0..<Suc (length es)],
       Some (wait_outcome aop res))"
    using Cons by simp
  moreover have "max 0 (max 0 ms - e - sum_list (take k es)) = max 0 (ms - (e + sum_list (take k es)))" for k
  proof -
    have "0 \<le> e" "0 \<le> sum_list (take k es)"
      using Cons.prems(1) by (auto intro!: sum_list_nonneg simp: list_all_iff dest: in_set_takeD)
    then show ?thesis by linarith
  qed
  moreover have "(if ms < 0 then 0 else ms) = max 0 ms" by simp
  ultimately show ?case
    by (simp add: Let_def map_upt_Suc del: upt_Suc)
qed (simp add: wait_outcome_def max_def not_less)

definition present :: "wait_item list \<Rightarrow> nat list" where
  "present items = filter (\<lambda>i. items ! i \<noteq> None) [0..<length items]"

lemma collect_handles_table:
  "length tbl = idx + length items \<Longrightarrow> collect_handles items idx v hs tbl = (v', hs', tbl') \<Longrightarrow>
   length tbl' = length tbl \<and> v' = v + length (filter (\<lambda>x. x \<noteq> None) items) \<and>
   (\<forall>j < length tbl. tbl' ! j = (if idx \<le> j \<and> items ! (j - idx) \<noteq> None
      then v + length (filter (\<lambda>x. x \<noteq> None) (take (j - idx) items)) else tbl ! j))"
proof (induction items idx v hs tbl rule: collect_handles.induct)
  case (2 items idx v hs tbl)
  then show ?case by (auto simp: nth_Cons' Suc_diff_le take_Cons')
next
  case (3 h aop items idx v hs tbl)
  then show ?case by (auto simp: nth_Cons' take_Cons' nth_list_update Suc_diff_le)
qed auto

text \<open>No null pointer stands before an item that is there.\<close>

definition nulls_trail :: "wait_item list \<Rightarrow> bool" where
  "nulls_trail items \<longleftrightarrow> (\<forall>j < length items. items ! j \<noteq> None \<longrightarrow> (\<forall>i < j. items ! i \<noteq> None))"

lemma filter_upt_closed:
  "\<forall>j < n. P j \<longrightarrow> (\<forall>i < j. P i) \<Longrightarrow> filter P [0..<n] = [0..<length (filter P [0..<n])]"
proof (induction n)
  case (Suc n)
  show ?case
  proof (cases "P n")
    case True
    then have "\<forall>i < Suc n. P i" using Suc.prems by (auto simp: less_Suc_eq)
    then have "filter P [0..<Suc n] = [0..<Suc n]" by (auto intro: filter_True)
    then show ?thesis by simp
  next
    case False
    then have "filter P [0..<Suc n] = filter P [0..<n]" by simp
    with Suc show ?thesis by (metis less_Suc_eq)
  qed
qed simp

lemma filter_take_upt:
  "k \<le> length xs \<Longrightarrow> length (filter Q (take k xs)) = length (filter (\<lambda>i. Q (xs ! i)) [0..<k])"
  by (induction k) (auto simp: take_Suc_conv_app_nth)

lemma win_wait_any_signalled:
  assumes "length items \<le> 64" and "k < length items"
  shows "snd (win_wait_any (Some items) [(of_nat k, e)] timeout) =
    (let i = if items ! k \<noteq> None then length (filter (\<lambda>x. x \<noteq> None) (take k items)) else 0 in
     Some (Inr (E_Success, Some i, case items ! i of Some (h, True) \<Rightarrow> Some i | _ \<Rightarrow> None)))"
proof -
  let ?z = "replicate (length items) 0"
  obtain v' hs' tbl' where c: "collect_handles items 0 0 (replicate (length items) 0) (replicate (length items) 0) = (v', hs', tbl')"
    by (cases "collect_handles items 0 0 (replicate (length items) 0) (replicate (length items) 0)") auto
  have t: "length tbl' = length items" "tbl' ! k = (if items ! k \<noteq> None
      then length (filter (\<lambda>x. x \<noteq> None) (take k items)) else 0)"
    using collect_handles_table [OF _ c] assms(2) by auto
  have "length (filter (\<lambda>x. x \<noteq> None) (take k items)) \<le> k"
    using length_filter_le [of _ "take k items"] by (rule order_trans) simp
  then have b: "tbl' ! k < length items" using t(2) assms(2) by (auto split: if_splits)
  have k: "(of_nat k :: u32) < 64" "unat (of_nat k :: u32) = k"
    using assms by (simp_all add: word_less_nat_alt unat_of_nat_u32)
  have "snd (win_wait_any (Some items) [(of_nat k, e)] timeout) =
      Some (Inr (E_Success, Some (tbl' ! k), case items ! (tbl' ! k) of Some (h, True) \<Rightarrow> Some (tbl' ! k) | _ \<Rightarrow> None))"
    using assms k b t(1) by (simp add: win_wait_any_def c Let_def table_at_def)
  then show ?thesis unfolding Let_def t(2) .
qed

lemma present_trailing:
  assumes "nulls_trail items" and "k < length (present items)"
  shows "present items ! k = k" and "items ! k \<noteq> None" and "length (filter (\<lambda>x. x \<noteq> None) (take k items)) = k"
proof -
  have p: "present items = [0..<length (present items)]"
    unfolding present_def by (rule filter_upt_closed) (use assms(1) in \<open>auto simp: nulls_trail_def\<close>)
  then show k: "present items ! k = k" using assms(2) by (metis add_0 nth_upt)
  have m: "k \<in> set (present items)" using k assms(2) nth_mem by metis
  then show "items ! k \<noteq> None" by (simp add: present_def)
  have "\<forall>i < k. items ! i \<noteq> None" using m assms(1) by (auto simp: present_def nulls_trail_def)
  moreover have "k \<le> length items" using m by (simp add: present_def)
  ultimately show "length (filter (\<lambda>x. x \<noteq> None) (take k items)) = k"
    by (simp add: filter_take_upt filter_True)
qed

lemma present_gap:
  assumes "\<not> nulls_trail items"
  obtains k where "k < length (present items)" "items ! k = None" "present items ! k \<noteq> 0"
proof -
  obtain i j where ij: "i < j" "j < length items" "items ! j \<noteq> None" "items ! i = None"
    using assms unfolding nulls_trail_def by blast
  define k where "k = (LEAST i. items ! i = None)"
  have "items ! k = None" unfolding k_def using ij(4) by (rule LeastI)
  moreover have "\<And>i. i < k \<Longrightarrow> items ! i \<noteq> None" unfolding k_def by (rule not_less_Least)
  moreover have "k \<le> i" unfolding k_def using ij(4) by (rule Least_le)
  ultimately have k: "items ! k = None" "\<And>i. i < k \<Longrightarrow> items ! i \<noteq> None" "k \<le> i" by blast+
  have split: "[0..<length items] = [0..<k] @ [k..<length items]"
    using k(3) ij(1,2) upt_add_eq_append [of 0 k "length items - k"] by simp
  have "filter (\<lambda>i. items ! i \<noteq> None) [0..<k] = [0..<k]" using k(2) by (auto intro: filter_True)
  then have p: "present items = [0..<k] @ filter (\<lambda>i. items ! i \<noteq> None) [k..<length items]"
    by (simp add: present_def split)
  have "j \<in> set (filter (\<lambda>i. items ! i \<noteq> None) [k..<length items])" using ij k(3) by simp
  then have ne: "filter (\<lambda>i. items ! i \<noteq> None) [k..<length items] \<noteq> []" by (rule list.set_cases) simp_all
  then have len: "k < length (present items)" by (simp add: p)
  have "present items ! k \<in> set (filter (\<lambda>i. items ! i \<noteq> None) [k..<length items])"
    using ne nth_mem [of 0 "filter (\<lambda>i. items ! i \<noteq> None) [k..<length items]"]
    unfolding p by (simp only: nth_append length_upt) simp
  then have "k \<le> present items ! k" "items ! (present items ! k) \<noteq> None" by auto
  then have "present items ! k \<noteq> 0" using k(1) by (metis le_zero_eq)
  with that len k(1) show thesis by blast
qed

section \<open>Properties\<close>

text \<open>C38. Waiting on Windows with interruptions: after any number of \<open>WAIT_IO_COMPLETION\<close> answers the wait
  is repeated for what is left of the timeout, never less than 0 and cut to 32 bits, and the first other
  answer decides the result; the callback of an \<open>async_op\<close> is called exactly on success.\<close>

theorem win_wait_for_spec:
  assumes "list_all (\<lambda>e. 0 \<le> e) es" and "res \<noteq> 192"
  shows "win_wait_for aop (map (\<lambda>e. (192, e)) es @ [(res, e')]) timeout =
    (map (\<lambda>k. word_of_int (max 0 (to_milliseconds timeout - sum_list (take k es)))) [0..<Suc (length es)],
     Some (wait_outcome aop res))"
  unfolding win_wait_for_def using assms by (rule win_wait_retry_interrupted)

theorem win_wait_for_spec_witness:
  "win_wait_for True [(192, 5), (0, 0)] 20000000 = ([20, 15], Some (E_Success, True))"
proof -
  have "list_all (\<lambda>e. 0 \<le> e) [5 :: int]" "(0 :: u32) \<noteq> 192" by simp_all
  from win_wait_for_spec [OF this, of True 0 20000000] show ?thesis
    by (simp add: to_milliseconds_def wait_outcome_def)
qed

text \<open>C37. A wait without timeout on Windows is not without timeout once an I/O completion interrupts it
  for a millisecond or more: the next wait asks for a finite time, the rest of \<open>2 ^ 32 - 1\<close>
  milliseconds, and the timeout it may then report is returned to the caller.\<close>

theorem infinite_wait_becomes_finite:
  assumes "1 \<le> e" and "e \<le> 4294967295"
  shows "win_wait aop [(192, e), (258, e')] =
      ([-1, word_of_int (4294967295 - e)], Some (E_TimedOut, False)) \<and>
    word_of_int (4294967295 - e) \<noteq> (-1 :: u32)"
proof -
  have "uint (word_of_int x :: u32) = x" if "0 \<le> x" "x < 2 ^ 32" for x
    using that by (simp add: uint_word_of_int)
  from this [of "4294967295 - e"] have "uint (word_of_int (4294967295 - e) :: u32) = 4294967295 - e"
    using assms by simp
  moreover have "uint (-1 :: u32) = 4294967295" by (simp add: unsigned_minus_1_eq_mask mask_eq_exp_minus_1)
  ultimately have "word_of_int (4294967295 - e) \<noteq> (-1 :: u32)" using assms(1) by fastforce
  then show ?thesis
    using assms by (simp add: win_wait_def win_wait_for_def to_milliseconds_def)
qed

theorem infinite_wait_becomes_finite_witness:
  "snd (win_wait True [(192, 7), (258, 4294967288)]) = Some (E_TimedOut, False)"
  using infinite_wait_becomes_finite [of 7 True 4294967288] by simp

text \<open>C36. The index \<open>wait_any\<close> reports on Windows is the index of the signalled item for every signalled
  item if and only if no null pointer stands before an item that is there. With a null pointer before
  it, some signalled item is reported under the index of another one.\<close>

theorem wait_any_correct_iff:
  assumes "length items \<le> 64"
  shows "(\<forall>k < length (present items).
      \<exists>cb. snd (win_wait_any (Some items) [(of_nat k, e)] timeout) = Some (Inr (E_Success, Some (present items ! k), cb))) \<longleftrightarrow>
    nulls_trail items"
proof
  assume all: "\<forall>k < length (present items).
    \<exists>cb. snd (win_wait_any (Some items) [(of_nat k, e)] timeout) = Some (Inr (E_Success, Some (present items ! k), cb))"
  show "nulls_trail items"
  proof (rule ccontr)
    assume "\<not> nulls_trail items"
    then obtain k where k: "k < length (present items)" "items ! k = None" "present items ! k \<noteq> 0"
      by (rule present_gap)
    have "k < length items" using k(1) length_filter_le [of _ "[0..<length items]"]
      by (auto simp: present_def intro: less_le_trans)
    with all k assms show False
      by (auto simp: win_wait_any_signalled Let_def)
  qed
next
  assume t: "nulls_trail items"
  show "\<forall>k < length (present items).
    \<exists>cb. snd (win_wait_any (Some items) [(of_nat k, e)] timeout) = Some (Inr (E_Success, Some (present items ! k), cb))"
  proof (intro allI impI)
    fix k assume k: "k < length (present items)"
    have "k < length items" using k length_filter_le [of _ "[0..<length items]"]
      by (auto simp: present_def intro: less_le_trans)
    then show "\<exists>cb. snd (win_wait_any (Some items) [(of_nat k, e)] timeout) =
        Some (Inr (E_Success, Some (present items ! k), cb))"
      using present_trailing [OF t k] assms by (simp add: win_wait_any_signalled Let_def)
  qed
qed

theorem wait_any_correct_iff_witness:
  "\<not> (\<forall>k < length (present [None, Some (1, True)]). \<exists>cb. snd (win_wait_any (Some [None, Some (1, True)]) [(of_nat k, 0)] 0) =
      Some (Inr (E_Success, Some (present [None, Some (1, True)] ! k), cb)))"
proof -
  have "length [None, Some (1 :: u64, True)] \<le> 64" by simp
  moreover have "\<not> nulls_trail [None, Some (1, True)]"
    unfolding nulls_trail_def by (intro notI, drule spec [of _ 1]) auto
  ultimately show ?thesis using wait_any_correct_iff [of "[None, Some (1, True)]" 0 0] by blast
qed

end
