(* ===== verification/Client_Win.thy ===== *)
theory Client_Win
  imports Client_Base Waitable
begin

text \<open>
  The Windows client (\<open>windows/ipc-client-win.cpp\<close>): calls register a callback under the unique id of
  their message and write a frame; the worker thread reads replies and hands each to the callback of its
  id; when the worker ends it tells every remaining callback. What the socket and the waits answer are
  arguments. \<open>fn\<close> is the code of a callback: its effect on the world, given its data and the values.
\<close>

section \<open>State\<close>

record 'w client_win =
  cw_socket :: bool
  cw_cb :: "'w callbacks"
  cw_stop :: bool
  cw_buf :: buffer
  cw_rop_valid :: bool
  cw_disconnect_cb :: "('w \<Rightarrow> 'w) option"

text \<open>
  The constructor and \<open>start\<close>: \<open>created\<close> is the result of opening the pipe. \<open>exchange\<close> lets only the first
  start and the first stop act.
\<close>

definition client_win_make :: "('w \<Rightarrow> 'w) option \<Rightarrow> 'w client_win" where
  "client_win_make disconnectionCallback =
     \<lparr>cw_socket = False, cw_cb = [], cw_stop = True, cw_buf = [], cw_rop_valid = False,
      cw_disconnect_cb = disconnectionCallback\<rparr>"

definition client_win_start :: "unit result \<Rightarrow> 'w client_win \<Rightarrow> 'w client_win result" where
  "client_win_start created c =
     (if cw_stop c then rbind created (\<lambda>_. Inr (c\<lparr>cw_stop := False, cw_socket := True\<rparr>))
      else Inr (c\<lparr>cw_stop := False\<rparr>))"

definition client_win_stop :: "'w client_win \<Rightarrow> 'w client_win" where
  "client_win_stop c =
     (if \<not> cw_stop c then c\<lparr>cw_stop := True, cw_socket := False\<rparr> else c\<lparr>cw_stop := True\<rparr>)"

text \<open>\<open>client::create\<close>, with or without a callback for the loss of the connection, and the destructor.\<close>

definition client_win_create :: "unit result \<Rightarrow> ('w \<Rightarrow> 'w) option \<Rightarrow> 'w client_win result" where
  "client_win_create created disconnectionCallback = client_win_start created (client_win_make disconnectionCallback)"

text \<open>The client that \<open>client::create\<close> returns when the pipe can be opened; its worker runs.\<close>

definition client_win_open :: "('w \<Rightarrow> 'w) option \<Rightarrow> 'w client_win" where
  "client_win_open disconnectionCallback = (client_win_make disconnectionCallback)\<lparr>cw_stop := False, cw_socket := True\<rparr>"

lemma client_win_create_open: "client_win_create (Inr ()) cb = Inr (client_win_open cb)"
  by (simp add: client_win_create_def client_win_start_def client_win_make_def client_win_open_def)

definition client_win_destroy :: "'w client_win \<Rightarrow> 'w client_win" where
  "client_win_destroy c = client_win_stop c"

section \<open>Calls\<close>

text \<open>\<open>m_cb.erase(id) != 0\<close>\<close>

definition client_win_cancel :: "int \<Rightarrow> 'w client_win \<Rightarrow> bool \<times> 'w client_win" where
  "client_win_cancel cid c = (map_count (cw_cb c) cid \<noteq> 0, c\<lparr>cw_cb := map_erase cid (cw_cb c)\<rparr>)"

text \<open>The first part of \<open>call\<close>.\<close>

definition client_win_begin ::
  "u64 \<Rightarrow> string \<Rightarrow> string \<Rightarrow> ipc_value list \<Rightarrow> ('w reply_fn) option \<Rightarrow> ptr \<Rightarrow> int \<Rightarrow> u64 \<Rightarrow> 'w client_win
   \<Rightarrow> (buffer \<times> int \<times> u64 \<times> 'w client_win) result"
where
  "client_win_begin u cname fname args fn data cbid timestamp c =
     rbind (begin_call u cname fname args fn data cbid timestamp (cw_cb c)) (\<lambda>(buf, cbid, timestamp, cb).
     Inr (buf, cbid, timestamp, c\<lparr>cw_cb := cb\<rparr>))"

text \<open>
  The second part: the write and the wait for it, which is repeated while it times out. \<open>waits\<close> are the
  answers of the waits; \<open>None\<close> when they do not suffice.
\<close>

fun first_not_timed_out :: "os_error list \<Rightarrow> os_error option" where
  "first_not_timed_out [] = None"
| "first_not_timed_out (ec # ecs) = (if ec = E_TimedOut then first_not_timed_out ecs else Some ec)"

text \<open>The calls of the freeze callback meanwhile, one per timed-out wait, by their first argument.\<close>

fun call_freez_events :: "bool \<Rightarrow> os_error list \<Rightarrow> bool list" where
  "call_freez_events has_cb [] = []"
| "call_freez_events has_cb (ec # ecs) =
     (if ec = E_TimedOut then (if has_cb then [False] else []) @ call_freez_events has_cb ecs else [])"

definition client_win_finish ::
  "os_error \<Rightarrow> os_error list \<Rightarrow> int \<Rightarrow> 'w client_win \<Rightarrow> (bool \<times> 'w client_win) option"
where
  "client_win_finish ec waits cbid c =
     (if ec \<noteq> E_Success \<and> ec \<noteq> E_Pending then Some (False, snd (client_win_cancel cbid c))
      else (case first_not_timed_out waits of
              None \<Rightarrow> None
            | Some ec \<Rightarrow>
                if ec \<noteq> E_Success then Some (False, snd (client_win_cancel cbid c))
                else Some (True, c)))"

definition client_win_call ::
  "u64 \<Rightarrow> os_error \<Rightarrow> os_error list \<Rightarrow> string \<Rightarrow> string \<Rightarrow> ipc_value list \<Rightarrow> ('w reply_fn) option \<Rightarrow> ptr \<Rightarrow> int \<Rightarrow> u64
   \<Rightarrow> 'w client_win \<Rightarrow> (bool \<times> buffer \<times> int \<times> u64 \<times> 'w client_win) result option"
where
  "client_win_call u ec waits cname fname args fn data cbid timestamp c =
     (if \<not> cw_socket c then Some (Inr (False, [], cbid, timestamp, c))
      else (case client_win_begin u cname fname args fn data cbid timestamp c of
              Inl e \<Rightarrow> Some (Inl e)
            | Inr (buf, cbid, timestamp, c) \<Rightarrow>
                (case client_win_finish ec waits cbid c of
                   None \<Rightarrow> None
                 | Some (b, c) \<Rightarrow> Some (Inr (b, buf, cbid, timestamp, c)))))"

section \<open>The worker\<close>

text \<open>
  \<open>read_callback_msg\<close>: the error code is not looked at. The reply goes to the callback of its id, if
  there is one, which is then forgotten.
\<close>

definition client_win_read_msg ::
  "(nat \<Rightarrow> u64) \<Rightarrow> u64 \<Rightarrow> 'w client_win \<times> 'w \<Rightarrow> ('w client_win \<times> 'w) result"
where
  "client_win_read_msg junk u = (\<lambda>(c, w).
     let c = c\<lparr>cw_rop_valid := False\<rparr> in
     rbind (function_reply_deserialize junk (function_reply_init u) (cw_buf c) 0) (\<lambda>(reply, _).
     let key = callback_key (value_union (reply_uid reply)) in
     case map_find (cw_cb c) key of
       None \<Rightarrow> Inr (c, w)
     | Some (f, data) \<Rightarrow>
         let w = f data (delivered_values junk reply) w in
         Inr (c\<lparr>cw_cb := map_erase key (cw_cb c)\<rparr>, w)))"

text \<open>
  \<open>read_callback_init\<close>: \<open>ec2\<close> is what the read of the body returns. When that read fails at once, \<open>fired\<close>,
  the socket has already run its callback, \<open>read_callback_msg\<close>, with the same code. What the worker
  thread throws ends the process.
\<close>

definition client_win_read_init ::
  "(nat \<Rightarrow> u64) \<Rightarrow> u64 \<Rightarrow> os_error \<Rightarrow> os_error \<Rightarrow> bool \<Rightarrow> 'w client_win \<times> 'w \<Rightarrow> ('w client_win \<times> 'w) result"
where
  "client_win_read_init junk u ec ec2 fired = (\<lambda>(c, w).
     let c = c\<lparr>cw_rop_valid := False\<rparr> in
     if ec = E_Success \<or> ec = E_MoreData then
       rbind (read_size (cw_buf c)) (\<lambda>n_size.
       if n_size \<noteq> 0 then
         let c = c\<lparr>cw_buf := resize_bytes n_size (cw_buf c), cw_rop_valid := \<not> fired\<rparr> in
         rbind (if fired then client_win_read_msg junk u (c, w) else Inr (c, w)) (\<lambda>(c, w).
         if ec2 \<noteq> E_Pending \<and> ec2 \<noteq> E_Success then
           (if ec2 = E_Disconnected then Inr (c\<lparr>cw_rop_valid := False\<rparr>, w)
            else Inl (Exception ''Unexpected error.''))
         else Inr (c, w))
       else Inr (c, w))
     else Inr (c, w))"

text \<open>One iteration of the loop of \<open>worker\<close>, up to the waits, whose callbacks are the two above.\<close>

datatype 'c loop = Goes_On 'c | Leaves 'c | Throws string

definition client_win_worker ::
  "bool \<Rightarrow> os_error \<Rightarrow> os_error \<Rightarrow> os_error \<Rightarrow> 'w client_win \<Rightarrow> 'w client_win loop"
where
  "client_win_worker connected read_ec wait_now wait_20 c =
     (if \<not> (connected \<and> \<not> cw_stop c) then Leaves c
      else
        let c1 = (if \<not> cw_rop_valid c then c\<lparr>cw_buf := resize_bytes 8 (cw_buf c)\<rparr> else c) in
        if \<not> cw_rop_valid c \<and> read_ec \<noteq> E_Pending \<and> read_ec \<noteq> E_Success then
          (if read_ec = E_Disconnected then Leaves c1 else Throws ''Unexpected error.'')
        else
          let c2 = c1\<lparr>cw_rop_valid := True\<rparr> in
          if wait_now = E_Success then Goes_On c2
          else if wait_20 = E_TimedOut then Goes_On c2
          else if wait_20 = E_Disconnected then Leaves c2
          else if wait_20 = E_Error then Throws ''Error''
          else Goes_On c2)"

text \<open>The end of \<open>worker\<close>: every remaining callback is told, in the order of the ids.\<close>

definition lost_values :: "u64 \<Rightarrow> ipc_value list" where
  "lost_values u = [(value_default u)\<lparr>value_type := TNull, value_str := ''Lost IPC Connection''\<rparr>]"

definition client_win_flush :: "u64 \<Rightarrow> bool \<Rightarrow> 'w client_win \<times> 'w \<Rightarrow> 'w client_win \<times> 'w" where
  "client_win_flush u connected = (\<lambda>(c, w).
     let w = fold (\<lambda>(_, f, data) w. f data (lost_values u) w) (cw_cb c) w;
         c = c\<lparr>cw_cb := []\<rparr> in
     (c, if \<not> connected then (case cw_disconnect_cb c of Some g \<Rightarrow> g w | None \<Rightarrow> w) else w))"

section \<open>Lemmas\<close>

lemma client_win_begin_frame:
  assumes "function_call_size (build_call (timestamp + 1) u cname fname args) + 8 < 2 ^ 64"
  shows "client_win_begin u cname fname args fn data cbid timestamp c =
    Inr (frame_image (call_wire (build_call (timestamp + 1) u cname fname args)),
      new_cbid fn cbid (timestamp + 1), timestamp + 1,
      c\<lparr>cw_cb := registered fn data (timestamp + 1) (cw_cb c)\<rparr>)"
  unfolding client_win_begin_def begin_call_frame [OF assms] by simp

lemma client_win_begin_cases:
  assumes "client_win_begin u cname fname args fn data cbid timestamp c = Inr (buf, cbid', timestamp', c')"
  shows "timestamp' = timestamp + 1" and "cbid' = new_cbid fn cbid (timestamp + 1)"
    and "c' = c\<lparr>cw_cb := registered fn data (timestamp + 1) (cw_cb c)\<rparr>"
proof -
  obtain cb where b: "begin_call u cname fname args fn data cbid timestamp (cw_cb c) = Inr (buf, cbid', timestamp', cb)"
      and c: "c' = c\<lparr>cw_cb := cb\<rparr>"
    using assms by (auto simp: client_win_begin_def rbind_eq_Inr_iff)
  show "timestamp' = timestamp + 1" "cbid' = new_cbid fn cbid (timestamp + 1)"
    "c' = c\<lparr>cw_cb := registered fn data (timestamp + 1) (cw_cb c)\<rparr>"
    using begin_call_cases [OF b] c by simp_all
qed

lemma client_win_cancel_simps [simp]:
  "cw_cb (snd (client_win_cancel cid c)) = map_erase cid (cw_cb c)"
  by (simp add: client_win_cancel_def)

lemma client_win_open_simps [simp]:
  "cw_socket (client_win_open cb)" "\<not> cw_stop (client_win_open cb)" "cw_cb (client_win_open cb) = []"
  "\<not> cw_rop_valid (client_win_open cb)" "cw_disconnect_cb (client_win_open cb) = cb"
  by (simp_all add: client_win_open_def client_win_make_def)

lemma client_win_read_msg_reply:
  assumes "reply_for m uid err" and "cw_buf c = reply_wire m"
  obtains vs where "carries m err vs" and "client_win_read_msg junk u (c, w) = Inr
    (case map_find (cw_cb c) (callback_key uid) of
       None \<Rightarrow> (c\<lparr>cw_rop_valid := False\<rparr>, w)
     | Some (f, data) \<Rightarrow> (c\<lparr>cw_rop_valid := False, cw_cb := map_erase (callback_key uid) (cw_cb c)\<rparr>, f data vs w))"
proof -
  from reply_decodes [OF assms(1), of junk u] obtain m' where
    "function_reply_deserialize junk (function_reply_init u) (reply_wire m) 0 = Inr (m', function_reply_size m)"
    "value_union (reply_uid m') = uid" "carries m err (delivered_values junk m')"
    by blast
  then show thesis
    using that assms(2) by (auto simp: client_win_read_msg_def Let_def split: option.split)
qed

section \<open>The callbacks as a state machine\<close>

text \<open>
  All callbacks log the data they get and the values; the data is the unique id of their call. A step is
  the start of a call with or without a callback, a cancellation (also the one of a failed call), a
  reply, whatever its bytes, or the end of the worker. The timestamp does not wrap.
\<close>

type_synonym call_log = "(ptr \<times> ipc_value list) list"

definition log_reply :: "call_log reply_fn" where
  "log_reply data vals w = w @ [(data, vals)]"

inductive client_step ::
  "call_log client_win \<times> call_log \<times> u64 \<Rightarrow> call_log client_win \<times> call_log \<times> u64 \<Rightarrow> bool"
where
  call: "client_win_begin u cname fname args (Some log_reply) (timestamp + 1) cbid timestamp c = Inr (buf, cbid', timestamp', c') \<Longrightarrow>
    timestamp + 1 \<noteq> 0 \<Longrightarrow> client_step (c, w, timestamp) (c', w, timestamp')"
| call_plain: "client_win_begin u cname fname args None data cbid timestamp c = Inr (buf, cbid', timestamp', c') \<Longrightarrow>
    timestamp + 1 \<noteq> 0 \<Longrightarrow> client_step (c, w, timestamp) (c', w, timestamp')"
| cancel: "client_step (c, w, timestamp) (snd (client_win_cancel cid c), w, timestamp)"
| reply: "client_win_read_msg junk u (c\<lparr>cw_buf := bytes\<rparr>, w) = Inr (c', w') \<Longrightarrow>
    client_step (c, w, timestamp) (c', w', timestamp)"
| lost: "client_win_flush u connected (c, w) = (c', w') \<Longrightarrow> cw_disconnect_cb c = None \<Longrightarrow>
    client_step (c, w, timestamp) (c', w', timestamp)"

definition client_start :: "call_log client_win \<times> call_log \<times> u64 \<Rightarrow> bool" where
  "client_start st \<longleftrightarrow> st = (client_win_make None, [], 0)"

text \<open>Pending and answered calls are disjoint, no call is answered twice, and all have been made.\<close>

definition client_inv :: "call_log client_win \<times> call_log \<times> u64 \<Rightarrow> bool" where
  "client_inv = (\<lambda>(c, w, timestamp). map_ok (cw_cb c) \<and> cw_disconnect_cb c = None \<and>
     (\<forall>k f d. map_find (cw_cb c) k = Some (f, d) \<longrightarrow>
        f = log_reply \<and> k = callback_key d \<and> d \<le> timestamp \<and> d \<notin> fst ` set w) \<and>
     (\<forall>d \<in> fst ` set w. d \<le> timestamp) \<and> distinct (map fst w))"

lemma client_read_msg_cases:
  assumes "client_win_read_msg junk u (c, w) = Inr (c', w')"
  obtains (unknown) "c' = c\<lparr>cw_rop_valid := False\<rparr>" "w' = w"
  | (known) key f data vals where "map_find (cw_cb c) key = Some (f, data)" "w' = f data vals w"
      "c' = c\<lparr>cw_rop_valid := False, cw_cb := map_erase key (cw_cb c)\<rparr>"
  using assms by (auto simp: client_win_read_msg_def Let_def rbind_eq_Inr_iff split: option.splits)

lemma fold_log:
  "\<forall>(k, f, d) \<in> set m. f = log_reply \<Longrightarrow>
   fold (\<lambda>(_, f, data) w. f data vals w) m w = w @ map (\<lambda>(k, f, d). (d, vals)) m"
  by (induction m arbitrary: w) (auto simp: log_reply_def)

lemma client_inv_grow:
  assumes "client_inv (c, w, timestamp)" and "timestamp + 1 \<noteq> 0"
  shows "client_inv (c, w, timestamp + 1)"
  using assms(1) timestamp_grows [OF assms(2)] unfolding client_inv_def by blast

lemma client_inv_insert:
  assumes "client_inv (c, w, timestamp)" and "timestamp + 1 \<noteq> 0"
  shows "client_inv (c\<lparr>cw_cb := map_insert (callback_key (timestamp + 1)) (log_reply, timestamp + 1) (cw_cb c)\<rparr>,
    w, timestamp + 1)"
proof -
  have "timestamp + 1 \<notin> fst ` set w"
    using assms(1) timestamp_grows [OF assms(2)] unfolding client_inv_def by blast
  with client_inv_grow [OF assms] show ?thesis
    by (auto simp: client_inv_def om.find_insert om.invar_insert split: if_splits)
qed

lemma client_inv_answer:
  assumes "client_inv (c, w, timestamp)" and "map_find (cw_cb c) key = Some (f, d)"
  shows "client_inv (c\<lparr>cw_cb := map_erase key (cw_cb c)\<rparr>, f d vals w, timestamp)"
proof -
  have d: "f = log_reply" "key = callback_key d" "d \<le> timestamp" "d \<notin> fst ` set w"
    using assms by (auto simp: client_inv_def)
  have "d' \<noteq> d" if "map_find (map_erase key (cw_cb c)) k = Some (f', d')" for k f' d'
  proof -
    have "k \<noteq> key" "map_find (cw_cb c) k = Some (f', d')"
      using that assms(1) by (auto simp: client_inv_def om.find_erase split: if_splits)
    then show ?thesis using assms(1) d(2) by (auto simp: client_inv_def)
  qed
  moreover have "map_ok (cw_cb c)" using assms(1) by (simp add: client_inv_def)
  ultimately show ?thesis
    using assms(1) d by (auto simp: client_inv_def log_reply_def om.invar_erase om.find_erase split: if_splits)
qed

lemma client_inv_same_cb:
  "client_inv (c, w, timestamp) \<Longrightarrow> cw_cb c' = cw_cb c \<Longrightarrow> cw_disconnect_cb c' = cw_disconnect_cb c \<Longrightarrow>
   client_inv (c', w, timestamp)"
  by (simp add: client_inv_def)

lemma client_inv_lost:
  assumes "client_inv (c, w, timestamp)"
  shows "client_inv (c\<lparr>cw_cb := []\<rparr>, w @ map (\<lambda>(k, f, d). (d, vals)) (cw_cb c), timestamp)"
proof -
  have ok: "map_ok (cw_cb c)" using assms by (simp add: client_inv_def)
  have e: "d \<notin> fst ` set w \<and> d \<le> timestamp \<and> k = callback_key d" if "(k, f, d) \<in> set (cw_cb c)" for k f d
    using that assms map_entries [OF ok] by (auto simp: client_inv_def)
  let ?ds = "map (\<lambda>(k, f, d). d) (cw_cb c)"
  have "map fst (cw_cb c) = map callback_key ?ds" using e by (auto simp: comp_def)
  then have "distinct (map callback_key ?ds)" using om.distinct_keys [OF ok] by metis
  then have dist: "distinct ?ds" unfolding distinct_map by blast
  have fsts: "map fst (map (\<lambda>(k, f, d). (d, vals)) (cw_cb c)) = ?ds" by (induction "cw_cb c") auto
  have "\<forall>d \<in> set ?ds. d \<notin> fst ` set w \<and> d \<le> timestamp" using e by auto
  then show ?thesis
    using assms dist fsts unfolding client_inv_def
    by (auto simp: map_find_def simp del: map_map)
qed

lemma client_step_inv: "client_step st st' \<Longrightarrow> client_inv st \<Longrightarrow> client_inv st'"
proof (induction rule: client_step.induct)
  case (call u cname fname args timestamp cbid c buf cbid' timestamp' c' w)
  then show ?case using client_win_begin_cases [OF call(1)] client_inv_insert by (simp add: registered_def)
next
  case (call_plain u cname fname args data cbid timestamp c buf cbid' timestamp' c' w)
  then show ?case using client_win_begin_cases [OF call_plain(1)] client_inv_grow by (simp add: registered_def)
next
  case (cancel c w timestamp cid)
  then show ?case by (auto simp: client_inv_def client_win_cancel_def om.invar_erase om.find_erase)
next
  case (reply junk u bytes c w c' w' timestamp)
  have inv: "client_inv (c\<lparr>cw_buf := bytes, cw_rop_valid := False\<rparr>, w, timestamp)"
    using client_inv_same_cb [OF reply(2)] by simp
  from reply(1) show ?case
  proof (cases rule: client_read_msg_cases)
    case unknown
    then show ?thesis using inv by simp
  next
    case (known key f data vals)
    then show ?thesis using client_inv_answer [OF inv, of key f data vals] by simp
  qed
next
  case (lost u connected c w c' w' timestamp)
  have "\<forall>(k, f, d) \<in> set (cw_cb c). f = log_reply"
    using lost(3) map_entries [of "cw_cb c"] by (auto simp: client_inv_def)
  then show ?case
    using lost client_inv_lost [OF lost(3), of "lost_values u"] fold_log [of "cw_cb c" "lost_values u" w]
    by (auto simp: client_win_flush_def Let_def)
qed

interpretation client_calls: state_machine client_start client_step client_inv
  by unfold_locales (simp add: client_start_def client_inv_def client_win_make_def, rule client_step_inv)

section \<open>Properties\<close>

text \<open>C16. Callbacks of the Windows client, in every state that calls, cancellations, replies with any
  bytes and lost connections lead to: no callback has been called twice, no callback that has been
  called is still registered, each registered one is under the id of its own call; and losing the
  connection in such a state calls every registered callback exactly once, in the order of the ids, with
  the text of the lost connection, and leaves none.\<close>

theorem client_callbacks_once:
  assumes "client_step\<^sup>*\<^sup>* (client_win_make None, [], 0) (c, w, timestamp)"
  shows "distinct (map fst w) \<and>
    (\<forall>k f d. map_find (cw_cb c) k = Some (f, d) \<longrightarrow> k = callback_key d \<and> d \<notin> fst ` set w) \<and>
    client_win_flush u connected (c, w) =
      (c\<lparr>cw_cb := []\<rparr>, w @ map (\<lambda>(k, f, d). (d, lost_values u)) (cw_cb c))"
proof -
  have inv: "client_inv (c, w, timestamp)" 
    using client_calls.reachable_inv [OF _ assms] by (simp add: client_start_def)
  then have "\<forall>(k, f, d) \<in> set (cw_cb c). f = log_reply"
    using map_entries [of "cw_cb c"] by (auto simp: client_inv_def)
  from fold_log [OF this] have "client_win_flush u connected (c, w) =
      (c\<lparr>cw_cb := []\<rparr>, w @ map (\<lambda>(k, f, d). (d, lost_values u)) (cw_cb c))"
    using inv by (simp add: client_win_flush_def client_inv_def Let_def)
  then show ?thesis using inv by (auto simp: client_inv_def)
qed

theorem client_callbacks_once_witness:
  "\<exists>c. client_step\<^sup>*\<^sup>* (client_win_make None, [], 0) (c, [], 1) \<and> snd (client_win_flush 0 False (c, [])) = [(1, lost_values 0)]"
proof -
  let ?c = "(client_win_make None)\<lparr>cw_cb := [(1, log_reply, 1)]\<rparr>"
  have "client_win_begin 0 ''C'' ''f'' [] (Some log_reply) (0 + 1) 0 0 (client_win_make None) =
      Inr (frame_image (call_wire (build_call (0 + 1) 0 ''C'' ''f'' [])), 1, 1, ?c)"
    using client_win_begin_frame [OF small_call, of "Some log_reply" "0 + 1" 0 "client_win_make None"]
    by (simp add: client_win_make_def)
  then have "client_step (client_win_make None, [], 0) (?c, [], 1)" by (rule client_step.call) simp
  then have r: "client_step\<^sup>*\<^sup>* (client_win_make None, [], 0) (?c, [], 1)" by (rule r_into_rtranclp)
  from client_callbacks_once [OF r, of 0 False] r show ?thesis by (intro exI [of _ ?c]) simp
qed

text \<open>Delivery of a reply on Windows: the body of a storable reply whose unique id is the id of a
  registered callback calls this callback once, with the values of the reply, or with one \<open>Null\<close> value that
  carries the error if the reply has an error text, and unregisters it and no other; the body of a reply
  for an id without callback changes nothing but the read request.\<close>

theorem client_win_reply_delivery:
  assumes "reply_for m uid err" and "cw_buf c = reply_wire m"
  shows "case map_find (cw_cb c) (callback_key uid) of
      None \<Rightarrow> client_win_read_msg junk u (c, w) = Inr (c\<lparr>cw_rop_valid := False\<rparr>, w)
    | Some (f, data) \<Rightarrow> \<exists>vs. carries m err vs \<and> client_win_read_msg junk u (c, w) =
          Inr (c\<lparr>cw_rop_valid := False, cw_cb := map_erase (callback_key uid) (cw_cb c)\<rparr>, f data vs w)"
  by (rule client_win_read_msg_reply [OF assms, where junk = junk and u = u and w = w]) (auto split: option.splits)

theorem client_win_reply_delivery_witness:
  "client_win_read_msg (\<lambda>_. 0) 0 ((client_win_make None)\<lparr>cw_buf := reply_wire (function_reply_init 1)\<rparr>, 7 :: nat) =
     Inr ((client_win_make None)\<lparr>cw_buf := reply_wire (function_reply_init 1), cw_rop_valid := False\<rparr>, 7)"
proof -
  let ?c = "(client_win_make None)\<lparr>cw_buf := reply_wire (function_reply_init 1)\<rparr> :: nat client_win"
  have "reply_for (function_reply_init 1) 0 []" "cw_buf ?c = reply_wire (function_reply_init 1)"
    by (simp_all add: reply_for_def reply_ok_def function_reply_init_def value_ok_def values_ok_def value_of_uint64_def
        value_of_string_def function_reply_size_def value_size_def value_content_def)
  from client_win_reply_delivery [OF this, of "\<lambda>_. 0" 0 7] show ?thesis
    by (simp add: client_win_make_def)
qed

text \<open>C39. A call on Windows that returns false has no callback left behind: with a callback, the table has
  the entries it had before; without one, the entry under the caller's \<open>cbid\<close> is removed, whosever it is,
  if the client has a socket.\<close>

theorem client_win_failed_call:
  assumes "map_ok (cw_cb c)" and "map_find (cw_cb c) (callback_key (timestamp + 1)) = None"
    and "client_win_call u ec waits cname fname args fn data cbid timestamp c = Some (Inr (False, buf, cbid', timestamp', c'))"
  shows "if \<not> cw_socket c then c' = c
    else map_find (cw_cb c') = (case fn of
        Some f \<Rightarrow> map_find (cw_cb c)
      | None \<Rightarrow> (map_find (cw_cb c))(cbid := None))"
proof (cases "cw_socket c")
  case True
  then obtain buf2 cb2 t2 c2 where b: "client_win_begin u cname fname args fn data cbid timestamp c = Inr (buf2, cb2, t2, c2)"
      and f: "client_win_finish ec waits cb2 c2 = Some (False, c')"
    using assms(3) by (auto simp: client_win_call_def split: sum.splits option.splits)
  have "cw_cb c' = map_erase cb2 (cw_cb c2)"
    using f by (auto simp: client_win_finish_def split: if_splits option.splits)
  then show ?thesis
    using True client_win_begin_cases(2,3) [OF b] assms(1,2) om.erase_insert_fresh
    by (auto simp: om.find_erase new_cbid_def registered_def split: option.split)
qed (use assms(3) in \<open>auto simp: client_win_call_def\<close>)

theorem client_win_failed_call_witness:
  "\<exists>buf c'. client_win_call 0 E_Disconnected [] ''C'' ''f'' [] (Some log_reply) 1 0 0 ((client_win_make None)\<lparr>cw_socket := True\<rparr>) =
      Some (Inr (False, buf, 1, 1, c')) \<and> map_find (cw_cb c') = map_find []"
proof -
  let ?c = "(client_win_make None)\<lparr>cw_socket := True\<rparr> :: call_log client_win"
  obtain buf c' where r: "client_win_call 0 E_Disconnected [] ''C'' ''f'' [] (Some log_reply) 1 0 0 ?c =
      Some (Inr (False, buf, 1, 1, c'))"
    using client_win_begin_frame [OF small_call, of "Some log_reply" 1 0 ?c]
    by (simp add: client_win_call_def client_win_finish_def client_win_make_def)
  have "map_ok (cw_cb ?c)" "map_find (cw_cb ?c) (callback_key (0 + 1)) = None" by (simp_all add: client_win_make_def)
  from client_win_failed_call [OF this r] r show ?thesis by (auto simp: client_win_make_def)
qed

end
