(* ===== verification/Sync_Callers.thy ===== *)
theory Sync_Callers
  imports Client_Base
begin

text \<open>
  The threads inside \<open>call_synchronous_helper\<close> and the table of callbacks, on both platforms: every caller
  has its data on its stack and an id of its own, and what is in the table belongs to a caller that has
  not been called. The lemmas are one for each thing that can happen to them.
\<close>

section \<open>The invariants\<close>

text \<open>
  Every caller has its data and an id of its own, and every entry of the table belongs to a caller whose
  callback has not been called.
\<close>

definition callers_ok :: "(ptr \<times> int) set \<Rightarrow> u64 \<Rightarrow> (ptr \<Rightarrow> call_data option) \<Rightarrow> bool" where
  "callers_ok callers timestamp h \<longleftrightarrow>
     (\<forall>d k. (d, k) \<in> callers \<longrightarrow> h d \<noteq> None \<and> (\<exists>t \<le> timestamp. k = callback_key t)) \<and>
     (\<forall>d k k'. (d, k) \<in> callers \<and> (d, k') \<in> callers \<longrightarrow> k = k') \<and>
     (\<forall>d d' k. (d, k) \<in> callers \<and> (d', k) \<in> callers \<longrightarrow> d = d')"

definition table_ok :: "call_world callbacks \<Rightarrow> (ptr \<times> int) set \<Rightarrow> (ptr \<Rightarrow> call_data option) \<Rightarrow> bool" where
  "table_ok cb callers h \<longleftrightarrow> map_ok cb \<and>
     (\<forall>k f d. map_find cb k = Some (f, d) \<longrightarrow>
        f = sync_callback \<and> (d, k) \<in> callers \<and> (\<exists>cd. h d = Some cd \<and> \<not> cd_called cd))"

text \<open>
  The application may have callbacks of its own in the same table. What they do is the application's; they leave
  the stacks of the callers as they are, and their ids are no caller's.
\<close>

definition app_callback :: "call_world reply_fn" where
  "app_callback data vals w = w"

definition shared_ok :: "call_world callbacks \<Rightarrow> (ptr \<times> int) set \<Rightarrow> u64 \<Rightarrow> (ptr \<Rightarrow> call_data option) \<Rightarrow> bool" where
  "shared_ok cb callers timestamp h \<longleftrightarrow> map_ok cb \<and>
     (\<forall>k f d. map_find cb k = Some (f, d) \<longrightarrow>
        f = sync_callback \<and> (d, k) \<in> callers \<and> (\<exists>cd. h d = Some cd \<and> \<not> cd_called cd) \<or>
        f = app_callback \<and> (\<forall>d'. (d', k) \<notin> callers) \<and> (\<exists>t \<le> timestamp. k = callback_key t))"

section \<open>What happens to callers\<close>

lemma table_okD:
  "table_ok cb callers h \<Longrightarrow> map_find cb k = Some (f, d) \<Longrightarrow>
   f = sync_callback \<and> (d, k) \<in> callers \<and> (\<exists>cd. h d = Some cd \<and> \<not> cd_called cd)"
  unfolding table_ok_def by blast

lemma table_ok_erase: "table_ok cb callers h \<Longrightarrow> table_ok (map_erase k cb) callers h"
  by (auto simp: table_ok_def om.invar_erase om.find_erase split: if_splits)

text \<open>A caller leaves, when the table has no entry for it any more.\<close>

lemma callers_apart:
  "(d', k') \<in> callers - {(d, k)} \<Longrightarrow> callers_ok callers timestamp h \<Longrightarrow> (d, k) \<in> callers \<Longrightarrow> d' \<noteq> d"
  unfolding callers_ok_def by blast

lemma callers_ok_leaves:
  assumes "callers_ok callers timestamp h" and "(d, k) \<in> callers"
  shows "callers_ok (callers - {(d, k)}) timestamp (h(d := None))"
  using assms(1) callers_apart [OF _ assms] unfolding callers_ok_def by (simp, metis)

lemma caller_leaves:
  assumes "callers_ok callers timestamp h" and "table_ok cb callers h" and "(d, k) \<in> callers" and "map_find cb k = None"
  shows "callers_ok (callers - {(d, k)}) timestamp (h(d := None)) \<and> table_ok cb (callers - {(d, k)}) (h(d := None))"
proof (intro conjI)
  have other: "d' \<noteq> d" if "(d', k') \<in> callers - {(d, k)}" for d' k'
    using that assms(1,3) by (rule callers_apart)
  have entry: "(d', k') \<in> callers - {(d, k)}" if "map_find cb k' = Some (f, d')" for f d' k'
    using that assms(2,4) unfolding table_ok_def by fastforce
  show "callers_ok (callers - {(d, k)}) timestamp (h(d := None))" by (rule callers_ok_leaves [OF assms(1,3)])
  have live: "f = sync_callback \<and> d' \<noteq> d \<and> (\<exists>cd. h d' = Some cd \<and> \<not> cd_called cd)"
    if "map_find cb k' = Some (f, d')" for f d' k'
    using assms(2) that other [OF entry [OF that]] unfolding table_ok_def by blast
  then show "table_ok cb (callers - {(d, k)}) (h(d := None))"
    using assms(2) entry unfolding table_ok_def by fastforce
qed

lemma callers_ok_later:
  assumes "callers_ok callers timestamp h" and "timestamp + 1 \<noteq> 0"
  shows "callers_ok callers (timestamp + 1) h"
  using assms(1) timestamp_grows [OF assms(2)] unfolding callers_ok_def by blast

lemma caller_enters:
  assumes "callers_ok callers timestamp h" and "timestamp + 1 \<noteq> 0" and "h data = None"
  shows "callers_ok (insert (data, callback_key (timestamp + 1)) callers) (timestamp + 1) (h(data \<mapsto> cd))"
    and "(data, k) \<notin> callers"
proof -
  have fresh: "(d, callback_key (timestamp + 1)) \<notin> callers" for d
    using assms(1) timestamp_grows [OF assms(2)] unfolding callers_ok_def by force
  show new: "(data, k) \<notin> callers" for k using assms(1,3) unfolding callers_ok_def by blast
  have "h d \<noteq> None \<and> (\<exists>t \<le> timestamp + 1. k = callback_key t)" if "(d, k) \<in> callers" for d k
    using that assms(1) timestamp_grows [OF assms(2)] unfolding callers_ok_def by blast
  then show "callers_ok (insert (data, callback_key (timestamp + 1)) callers) (timestamp + 1) (h(data \<mapsto> cd))"
    using assms(1) fresh new unfolding callers_ok_def by (simp, blast)
qed

text \<open>A callback writes to the data of its caller.\<close>

lemma sync_callback_live:
  "h d = Some cd \<Longrightarrow> sync_callback d vals (Some h) =
     Some (h(d \<mapsto> cd\<lparr>cd_values := cd_values cd @ vals, cd_called := True, cd_sgn := cd_sgn cd + 1\<rparr>))"
  by (simp add: sync_callback_def)

lemma callers_ok_write: "callers_ok callers timestamp h \<Longrightarrow> callers_ok callers timestamp (h(d \<mapsto> cd))"
  by (auto simp: callers_ok_def)

lemma table_ok_called:
  assumes "callers_ok callers timestamp h" and "table_ok cb callers h" and "map_find cb k = Some (f, d)"
  shows "table_ok (map_erase k cb) callers (h(d \<mapsto> cd))"
proof -
  have "(d, k) \<in> callers" using assms(2,3) by (auto simp: table_ok_def)
  then have "d' \<noteq> d" if "map_find cb k' = Some (f', d')" "k' \<noteq> k" for f' d' k'
    using that assms(1,2) unfolding callers_ok_def table_ok_def by blast
  then show ?thesis
    using assms(2) unfolding table_ok_def by (auto simp: om.invar_erase om.find_erase split: if_splits)
qed

section \<open>What happens to a shared table\<close>

lemma app_not_sync: "app_callback \<noteq> sync_callback"
proof
  let ?h = "\<lambda>_ :: ptr. Some call_data_init"
  assume "app_callback = sync_callback"
  then have "app_callback 0 [] (Some ?h) = sync_callback 0 [] (Some ?h)" by simp
  then have "?h = ?h(0 \<mapsto> \<lparr>cd_sgn = 1, cd_called = True, cd_values = []\<rparr>)"
    by (simp add: app_callback_def sync_callback_def call_data_init_def)
  from fun_cong [OF this, of 0] show False by (simp add: call_data_init_def)
qed

lemma shared_cases:
  assumes "shared_ok cb callers timestamp h" and "map_find cb k = Some (f, d)"
  obtains (helper) cd where "f = sync_callback" "(d, k) \<in> callers" "h d = Some cd" "\<not> cd_called cd"
  | (application) t where "f = app_callback" "\<And>d'. (d', k) \<notin> callers" "t \<le> timestamp" "k = callback_key t"
  using assms unfolding shared_ok_def by blast

lemma shared_fresh:
  assumes "callers_ok callers timestamp h" and "shared_ok cb callers timestamp h" and "timestamp + 1 \<noteq> 0"
  shows "map_find cb (callback_key (timestamp + 1)) = None" and "(d, callback_key (timestamp + 1)) \<notin> callers"
proof -
  show fresh: "(d, callback_key (timestamp + 1)) \<notin> callers" for d
    using assms(1) timestamp_grows [OF assms(3)] unfolding callers_ok_def by force
  show "map_find cb (callback_key (timestamp + 1)) = None"
  proof (rule ccontr)
    assume "\<not> ?thesis"
    then obtain f d where fd: "map_find cb (callback_key (timestamp + 1)) = Some (f, d)" by auto
    from assms(2) fd show False
      by (cases rule: shared_cases) (use fresh timestamp_grows [OF assms(3)] in force)+
  qed
qed

lemma shared_later: "shared_ok cb callers timestamp h \<Longrightarrow> timestamp + 1 \<noteq> 0 \<Longrightarrow> shared_ok cb callers (timestamp + 1) h"
  using timestamp_grows unfolding shared_ok_def by blast

lemma shared_erase: "shared_ok cb callers timestamp h \<Longrightarrow> shared_ok (map_erase k cb) callers timestamp h"
  by (simp add: shared_ok_def om.invar_erase om.find_erase)

lemma shared_enters:
  assumes "callers_ok callers timestamp h" and "shared_ok cb callers timestamp h" and "timestamp + 1 \<noteq> 0" and "h data = None"
  shows "shared_ok (map_insert (callback_key (timestamp + 1)) (sync_callback, data) cb)
    (insert (data, callback_key (timestamp + 1)) callers) (timestamp + 1) (h(data \<mapsto> call_data_init))"
proof -
  let ?k = "callback_key (timestamp + 1)"
  have ok: "map_ok cb" using assms(2) by (simp add: shared_ok_def)
  note fresh = shared_fresh [OF assms(1-3)]
  have "f = sync_callback \<and> (d, k) \<in> insert (data, ?k) callers \<and> (\<exists>cd. (h(data \<mapsto> call_data_init)) d = Some cd \<and> \<not> cd_called cd) \<or>
      f = app_callback \<and> (\<forall>d'. (d', k) \<notin> insert (data, ?k) callers) \<and> (\<exists>t \<le> timestamp + 1. k = callback_key t)"
    if "map_find cb k = Some (f, d)" "k \<noteq> ?k" for k f d
    using shared_later [OF assms(2,3)] that assms(4) unfolding shared_ok_def by fastforce
  then show ?thesis
    using ok fresh(1) unfolding shared_ok_def
    by (auto simp: om.find_insert om.invar_insert call_data_init_def split: if_splits)
qed

lemma shared_registers:
  assumes "callers_ok callers timestamp h" and "shared_ok cb callers timestamp h" and "timestamp + 1 \<noteq> 0"
  shows "shared_ok (map_insert (callback_key (timestamp + 1)) (app_callback, data) cb) callers (timestamp + 1) h"
  using shared_later [OF assms(2,3)] shared_fresh [OF assms] unfolding shared_ok_def
  by (simp add: om.find_insert om.invar_insert)

lemma shared_leaves:
  assumes "callers_ok callers timestamp h" and "shared_ok cb callers timestamp h" and "(d, k) \<in> callers" and "map_find cb k = None"
  shows "shared_ok cb (callers - {(d, k)}) timestamp (h(d := None))"
proof -
  have "f = sync_callback \<and> (d', k') \<in> callers - {(d, k)} \<and> (\<exists>cd. (h(d := None)) d' = Some cd \<and> \<not> cd_called cd) \<or>
      f = app_callback \<and> (\<forall>d''. (d'', k') \<notin> callers - {(d, k)}) \<and> (\<exists>t \<le> timestamp. k' = callback_key t)"
    if entry: "map_find cb k' = Some (f, d')" for f d' k'
    using assms(2) entry
  proof (cases rule: shared_cases)
    case (helper cd)
    then have "(d', k') \<in> callers - {(d, k)}" using entry assms(4) by auto
    with callers_apart [OF this assms(1,3)] helper show ?thesis by simp
  qed auto
  then show ?thesis using assms(2) unfolding shared_ok_def by blast
qed

text \<open>A helper's callback has written to the data of its caller; an application's has not.\<close>

lemma shared_called:
  assumes "callers_ok callers timestamp h" and "shared_ok cb callers timestamp h" and "map_find cb k = Some (sync_callback, d)"
  shows "shared_ok (map_erase k cb) callers timestamp (h(d \<mapsto> cd))"
proof -
  have "(d, k) \<in> callers" using assms(2,3) by (cases rule: shared_cases) (use app_not_sync in auto)
  then have "d' \<noteq> d" if "map_find cb k' = Some (sync_callback, d')" "k' \<noteq> k" for d' k'
    using that assms(1,2) app_not_sync unfolding callers_ok_def shared_ok_def by metis
  then show ?thesis
    using assms(2) unfolding shared_ok_def by (auto simp: om.invar_erase om.find_erase split: if_splits) blast+
qed

lemma shared_called_none:
  assumes "callers_ok callers timestamp h" and "shared_ok cb callers timestamp h" and "(data, k) \<in> callers"
    and "h data = Some cd" and "cd_called cd"
  shows "map_find cb k = None"
proof (rule ccontr)
  assume "\<not> ?thesis"
  then obtain f d where "map_find cb k = Some (f, d)" by auto
  with assms(2) show False
  proof (cases rule: shared_cases)
    case (helper cd')
    then have "d = data" using assms(1,3) unfolding callers_ok_def by blast
    then show False using helper(3,4) assms(4,5) by simp
  qed (use assms(3) in blast)
qed

section \<open>The end of the worker\<close>

lemma fold_sync:
  "\<forall>(k, f, d) \<in> set cb. f = sync_callback \<and> h d \<noteq> None \<Longrightarrow>
   \<exists>h'. fold (\<lambda>(_, f, data) w. f data vals w) cb (Some h) = Some h' \<and> dom h' = dom h"
proof (induction cb arbitrary: h)
  case (Cons e cb)
  obtain k f d where e: "e = (k, f, d)" by (cases e)
  then obtain cd where cd: "f = sync_callback" "h d = Some cd" using Cons.prems by auto
  let ?h = "h(d \<mapsto> cd\<lparr>cd_values := cd_values cd @ vals, cd_called := True, cd_sgn := cd_sgn cd + 1\<rparr>)"
  have "\<forall>(k, f, d) \<in> set cb. f = sync_callback \<and> ?h d \<noteq> None" using Cons.prems by auto
  from Cons.IH [OF this] obtain h' where
    "fold (\<lambda>(_, f, data) w. f data vals w) cb (Some ?h) = Some h'" "dom h' = dom ?h"
    by blast
  moreover have "dom ?h = dom h" using cd(2) by (simp add: insert_absorb domI)
  ultimately show ?case using cd e by (simp add: sync_callback_live)
qed simp

lemma callers_ok_dom: "callers_ok callers timestamp h \<Longrightarrow> dom h' = dom h \<Longrightarrow> callers_ok callers timestamp h'"
  by (auto simp: callers_ok_def dom_def set_eq_iff)

lemma called_not_in_table:
  assumes "callers_ok callers timestamp h" and "table_ok cb callers h" and "(data, k) \<in> callers"
    and "h data = Some cd" and "cd_called cd"
  shows "map_find cb k \<noteq> Some (f, d)"
proof
  assume k: "map_find cb k = Some (f, d)"
  then have "(d, k) \<in> callers" using assms(2) unfolding table_ok_def by blast
  then have "d = data" using assms(1,3) unfolding callers_ok_def by blast
  moreover obtain cd' where "h d = Some cd'" "\<not> cd_called cd'"
    using k assms(2) unfolding table_ok_def by blast
  ultimately show False using assms(4,5) by simp
qed

end
