(* ===== verification/Client_Sync_Win.thy ===== *)
theory Client_Sync_Win
  imports Client_Win Sync_Callers
begin

text \<open>
  \<open>call_synchronous_helper\<close> of the Windows client: the caller's \<open>CallData\<close> is on its stack, and its
  address is in the table of callbacks while the call is pending. The worker thread may run at any point
  between the steps of the callers; the state machine below has any number of callers at once.
\<close>

section \<open>The helper\<close>

text \<open>
  The first part: the data and the call up to its write; \<open>client_win_finish\<close> is the rest of the call. Without a
  socket \<open>call\<close> returns false and the helper no values: \<open>Inr None\<close>.
\<close>

definition win_sync_begin ::
  "u64 \<Rightarrow> string \<Rightarrow> string \<Rightarrow> ipc_value list \<Rightarrow> ptr \<Rightarrow> u64 \<Rightarrow> call_world client_win \<times> call_world
   \<Rightarrow> (buffer \<times> int \<times> u64 \<times> call_world client_win \<times> call_world) option result"
where
  "win_sync_begin u cname fname args cd timestamp = (\<lambda>(c, w).
     let cbid = 0 in
     if \<not> cw_socket c then Inr None
     else
       rbind (client_win_begin u cname fname args (Some sync_callback) cd cbid timestamp c) (\<lambda>(buf, cbid, timestamp, c).
       Inr (Some (buf, cbid, timestamp, c, stack_alloc cd w))))"

text \<open>The rest of a call that fails: the helper returns no values.\<close>

definition win_sync_failed ::
  "os_error \<Rightarrow> os_error list \<Rightarrow> int \<Rightarrow> ptr \<Rightarrow> call_world client_win \<times> call_world
   \<Rightarrow> (call_world client_win \<times> call_world) option"
where
  "win_sync_failed ec waits cbid cd = (\<lambda>(c, w).
     case client_win_finish ec waits cbid c of
       Some (False, c) \<Rightarrow> Some (c, stack_free cd w)
     | _ \<Rightarrow> None)"

text \<open>
  The freeze callback is told once that a call takes long, and once when it is over; the numbers of
  milliseconds are left out.
\<close>

definition freez_events :: "bool \<Rightarrow> os_error list \<Rightarrow> bool list" where
  "freez_events freez_cb waits =
     (if freez_cb then (case waits of ec # _ \<Rightarrow> if ec = E_TimedOut then [True, False] else [] | [] \<Rightarrow> []) else [])"

text \<open>
  The second part: the wait for the semaphore, in pieces of a second, whose answers are \<open>waits\<close>, and the
  copy of the values. \<open>None\<close> when the waits do not suffice.
\<close>

definition win_sync_end ::
  "bool \<Rightarrow> os_error list \<Rightarrow> int \<Rightarrow> ptr \<Rightarrow> call_world client_win \<times> call_world
   \<Rightarrow> (ipc_value list \<times> bool list \<times> call_world client_win \<times> call_world) option"
where
  "win_sync_end freez_cb waits cbid data = (\<lambda>(c, w).
     case first_not_timed_out waits of
       None \<Rightarrow> None
     | Some _ \<Rightarrow>
         (case Option.bind w (\<lambda>h. h data) of
            None \<Rightarrow> None
          | Some cd \<Rightarrow>
              if \<not> cd_called cd
              then Some ([], freez_events freez_cb waits, snd (client_win_cancel cbid c), stack_free data w)
              else Some (cd_values cd, freez_events freez_cb waits, c, stack_free data w)))"

section \<open>Callers and the worker\<close>

text \<open>
  A state has the callers that are inside the helper: the addresses of their data and their ids. A step
  is the begin of a synchronous call, its failure, its end, a call without callback, a failed call of
  that kind (which cancels the id it has been given, whosever it is), a reply with any bytes, the end of the worker,
  or \<open>stop\<close>. The client is one whose pipe could be opened.
\<close>

type_synonym sync_state = "call_world client_win \<times> call_world \<times> u64 \<times> (ptr \<times> int) set"

inductive sync_step :: "sync_state \<Rightarrow> sync_state \<Rightarrow> bool" where
  begins: "win_sync_begin u cname fname args data timestamp (c, Some h) = Inr (Some (buf, cbid, timestamp', c', w')) \<Longrightarrow>
    h data = None \<Longrightarrow> timestamp + 1 \<noteq> 0 \<Longrightarrow>
    sync_step (c, Some h, timestamp, callers) (c', w', timestamp', insert (data, cbid) callers)"
| fails: "win_sync_failed ec waits cbid data (c, w) = Some (c', w') \<Longrightarrow> (data, cbid) \<in> callers \<Longrightarrow>
    sync_step (c, w, timestamp, callers) (c', w', timestamp, callers - {(data, cbid)})"
| ends: "win_sync_end freez waits cbid data (c, w) = Some (vals, events, c', w') \<Longrightarrow> (data, cbid) \<in> callers \<Longrightarrow>
    sync_step (c, w, timestamp, callers) (c', w', timestamp, callers - {(data, cbid)})"
| plain: "client_win_begin u cname fname args None data cbid timestamp c = Inr (buf, cbid', timestamp', c') \<Longrightarrow>
    cw_socket c \<Longrightarrow> timestamp + 1 \<noteq> 0 \<Longrightarrow> sync_step (c, w, timestamp, callers) (c', w, timestamp', callers)"
| cancels: "sync_step (c, w, timestamp, callers) (snd (client_win_cancel cid c), w, timestamp, callers)"
| reply: "client_win_read_msg junk u (c\<lparr>cw_buf := bytes\<rparr>, w) = Inr (c', w') \<Longrightarrow>
    sync_step (c, w, timestamp, callers) (c', w', timestamp, callers)"
| lost: "client_win_flush u connected (c, w) = (c', w') \<Longrightarrow>
    sync_step (c, w, timestamp, callers) (c', w', timestamp, callers)"
| stops: "sync_step (c, w, timestamp, callers) (client_win_stop c, w, timestamp, callers)"

definition sync_start :: "sync_state \<Rightarrow> bool" where
  "sync_start st \<longleftrightarrow> st = (client_win_open None, Some (\<lambda>_. None), 0, {})"

definition sync_inv :: "sync_state \<Rightarrow> bool" where
  "sync_inv = (\<lambda>(c, w, timestamp, callers). cw_disconnect_cb c = None \<and>
     (\<exists>h. w = Some h \<and> callers_ok callers timestamp h \<and> table_ok (cw_cb c) callers h))"

lemma sync_step_inv: "sync_step st st' \<Longrightarrow> sync_inv st \<Longrightarrow> sync_inv st'"
proof (induction rule: sync_step.induct)
  case (begins u cname fname args data timestamp c h buf cbid timestamp' c' w' callers)
  let ?k = "callback_key (timestamp + 1)"
  have b: "timestamp' = timestamp + 1" "cbid = ?k" "w' = Some (h(data \<mapsto> call_data_init))"
      "c' = c\<lparr>cw_cb := map_insert ?k (sync_callback, data) (cw_cb c)\<rparr>"
    using begins(1) client_win_begin_cases [of u cname fname args "Some sync_callback" data 0 timestamp c]
    by (auto simp: win_sync_begin_def stack_alloc_def rbind_eq_Inr_iff split: if_splits)
  have ok: "callers_ok callers timestamp h" "table_ok (cw_cb c) callers h" "cw_disconnect_cb c = None"
    using begins(4) by (auto simp: sync_inv_def)
  note new = caller_enters(2) [OF ok(1) begins(3,2)]
  have "callers_ok (insert (data, ?k) callers) (timestamp + 1) (h(data \<mapsto> call_data_init))"
    by (rule caller_enters(1) [OF ok(1) begins(3,2)])
  moreover have "table_ok (cw_cb c') (insert (data, ?k) callers) (h(data \<mapsto> call_data_init))"
    using ok(2) new unfolding table_ok_def b(4)
    by (auto simp: om.find_insert om.invar_insert call_data_init_def split: if_splits)
  ultimately show ?case using ok(3) b by (simp add: sync_inv_def)
next
  case (fails ec waits cbid data c w c' w' callers timestamp)
  obtain h where h: "w = Some h" "callers_ok callers timestamp h" "table_ok (cw_cb c) callers h" "cw_disconnect_cb c = None"
    using fails(3) by (auto simp: sync_inv_def)
  have c': "c' = snd (client_win_cancel cbid c)" "w' = Some (h(data := None))"
    using fails(1) h(1)
    by (auto simp: win_sync_failed_def client_win_finish_def stack_free_def split: if_splits option.splits)
  have "map_find (map_erase cbid (cw_cb c)) cbid = None" using h(3) by (simp add: table_ok_def om.find_erase)
  from caller_leaves [OF h(2) table_ok_erase [OF h(3)] fails(2) this] show ?case
    using c' h(4) by (simp add: sync_inv_def client_win_cancel_def)
next
  case (ends freez waits cbid data c w vals events c' w' callers timestamp)
  obtain h where h: "w = Some h" "callers_ok callers timestamp h" "table_ok (cw_cb c) callers h" "cw_disconnect_cb c = None"
    using ends(3) by (auto simp: sync_inv_def)
  obtain cd where cd: "h data = Some cd" "w' = Some (h(data := None))"
      "c' = (if \<not> cd_called cd then snd (client_win_cancel cbid c) else c)"
    using ends(1) h(1) by (auto simp: win_sync_end_def stack_free_def split: option.splits if_splits)
  have "map_find (cw_cb c') cbid = None \<and> table_ok (cw_cb c') callers h"
  proof (cases "cd_called cd")
    case True
    have "map_find (cw_cb c) cbid \<noteq> Some (f, d)" for f d
      by (rule called_not_in_table [OF h(2,3) ends(2) cd(1) True])
    then show ?thesis using True cd(3) h(3) by (cases "map_find (cw_cb c) cbid") auto
  next
    case False
    have "map_ok (cw_cb c)" using h(3) by (simp add: table_ok_def)
    then show ?thesis using False cd(3) table_ok_erase [OF h(3)] by (simp add: om.find_erase)
  qed
  moreover have "cw_disconnect_cb c' = None" using cd(3) h(4) by (simp add: client_win_cancel_def)
  ultimately show ?case
    using caller_leaves [OF h(2) _ ends(2), of "cw_cb c'"] cd(2) by (simp add: sync_inv_def)
next
  case (plain u cname fname args data cbid timestamp c buf cbid' timestamp' c' w callers)
  then show ?case
    using client_win_begin_cases [OF plain(1)] callers_ok_later [OF _ plain(3)] by (auto simp: sync_inv_def)
next
  case (cancels c w timestamp callers cid)
  then show ?case using table_ok_erase by (auto simp: sync_inv_def client_win_cancel_def)
next
  case (stops c w timestamp callers)
  then show ?case by (simp add: sync_inv_def client_win_stop_def)
next
  case (reply junk u bytes c w c' w' timestamp callers)
  obtain h where h: "w = Some h" "callers_ok callers timestamp h" "table_ok (cw_cb c) callers h" "cw_disconnect_cb c = None"
    using reply(2) by (auto simp: sync_inv_def)
  from reply(1) show ?case
  proof (cases rule: client_read_msg_cases)
    case unknown
    then show ?thesis using h by (simp add: sync_inv_def)
  next
    case (known key f d vals)
    then obtain cd where cd: "f = sync_callback" "h d = Some cd" using table_okD [OF h(3), of key f d] by auto
    show ?thesis
      using known cd h callers_ok_write [OF h(2)] table_ok_called [OF h(2,3), of key f d]
      by (simp add: sync_inv_def sync_callback_live)
  qed
next
  case (lost u connected c w c' w' timestamp callers)
  obtain h where h: "w = Some h" "callers_ok callers timestamp h" "table_ok (cw_cb c) callers h" "cw_disconnect_cb c = None"
    using lost(2) by (auto simp: sync_inv_def)
  have "\<forall>(k, f, d) \<in> set (cw_cb c). f = sync_callback \<and> h d \<noteq> None"
    using h(3) map_entries [of "cw_cb c"] by (fastforce simp: table_ok_def)
  from fold_sync [OF this, of "lost_values u"] obtain h' where
    "fold (\<lambda>(_, f, data) w. f data (lost_values u) w) (cw_cb c) (Some h) = Some h'" "dom h' = dom h"
    by blast
  then show ?case
    using lost(1) h callers_ok_dom [OF h(2)]
    by (auto simp: sync_inv_def client_win_flush_def Let_def table_ok_def map_ok_def map_find_def)
qed

interpretation sync: state_machine sync_start sync_step sync_inv
  by unfold_locales
    (auto simp: sync_start_def sync_inv_def callers_ok_def table_ok_def map_ok_def map_find_def
      dest: sync_step_inv)


section \<open>Properties\<close>

text \<open>C17. No dangling call data on Windows: in every state that any number of synchronous calls, their
  failures and ends, calls without callback, cancellations, replies with any bytes, lost connections and
  \<open>stop\<close> lead a client with an open pipe to, no callback has been run on the data of a caller that has left the helper, and every callback in the table belongs to
  a caller that is still inside, whose callback has not been called.\<close>

theorem win_sync_no_dangling:
  assumes "sync_step\<^sup>*\<^sup>* (client_win_open None, Some (\<lambda>_. None), 0, {}) (c, w, timestamp, callers)"
  shows "\<exists>h. w = Some h \<and> (\<forall>k f d. map_find (cw_cb c) k = Some (f, d) \<longrightarrow>
    f = sync_callback \<and> (d, k) \<in> callers \<and> (\<exists>cd. h d = Some cd \<and> \<not> cd_called cd))"
proof -
  have "sync_inv (c, w, timestamp, callers)"
    using sync.reachable_inv [OF _ assms] by (simp add: sync_start_def)
  then show ?thesis by (auto simp: sync_inv_def table_ok_def)
qed

lemma win_sync_begin_ok:
  assumes "function_call_size (build_call (timestamp + 1) u cname fname args) + 8 < 2 ^ 64" and "cw_socket c"
  shows "win_sync_begin u cname fname args data timestamp (c, w) =
    Inr (Some (frame_image (call_wire (build_call (timestamp + 1) u cname fname args)), callback_key (timestamp + 1),
      timestamp + 1, c\<lparr>cw_cb := map_insert (callback_key (timestamp + 1)) (sync_callback, data) (cw_cb c)\<rparr>,
      stack_alloc data w))"
  using assms(2) by (simp add: win_sync_begin_def client_win_begin_frame [OF assms(1)])

theorem win_sync_no_dangling_witness:
  "map_find [(1 :: int, sync_callback, 8 :: ptr)] 1 = Some (sync_callback, 8) \<and> \<not> cd_called call_data_init"
proof -
  let ?h = "\<lambda>_ :: ptr. None :: call_data option"
  let ?c = "(client_win_open None)\<lparr>cw_cb := map_insert (callback_key (0 + 1)) (sync_callback, 8) (cw_cb (client_win_open None))\<rparr>"
  have "sync_step (client_win_open None, Some ?h, 0, {})
      (?c, stack_alloc 8 (Some ?h), 0 + 1, insert (8, callback_key (0 + 1)) {})"
    by (rule sync_step.begins [OF win_sync_begin_ok [OF small_call]]) simp_all
  then have "sync_step\<^sup>*\<^sup>* (client_win_open None, Some ?h, 0, {})
      (?c, stack_alloc 8 (Some ?h), 0 + 1, insert (8, callback_key (0 + 1)) {})"
    by (rule r_into_rtranclp)
  from win_sync_no_dangling [OF this] obtain h where h: "stack_alloc 8 (Some ?h) = Some h"
    "\<And>k f d. map_find (cw_cb ?c) k = Some (f, d) \<Longrightarrow> \<exists>cd. h d = Some cd \<and> \<not> cd_called cd"
    by blast
  have cb: "cw_cb ?c = [(1, sync_callback, 8)]" by simp
  have entry: "map_find [(1 :: int, sync_callback, 8 :: ptr)] 1 = Some (sync_callback, 8)" by (simp add: map_find_def)
  obtain cd where "h 8 = Some cd" "\<not> cd_called cd" using h(2) [of 1 sync_callback 8] entry unfolding cb by blast
  moreover have "h = [8 \<mapsto> call_data_init]" using h(1) by (simp add: stack_alloc_def)
  ultimately show ?thesis using entry by simp
qed

text \<open>One synchronous call, with the reply that comes for it.\<close>

lemma win_sync_call_round:
  assumes "function_call_size (build_call (timestamp + 1) u cname fname args) + 8 < 2 ^ 64"
    and "map_ok (cw_cb c)" and "map_find (cw_cb c) (callback_key (timestamp + 1)) = None" and "h data = None"
    and "reply_for m (timestamp + 1) err" and "first_not_timed_out waits = Some ec" and "cw_socket c"
  shows "\<exists>buf cbid c1 w1 c2 w2 vals c3.
    win_sync_begin u cname fname args data timestamp (c, Some h) = Inr (Some (buf, cbid, timestamp + 1, c1, w1)) \<and>
    client_win_read_msg junk u (c1\<lparr>cw_buf := reply_wire m\<rparr>, w1) = Inr (c2, w2) \<and>
    win_sync_end freez waits cbid data (c2, w2) = Some (vals, freez_events freez waits, c3, Some h) \<and>
    carries m err vals \<and> map_find (cw_cb c3) = map_find (cw_cb c)"
proof -
  let ?k = "callback_key (timestamp + 1)"
  let ?c1 = "c\<lparr>cw_cb := map_insert ?k (sync_callback, data) (cw_cb c)\<rparr>"
  have found: "map_find (cw_cb (?c1\<lparr>cw_buf := reply_wire m\<rparr>)) ?k = Some (sync_callback, data)"
    using assms(2,3) by (simp add: om.find_insert)
  have buf: "cw_buf (?c1\<lparr>cw_buf := reply_wire m\<rparr>) = reply_wire m" by simp
  obtain vs where vs: "carries m err vs"
    "client_win_read_msg junk u (?c1\<lparr>cw_buf := reply_wire m\<rparr>, stack_alloc data (Some h)) = Inr
      (?c1\<lparr>cw_buf := reply_wire m, cw_rop_valid := False, cw_cb := map_erase ?k (cw_cb ?c1)\<rparr>,
       sync_callback data vs (stack_alloc data (Some h)))"
    by (rule client_win_read_msg_reply [OF assms(5) buf, where junk = junk and u = u and
          w = "stack_alloc data (Some h)"]) (use found in auto)
  have w: "sync_callback data vs (stack_alloc data (Some h)) =
      Some (h(data \<mapsto> \<lparr>cd_sgn = 1, cd_called = True, cd_values = vs\<rparr>))"
    by (simp add: stack_alloc_def sync_callback_def call_data_init_def)
  have "h(data := None) = h" using assms(4) by auto
  then have fin: "win_sync_end freez waits ?k data
      (?c1\<lparr>cw_buf := reply_wire m, cw_rop_valid := False, cw_cb := map_erase ?k (cw_cb ?c1)\<rparr>,
       sync_callback data vs (stack_alloc data (Some h))) =
     Some (vs, freez_events freez waits,
       ?c1\<lparr>cw_buf := reply_wire m, cw_rop_valid := False, cw_cb := map_erase ?k (cw_cb ?c1)\<rparr>, Some h)"
    unfolding w using assms(6) by (simp add: win_sync_end_def stack_free_def)
  have "map_find (map_erase ?k (cw_cb ?c1)) = map_find (cw_cb c)"
    using om.erase_insert_fresh [OF assms(2,3)] by simp
  with win_sync_begin_ok [OF assms(1,7)] vs fin show ?thesis by auto
qed

text \<open>A synchronous call on Windows returns what its reply carries: the call registers its callback;
  when the worker then reads a storable reply for its unique id and the wait for the semaphore ends, the
  helper returns the values of the reply, or one \<open>Null\<close> value with the error text, and the table and the
  stack are as before the call.\<close>

theorem win_sync_call_values:
  assumes "function_call_size (build_call (timestamp + 1) u cname fname args) + 8 < 2 ^ 64"
    and "map_ok (cw_cb c)" and "map_find (cw_cb c) (callback_key (timestamp + 1)) = None" and "h data = None"
    and "reply_for m (timestamp + 1) err" and "first_not_timed_out waits = Some ec" and "cw_socket c"
  shows "\<exists>buf cbid c1 w1 c2 w2 vals c3.
    win_sync_begin u cname fname args data timestamp (c, Some h) = Inr (Some (buf, cbid, timestamp + 1, c1, w1)) \<and>
    client_win_read_msg junk u (c1\<lparr>cw_buf := reply_wire m\<rparr>, w1) = Inr (c2, w2) \<and>
    win_sync_end freez waits cbid data (c2, w2) = Some (vals, freez_events freez waits, c3, Some h) \<and>
    carries m err vals \<and> map_find (cw_cb c3) = map_find (cw_cb c)"
  using assms by (rule win_sync_call_round)

theorem win_sync_call_values_witness:
  "\<exists>buf cbid c1 w1 c2 w2 vals c3.
    win_sync_begin 0 ''C'' ''f'' [] 8 0 (client_win_open None, Some (\<lambda>_. None)) = Inr (Some (buf, cbid, 1, c1, w1)) \<and>
    client_win_read_msg (\<lambda>_. 0) 0 (c1\<lparr>cw_buf := reply_wire (one_reply 1)\<rparr>, w1) = Inr (c2, w2) \<and>
    win_sync_end True [E_TimedOut, E_Success] cbid 8 (c2, w2) = Some (vals, [True, False], c3, Some (\<lambda>_. None)) \<and>
    map value_content vals = [Content64 TUInt64 7]"
proof -
  have 1: "map_ok (cw_cb (client_win_open None))" "map_find (cw_cb (client_win_open None)) (callback_key (0 + 1)) = None"
    "(\<lambda>_. None) 8 = None"
    by (simp_all add: map_ok_def map_find_def)
  have 2: "reply_for (one_reply (0 + 1)) (0 + 1) []" using one_reply_for by simp
  have 3: "first_not_timed_out [E_TimedOut, E_Success] = Some E_Success" by simp
  from win_sync_call_values [where data = 8 and h = "\<lambda>_. None", OF small_call 1 2 3 client_win_open_simps(1), of "\<lambda>_. 0" True]
  show ?thesis by (auto simp: freez_events_def carries_def one_reply_def)
qed

end
