(* ===== verification/Serial_Server.thy ===== *)
theory Serial_Server
  imports Ipc_Rpc
begin

text \<open>
  What a server instance promises, whatever its threads, its queues and its buffers do: it behaves like a
  loop that takes one request body after the other, executes it, and answers with one frame. Two levels of
  specification are stated here. \<open>serve_all\<close> is that loop on bytes, made of the code's own codecs and
  dispatch; the theories of the instances prove that they refine it. \<open>run_calls\<close> is the loop on calls: the
  table is asked for every call in turn, and no byte is mentioned.
\<close>

section \<open>The loop on bytes\<close>

definition serve_body ::
  "(nat \<Rightarrow> u64) \<Rightarrow> u64 \<Rightarrow> 'w heap \<Rightarrow> 'w server \<Rightarrow> u64 \<Rightarrow> buffer \<Rightarrow> 'w \<Rightarrow> (buffer \<times> 'w) result"
where
  "serve_body junk u h s cid body w =
     rbind (function_call_deserialize junk (function_call_init u u) body 0) (\<lambda>(m, _).
     rbind (execute_request h s cid u m w) (\<lambda>(reply, w).
     rbind (pack_frame function_reply_size function_reply_serialize reply) (\<lambda>frame.
     Inr (frame, w))))"

fun serve_all :: "('b \<Rightarrow> 'w \<Rightarrow> ('f \<times> 'w) result) \<Rightarrow> 'b list \<Rightarrow> 'w \<Rightarrow> ('f list \<times> 'w) result" where
  "serve_all serve [] w = Inr ([], w)"
| "serve_all serve (body # bodies) w =
     rbind (serve body w) (\<lambda>(frame, w).
     rbind (serve_all serve bodies w) (\<lambda>(frames, w).
     Inr (frame # frames, w)))"

text \<open>The buffer a reply is serialised into has room for the header.\<close>

lemma serialized_length:
  assumes "function_reply_serialize m (replicate (function_reply_size m + 8) (CHR 0x00)) 8 = Inr (buf, n)"
  shows "8 \<le> length buf"
proof -
  have "length buf = function_reply_size m + 8"
    using function_reply_serialize_length [of "replicate (function_reply_size m + 8) (CHR 0x00)" _ m 8] assms
    by (simp add: keeps_length_def)
  then show ?thesis by simp
qed

lemma serve_all_append:
  "serve_all serve (xs @ ys) w =
     rbind (serve_all serve xs w) (\<lambda>(fs, w).
     rbind (serve_all serve ys w) (\<lambda>(gs, w).
     Inr (fs @ gs, w)))"
proof (induction xs arbitrary: w)
  case Nil
  then show ?case by (cases "serve_all serve ys w") auto
next
  case (Cons x xs)
  show ?case
  proof (cases "serve x w")
    case (Inr fw)
    obtain f w1 where f: "serve x w = Inr (f, w1)" using Inr by (cases fw) auto
    show ?thesis
      by (cases "serve_all serve xs w1"; cases "serve_all serve ys (snd (projr (serve_all serve xs w1)))")
        (auto simp: f Cons.IH)
  qed simp
qed

lemma serve_all_snoc:
  "serve_all serve bodies w = Inr (frames, w1) \<Longrightarrow> serve body w1 = Inr (frame, w2) \<Longrightarrow>
   serve_all serve (bodies @ [body]) w = Inr (frames @ [frame], w2)"
  by (simp add: serve_all_append)

lemma serve_all_length: "serve_all serve bodies w = Inr (frames, w') \<Longrightarrow> length frames = length bodies"
  by (induction bodies arbitrary: w frames) (auto simp: rbind_eq_Inr_iff)

text \<open>
  The contract of an instance: a step either leaves the requests served, the answers and the world as
  they are, or serves one more request. A step that ends the instance may leave any world behind.
\<close>

locale serial_server = state_machine start step inv
  for start :: "'s \<Rightarrow> bool" and step :: "'s \<Rightarrow> 's \<Rightarrow> bool" and inv :: "'s \<Rightarrow> bool" +
  fixes serve :: "'b \<Rightarrow> 'w \<Rightarrow> ('f \<times> 'w) result"
    and served :: "'s \<Rightarrow> 'b list"
    and answers :: "'s \<Rightarrow> 'f list"
    and world :: "'s \<Rightarrow> 'w"
    and live :: "'s \<Rightarrow> bool"
    and w0 :: 'w
  assumes idle_start: "start s \<Longrightarrow> served s = [] \<and> answers s = [] \<and> world s = w0"
    and serve_step: "step s s' \<Longrightarrow> inv s \<Longrightarrow>
      served s' = served s \<and> answers s' = answers s \<and> (live s' \<longrightarrow> live s \<and> world s' = world s) \<or>
      live s \<and> (\<exists>body frame. serve body (world s) = Inr (frame, world s') \<and>
        served s' = served s @ [body] \<and> answers s' = answers s @ [frame])"
begin

lemma serial_steps:
  "step\<^sup>*\<^sup>* s s' \<Longrightarrow> start s \<Longrightarrow>
   \<exists>w1. serve_all serve (served s') w0 = Inr (answers s', w1) \<and> (live s' \<longrightarrow> w1 = world s')"
proof (induction rule: rtranclp_induct)
  case base
  then show ?case using idle_start by simp
next
  case (step s1 s2)
  then obtain w1 where w1: "serve_all serve (served s1) w0 = Inr (answers s1, w1)" "live s1 \<longrightarrow> w1 = world s1"
    by blast
  from serve_step [OF step(2) reachable_inv [OF step(4,1)]] show ?case
    using w1 serve_all_snoc [OF w1(1)] by auto
qed

text \<open>Nothing that was served is forgotten, and no answer is taken back.\<close>

lemma served_grows: "step\<^sup>*\<^sup>* s s' \<Longrightarrow> inv s \<Longrightarrow> \<exists>bodies frames. served s' = served s @ bodies \<and> answers s' = answers s @ frames"
proof (induction rule: rtranclp_induct)
  case (step s1 s2)
  then obtain bs fs where "served s1 = served s @ bs" "answers s1 = answers s @ fs" by blast
  with serve_step [OF step(2) inv_steps [OF step(1,4)]] show ?case by auto
qed simp

end

section \<open>The loop on calls\<close>

text \<open>What the table says of one call, and of a sequence of calls.\<close>

definition table_answer :: "'w heap \<Rightarrow> 'w server \<Rightarrow> u64 \<Rightarrow> function_call \<Rightarrow> 'w \<Rightarrow> 'w call_outcome" where
  "table_answer h s cid m w =
     call_spec (dispatch_table h s) (m_preCallback s) (m_postCallback s) cid
       (value_str (call_class_name m)) (value_str (call_function_name m)) (call_arguments m) [] w"

fun run_calls :: "('m \<Rightarrow> 'w \<Rightarrow> 'w call_outcome) \<Rightarrow> 'm list \<Rightarrow> 'w \<Rightarrow> 'w call_outcome list \<times> 'w" where
  "run_calls answer [] w = ([], w)"
| "run_calls answer (m # ms) w =
     (let oc = answer m w; (ocs, w') = run_calls answer ms (outcome_world w oc) in (oc # ocs, w'))"

lemma length_run_calls [simp]: "length (fst (run_calls answer ms w)) = length ms"
  by (induction ms arbitrary: w) (simp_all add: Let_def split_beta)

text \<open>The reply the table asks for; the texts of the names are those of the call.\<close>

definition reply_asked :: "function_call \<Rightarrow> 'w call_outcome \<Rightarrow> content \<times> content \<times> content list" where
  "reply_asked m oc = outcome_reply (value_content (call_uid m)) (value_str (call_class_name m))
     (value_str (call_function_name m)) oc"

text \<open>That the handlers return values that can be stored, and not 4 GiB of them, is up to the application.\<close>

definition replies_fit :: "'w heap \<Rightarrow> 'w server \<Rightarrow> u64 \<Rightarrow> u64 \<Rightarrow> function_call list \<Rightarrow> bool" where
  "replies_fit h s cid u ms \<longleftrightarrow>
     (\<forall>m m' w reply w'. m \<in> set ms \<longrightarrow> call_content m' = call_content m \<longrightarrow>
        execute_request h s cid u m' w = Inr (reply, w') \<longrightarrow> reply_ok reply \<and> function_reply_size reply < 2 ^ 32)"

text \<open>A call whose names are strings, as a client builds them, that can be stored.\<close>

definition proper_call :: "function_call \<Rightarrow> bool" where
  "proper_call m \<longleftrightarrow> call_ok m \<and> function_call_size m < 2 ^ 32 \<and>
     value_type (call_class_name m) = TString \<and> value_type (call_function_name m) = TString"

lemma same_text: "value_content v' = value_content v \<Longrightarrow> value_type v = TString \<Longrightarrow> value_str v' = value_str v"
  using content_string [of v "value_str v"] content_string [of v' "value_str v"] by simp

lemma same_names:
  assumes "call_content m' = call_content m" and "proper_call m"
  shows "value_str (call_class_name m') = value_str (call_class_name m)"
    and "value_str (call_function_name m') = value_str (call_function_name m)"
    and "value_content (call_uid m') = value_content (call_uid m)"
proof -
  have "value_content (call_class_name m') = value_content (call_class_name m)"
    "value_content (call_function_name m') = value_content (call_function_name m)"
    "value_content (call_uid m') = value_content (call_uid m)"
    using assms(1) by (simp_all add: call_content_def)
  then show "value_str (call_class_name m') = value_str (call_class_name m)"
    "value_str (call_function_name m') = value_str (call_function_name m)"
    "value_content (call_uid m') = value_content (call_uid m)"
    using assms(2) by (auto simp: proper_call_def intro: same_text)
qed

lemma reply_asked_same:
  assumes "call_content m' = call_content m" and "proper_call m"
  shows "reply_asked m' oc = reply_asked m oc"
  unfolding reply_asked_def same_names [OF assms] ..

text \<open>The call as the server has it after decoding: the same content, other unions.\<close>

definition decoded :: "(nat \<Rightarrow> u64) \<Rightarrow> u64 \<Rightarrow> function_call \<Rightarrow> function_call" where
  "decoded junk u m =
     (case function_call_deserialize junk (function_call_init u u) (call_wire m) 0 of
        Inr (m', _) \<Rightarrow> m'
      | Inl _ \<Rightarrow> m)"

lemma decoded_call:
  assumes "proper_call m"
  shows "function_call_deserialize junk (function_call_init u u) (call_wire m) 0 =
      Inr (decoded junk u m, function_call_size m)"
    and "call_content (decoded junk u m) = call_content m"
proof -
  obtain m' where "function_call_deserialize junk (function_call_init u u) (call_wire m) 0 = Inr (m', function_call_size m)"
      "call_content m' = call_content m"
    using call.de_mid [of m 0 "[]" "[]" junk "function_call_init u u"] assms
    by (auto simp: length_call_wire proper_call_def)
  then show "function_call_deserialize junk (function_call_init u u) (call_wire m) 0 =
      Inr (decoded junk u m, function_call_size m)" "call_content (decoded junk u m) = call_content m"
    by (simp_all add: decoded_def)
qed

lemma decoded_contents: "list_all proper_call ms \<Longrightarrow> map call_content (map (decoded junk u) ms) = map call_content ms"
  by (simp add: list_all_iff decoded_call(2))

text \<open>One request: what comes back is the frame of the reply the table asks for.\<close>

definition answers_with :: "function_call \<Rightarrow> 'w call_outcome \<Rightarrow> function_reply \<Rightarrow> bool" where
  "answers_with m oc r \<longleftrightarrow> reply_ok r \<and> function_reply_size r < 2 ^ 32 \<and> reply_content r = reply_asked m oc"

lemma serve_body_answers:
  assumes "classes_ok h s" and "heap_ok h" and "proper_call m" and "replies_fit h s cid u ms" and "m \<in> set ms"
  obtains reply where "serve_body junk u h s cid (call_wire m) w =
      Inr (frame_image (reply_wire reply), outcome_world w (table_answer h s cid (decoded junk u m) w))"
    and "answers_with m (table_answer h s cid (decoded junk u m) w) reply"
proof -
  note m' = decoded_call [OF assms(3), of junk u]
  let ?oc = "table_answer h s cid (decoded junk u m) w"
  obtain reply where reply: "execute_request h s cid u (decoded junk u m) w = Inr (reply, outcome_world w ?oc)"
      "reply_content reply = reply_asked (decoded junk u m) ?oc"
    using execute_request_outcome [OF assms(1,2), of ?oc cid "decoded junk u m" w u]
    by (auto simp: table_answer_def reply_asked_def)
  have fit: "reply_ok reply" "function_reply_size reply < 2 ^ 32"
    using assms(4,5) m'(2) reply(1) unfolding replies_fit_def by blast+
  then have "pack_frame function_reply_size function_reply_serialize reply = Inr (frame_image (reply_wire reply))"
    by (intro reply.pack_frame_image) simp
  then have "serve_body junk u h s cid (call_wire m) w = Inr (frame_image (reply_wire reply), outcome_world w ?oc)"
    using m'(1) reply(1) by (simp add: serve_body_def)
  moreover have "answers_with m ?oc reply"
    using reply(2) reply_asked_same [OF m'(2) assms(3)] fit by (simp add: answers_with_def)
  ultimately show thesis by (rule that)
qed

text \<open>Any number of requests: one reply for each call, with the content the table asks for.\<close>

fun replies_asked :: "function_call list \<Rightarrow> 'w call_outcome list \<Rightarrow> function_reply list \<Rightarrow> bool" where
  "replies_asked [] [] [] = True"
| "replies_asked (m # ms) (oc # ocs) (r # rs) = (answers_with m oc r \<and> replies_asked ms ocs rs)"
| "replies_asked _ _ _ = False"

lemma replies_asked_nth:
  "replies_asked ms ocs rs \<longleftrightarrow> length ocs = length ms \<and> length rs = length ms \<and>
     (\<forall>j < length ms. answers_with (ms ! j) (ocs ! j) (rs ! j))"
  by (induction ms ocs rs rule: replies_asked.induct) (auto simp: nth_Cons less_Suc_eq_0_disj split: nat.splits)

lemma serve_all_answers:
  assumes "classes_ok h s" and "heap_ok h" and "list_all proper_call ms" and "replies_fit h s cid u ms"
  obtains replies where "serve_all (serve_body junk u h s cid) (map call_wire ms) w =
      Inr (map (\<lambda>r. frame_image (reply_wire r)) replies, snd (run_calls (table_answer h s cid) (map (decoded junk u) ms) w))"
    and "replies_asked ms (fst (run_calls (table_answer h s cid) (map (decoded junk u) ms) w)) replies"
proof -
  have "\<exists>replies. serve_all (serve_body junk u h s cid) (map call_wire ms) w =
      Inr (map (\<lambda>r. frame_image (reply_wire r)) replies, snd (run_calls (table_answer h s cid) (map (decoded junk u) ms) w)) \<and>
    replies_asked ms (fst (run_calls (table_answer h s cid) (map (decoded junk u) ms) w)) replies"
    using assms(3,4)
  proof (induction ms arbitrary: w)
    case (Cons m ms)
    have p: "proper_call m" "m \<in> set (m # ms)" and fit: "replies_fit h s cid u ms"
      using Cons.prems by (auto simp: replies_fit_def)
    let ?oc = "table_answer h s cid (decoded junk u m) w"
    obtain reply where one: "serve_body junk u h s cid (call_wire m) w =
        Inr (frame_image (reply_wire reply), outcome_world w ?oc)" "answers_with m ?oc reply"
      using serve_body_answers [OF assms(1,2) p(1) Cons.prems(2) p(2)] by blast
    obtain replies where "serve_all (serve_body junk u h s cid) (map call_wire ms) (outcome_world w ?oc) =
        Inr (map (\<lambda>r. frame_image (reply_wire r)) replies,
          snd (run_calls (table_answer h s cid) (map (decoded junk u) ms) (outcome_world w ?oc)))"
        "replies_asked ms
          (fst (run_calls (table_answer h s cid) (map (decoded junk u) ms) (outcome_world w ?oc))) replies"
      using Cons.IH [of "outcome_world w ?oc"] Cons.prems(1) fit by auto
    with one show ?case by (intro exI [of _ "reply # replies"]) (simp add: Let_def split_beta)
  qed simp
  with that show thesis by blast
qed

lemma run_calls_append:
  "run_calls answer (ms @ ns) w =
     (fst (run_calls answer ms w) @ fst (run_calls answer ns (snd (run_calls answer ms w))),
      snd (run_calls answer ns (snd (run_calls answer ms w))))"
proof (induction ms arbitrary: w)
  case (Cons m ms)
  show ?case by (simp add: Let_def split_beta Cons.IH [of "outcome_world w (answer m w)"])
qed simp

section \<open>Frames and their two parts\<close>

text \<open>A header and a body that belong together; the reads of an instance cut a frame into them.\<close>

definition frame_cut :: "buffer \<Rightarrow> buffer \<Rightarrow> bool" where
  "frame_cut hdr body \<longleftrightarrow> read_size hdr = Inr (length body) \<and> body \<noteq> []"

lemma frame_cut_image: "body \<noteq> [] \<Longrightarrow> length body < 2 ^ 32 \<Longrightarrow> frame_cut (take 8 (frame_image body)) body"
  using read_size_header [of body "[]"] by (simp add: frame_cut_def)

lemma drop_frame_image [simp]: "drop 8 (frame_image body) = body"
  by (simp add: frame_image_def)

lemma frame_cut_call:
  assumes "proper_call m"
  shows "frame_cut (take 8 (frame_image (call_wire m))) (call_wire m)"
proof -
  have "length (call_wire m) \<noteq> 0" by (simp add: length_call_wire function_call_size_def)
  then have "call_wire m \<noteq> []" by simp
  then show ?thesis using assms by (intro frame_cut_image) (simp_all add: proper_call_def length_call_wire)
qed

lemma frame_cut_calls: "list_all proper_call ms \<Longrightarrow> list_all (\<lambda>body. \<exists>hdr. frame_cut hdr body) (map call_wire ms)"
  using frame_cut_call by (auto simp: list_all_iff)

section \<open>An example\<close>

definition counting_call :: "u64 \<Rightarrow> function_call" where
  "counting_call t = build_call t 0 ''C'' ''f'' []"

lemma counting_proper: "proper_call (counting_call t)"
  by (simp add: counting_call_def build_call_def proper_call_def call_ok_def value_ok_def values_ok_def
      value_of_uint64_def value_of_string_def function_call_size_def value_size_def)

lemma counting_proper_list: "list_all proper_call [counting_call t]"
  using counting_proper by simp

lemma counting_replies_fit: "replies_fit [0 \<mapsto> counting_collection] counting_server 0 0 [counting_call 1]"
  using counting_fits by (auto simp: replies_fit_def counting_call_def)

lemma counting_answer:
  assumes "call_content m = call_content (counting_call t)"
  shows "table_answer [0 \<mapsto> counting_collection] counting_server 0 m w = Called [value_of_uint64 7] (w + 1)"
proof -
  have "value_str (call_class_name m) = ''C''" "value_str (call_function_name m) = ''f''"
    using same_names [OF assms counting_proper] by (simp_all add: counting_call_def build_call_def value_of_string_def)
  then show ?thesis by (simp add: table_answer_def counting_spec)
qed

lemma counting_served:
  "\<exists>frames. serve_all (serve_body (\<lambda>_. 0) 0 [0 \<mapsto> counting_collection] counting_server 0)
     (map call_wire [counting_call 1]) 5 = Inr (frames, 6)"
proof -
  have "call_content (decoded (\<lambda>_. 0) 0 (counting_call 1)) = call_content (counting_call 1)"
    by (rule decoded_call(2) [OF counting_proper])
  note answer = counting_answer [OF this]
  show ?thesis
    by (rule serve_all_answers [OF counting_ok counting_proper_list counting_replies_fit, where junk = "\<lambda>_. 0" and w = 5])
      (auto simp: answer)
qed

lemma counting_reply:
  assumes "map call_content ms = map call_content [counting_call t]"
    and "replies_asked [counting_call t]
      (fst (run_calls (table_answer [0 \<mapsto> counting_collection] counting_server 0) ms w)) replies"
  shows "\<exists>r. replies = [r] \<and> reply_content r = (Content64 TUInt64 t, Content_Bytes TString [], [Content64 TUInt64 7])"
proof -
  obtain m where m: "ms = [m]" "call_content m = call_content (counting_call t)" using assms(1) by auto
  from assms(2) obtain r where "replies = [r]" "answers_with (counting_call t) (Called [value_of_uint64 7] (w + 1)) r"
    by (cases replies rule: list.exhaust) (auto simp: m counting_answer [OF m(2)] neq_Nil_conv replies_asked_nth)
  then show ?thesis by (auto simp: answers_with_def reply_asked_def counting_call_def build_call_def)
qed

end
