(* ===== verification/Instance_Win.thy ===== *)
theory Instance_Win
  imports Serial_Server Waitable
begin

text \<open>
  The Windows server instance (\<open>windows/ipc-server-instance-win.cpp\<close>): one worker thread per client reads a
  request, executes it and writes the reply. Reads and writes are asynchronous, their callbacks run inside
  the waits of the same thread. What the socket answers is an argument of each step.

  Buffers of replies have an identity, so that it can be said which buffer a write in flight refers to.
\<close>

section \<open>State\<close>

record instance_win =
  iw_stop :: bool
  iw_rbuf :: buffer
  iw_rop :: "bool option"
  iw_wop :: "bool option"
  iw_queue :: "(nat \<times> buffer) list"
  iw_writing :: "nat option"
  iw_write_waiting :: bool
  iw_last_write_time :: int
  iw_next :: nat

text \<open>
  \<open>iw_rop\<close> and \<open>iw_wop\<close> are the read and the write request: \<open>None\<close> for a null pointer, else their valid
  flag. \<open>iw_writing\<close> is the buffer a write in flight refers to, \<open>iw_next\<close> the identity of the next buffer.
\<close>

definition instance_win_make :: instance_win where
  "instance_win_make = \<lparr>iw_stop = False, iw_rbuf = [], iw_rop = None, iw_wop = None, iw_queue = [],
     iw_writing = None, iw_write_waiting = False, iw_last_write_time = 0, iw_next = 0\<rparr>"

definition instance_win_destroy :: "instance_win \<Rightarrow> instance_win" where
  "instance_win_destroy i = i\<lparr>iw_stop := True\<rparr>"

text \<open>The watchdog, in seconds: what it throws in its own thread ends the process.\<close>

definition watchdog_check :: "int \<Rightarrow> int \<Rightarrow> instance_win \<Rightarrow> unit result" where
  "watchdog_check call_timeout now i =
     (if iw_write_waiting i \<and> call_timeout < now - iw_last_write_time i
      then Inl (Exception ''No write in 30 seconds'') else Inr ())"

section \<open>The worker\<close>

datatype 's loop_end = Goes_On 's | Leaves 's | Throws string

definition op_is_valid :: "bool option \<Rightarrow> bool" where
  "op_is_valid op = (op = Some True)"

text \<open>The first part of an iteration: start reading a header when no read is in flight.\<close>

definition instance_win_start_read :: "os_error \<Rightarrow> instance_win \<Rightarrow> instance_win loop_end" where
  "instance_win_start_read ec i =
     (if op_is_valid (iw_rop i) then Goes_On i
      else
        let i = i\<lparr>iw_rbuf := resize_bytes 8 (iw_rbuf i)\<rparr> in
        if ec \<noteq> E_Pending \<and> ec \<noteq> E_Success then
          (if ec = E_Disconnected then Leaves i else Throws ''Unexpected error.'')
        else Goes_On (i\<lparr>iw_rop := Some True\<rparr>))"

text \<open>
  The second part: start writing the first reply of the queue when no write is in flight. The reply is
  then popped, which frees its buffer. The value includes the bytes handed to the socket.
\<close>

definition instance_win_start_write ::
  "os_error \<Rightarrow> instance_win \<Rightarrow> (buffer option \<times> instance_win loop_end) result"
where
  "instance_win_start_write ec i =
     (if op_is_valid (iw_wop i) then Inr (None, Goes_On i)
      else
        (case iw_queue i of
           [] \<Rightarrow> Inr (None, Goes_On i)
         | (k, fbuf) # queue \<Rightarrow>
             rbind (make_sendable fbuf) (\<lambda>fbuf.
             if ec \<noteq> E_Pending \<and> ec \<noteq> E_Success then
               (if ec = E_Disconnected then Inr (None, Leaves (i\<lparr>iw_queue := (k, fbuf) # queue\<rparr>))
                else Inr (None, Throws ''Write buffer operation failed''))
             else Inr (Some fbuf, Goes_On (i\<lparr>iw_wop := Some True, iw_writing := Some k,
                         iw_write_waiting := False, iw_queue := queue\<rparr>)))))"

text \<open>
  The last part: poll both requests, then wait for any of them; \<open>polls\<close> are the answers of the polls of
  the requests that are there, \<open>code\<close> that of \<open>wait_any\<close>.
\<close>

definition instance_win_wait :: "os_error \<Rightarrow> os_error \<Rightarrow> os_error \<Rightarrow> instance_win \<Rightarrow> instance_win loop_end" where
  "instance_win_wait poll_r poll_w code i =
     (if iw_rop i \<noteq> None \<and> poll_r = E_Success \<or> iw_wop i \<noteq> None \<and> poll_w = E_Success then Goes_On i
      else if code = E_TimedOut then Goes_On i
      else if code = E_Disconnected then Leaves i
      else if code = E_Error then Throws ''Error''
      else Goes_On i)"

text \<open>The guard of the loop and the three parts.\<close>

definition instance_win_iteration ::
  "bool \<Rightarrow> os_error \<Rightarrow> os_error \<Rightarrow> os_error \<Rightarrow> os_error \<Rightarrow> os_error \<Rightarrow> instance_win
   \<Rightarrow> (buffer option \<times> instance_win loop_end) result"
where
  "instance_win_iteration connected read_ec write_ec poll_r poll_w code i =
     (if \<not> (\<not> iw_stop i \<and> connected) then Inr (None, Leaves i)
      else (case instance_win_start_read read_ec i of
              Goes_On i \<Rightarrow>
                rbind (instance_win_start_write write_ec i) (\<lambda>(sent, r).
                case r of Goes_On i \<Rightarrow> Inr (sent, instance_win_wait poll_r poll_w code i)
                        | _ \<Rightarrow> Inr (sent, r))
            | r \<Rightarrow> Inr (None, r)))"

section \<open>The callbacks\<close>

text \<open>\<open>read_callback_msg_write\<close>\<close>

definition instance_win_msg_write :: "buffer \<Rightarrow> instance_win \<Rightarrow> instance_win" where
  "instance_win_msg_write write_buffer i =
     (if length write_buffer \<noteq> 0
      then i\<lparr>iw_queue := iw_queue i @ [(iw_next i, write_buffer)], iw_next := Suc (iw_next i)\<rparr>
      else i\<lparr>iw_rop := Some False\<rparr>)"

definition instance_win_read_msg ::
  "(nat \<Rightarrow> u64) \<Rightarrow> u64 \<Rightarrow> 'w heap \<Rightarrow> 'w server \<Rightarrow> u64 \<Rightarrow> int \<Rightarrow> os_error \<Rightarrow> instance_win \<times> 'w
   \<Rightarrow> (instance_win \<times> 'w) result"
where
  "instance_win_read_msg junk u h s client_id now ec = (\<lambda>(i, w).
     let i = i\<lparr>iw_write_waiting := True, iw_last_write_time := now\<rparr> in
     if ec \<noteq> E_Success then Inl (Exception ''Unexpected error.'')
     else
       case function_call_deserialize junk (function_call_init u u) (iw_rbuf i) 0 of
         Inl Bad_Access \<Rightarrow> Inl Bad_Access
       | Inl Abort \<Rightarrow> Inl Abort
       | Inl (Exception _) \<Rightarrow> Inl (Exception ''Deserialization of Function Call message failed.'')
       | Inr (fnc_call_msg, _) \<Rightarrow>
           rbind (execute_request h s client_id u fnc_call_msg w) (\<lambda>(reply, w).
           case function_reply_serialize reply (replicate (function_reply_size reply + 8) (CHR 0x00)) 8 of
             Inl Bad_Access \<Rightarrow> Inl Bad_Access
           | Inl Abort \<Rightarrow> Inl Abort
           | Inl (Exception _) \<Rightarrow> Inl (Exception ''Serialization of Function Reply message failed.'')
           | Inr (write_buffer, _) \<Rightarrow> Inr (instance_win_msg_write write_buffer i, w)))"

text \<open>
  \<open>read_callback_init\<close>: \<open>ec2\<close> is what the read of the body returns. When that read fails at once, \<open>fired\<close>,
  the socket has already run \<open>read_callback_msg\<close>, here \<open>msg\<close>, with the same code.
\<close>

definition instance_win_read_init ::
  "(os_error \<Rightarrow> instance_win \<times> 'w \<Rightarrow> (instance_win \<times> 'w) result) \<Rightarrow> os_error \<Rightarrow> os_error \<Rightarrow> bool
   \<Rightarrow> instance_win \<times> 'w \<Rightarrow> (instance_win \<times> 'w) result"
where
  "instance_win_read_init msg ec ec2 fired = (\<lambda>(i, w).
     let i = i\<lparr>iw_rop := Some False\<rparr> in
     if ec = E_Success \<or> ec = E_MoreData then
       rbind (read_size (iw_rbuf i)) (\<lambda>n_size.
       if n_size \<noteq> 0 then
         let i = i\<lparr>iw_rbuf := resize_bytes n_size (iw_rbuf i), iw_rop := Some (\<not> fired)\<rparr> in
         rbind (if fired then msg ec2 (i, w) else Inr (i, w)) (\<lambda>(i, w).
         if ec2 \<noteq> E_Pending \<and> ec2 \<noteq> E_Success then
           (if ec2 = E_Disconnected then Inr (i\<lparr>iw_rop := Some False\<rparr>, w)
            else Inl (Exception ''Unexpected error.''))
         else Inr (i, w))
       else Inr (i, w))
     else Inr (i, w))"

definition instance_win_write_callback :: "instance_win \<Rightarrow> instance_win" where
  "instance_win_write_callback i = i\<lparr>iw_wop := Some False, iw_rop := Some False, iw_writing := None\<rparr>"

section \<open>The instance as a state machine\<close>

text \<open>
  What the read request is for: nothing, a header, a body, or, until its reply has been written, a
  request that was executed. The history keeps the bodies of the requests that were executed, the reply
  buffers that were queued and the frames that were handed to the socket.
\<close>

datatype phase = Idle | Header | Body | Reply

record 'w iw_config =
  cf_phase :: phase
  cf_inst :: instance_win
  cf_world :: 'w
  cf_bodies :: "buffer list"
  cf_queued :: "buffer list"
  cf_sent :: "buffer list"

text \<open>
  The steps: an iteration of the worker that goes on; the completion of a header read, of a body read and
  of a write. \<open>bytes\<close> is what the system has put into the buffer. A read that fails at once does so with
  an error.
\<close>

inductive iw_step :: "(nat \<Rightarrow> u64) \<Rightarrow> u64 \<Rightarrow> 'w heap \<Rightarrow> 'w server \<Rightarrow> 'w iw_config \<Rightarrow> 'w iw_config \<Rightarrow> bool"
  for junk u h s
where
  iterate: "instance_win_iteration connected read_ec write_ec poll_r poll_w code (cf_inst c) = Inr (sent, Goes_On i) \<Longrightarrow>
    iw_step junk u h s c (c\<lparr>cf_phase := (if op_is_valid (iw_rop (cf_inst c)) then cf_phase c else Header),
      cf_inst := i, cf_sent := cf_sent c @ (case sent of None \<Rightarrow> [] | Some f \<Rightarrow> [f])\<rparr>)"
| header: "cf_phase c = Header \<Longrightarrow> \<not> fired \<or> ec2 \<noteq> E_Success \<Longrightarrow>
    instance_win_read_init (instance_win_read_msg junk u h s 0 now) ec ec2 fired
      ((cf_inst c)\<lparr>iw_rbuf := bytes\<rparr>, cf_world c) = Inr (i, w) \<Longrightarrow>
    iw_step junk u h s c (c\<lparr>cf_phase := (if op_is_valid (iw_rop i) then Body else Idle), cf_inst := i, cf_world := w\<rparr>)"
| body: "cf_phase c = Body \<Longrightarrow>
    instance_win_read_msg junk u h s 0 now ec ((cf_inst c)\<lparr>iw_rbuf := bytes\<rparr>, cf_world c) = Inr (i, w) \<Longrightarrow>
    iw_step junk u h s c (c\<lparr>cf_phase := Reply, cf_inst := i, cf_world := w, cf_bodies := cf_bodies c @ [bytes],
      cf_queued := cf_queued c @ map snd (drop (length (iw_queue (cf_inst c))) (iw_queue i))\<rparr>)"
| written: "iw_wop (cf_inst c) = Some True \<Longrightarrow>
    iw_step junk u h s c (c\<lparr>cf_phase := Idle, cf_inst := instance_win_write_callback (cf_inst c)\<rparr>)"

definition iw_init :: "'w \<Rightarrow> 'w iw_config" where
  "iw_init w0 = \<lparr>cf_phase = Idle, cf_inst = instance_win_make, cf_world = w0, cf_bodies = [], cf_queued = [], cf_sent = []\<rparr>"

text \<open>The frames sent are those of the queued replies, in order; what is left is in the queue.\<close>

definition replies_in_order :: "'w iw_config \<Rightarrow> bool" where
  "replies_in_order c \<longleftrightarrow>
     list_all2 (\<lambda>b f. make_sendable b = Inr f) (take (length (cf_sent c)) (cf_queued c)) (cf_sent c) \<and>
     drop (length (cf_sent c)) (cf_queued c) = map snd (iw_queue (cf_inst c))"

definition iw_inv :: "'w iw_config \<Rightarrow> bool" where
  "iw_inv c \<longleftrightarrow> replies_in_order c \<and>
     (case cf_phase c of
        Idle \<Rightarrow> \<not> op_is_valid (iw_rop (cf_inst c)) \<and> \<not> op_is_valid (iw_wop (cf_inst c)) \<and> iw_queue (cf_inst c) = []
      | Reply \<Rightarrow> op_is_valid (iw_rop (cf_inst c)) \<and>
          (op_is_valid (iw_wop (cf_inst c)) \<and> iw_queue (cf_inst c) = [] \<or>
           \<not> op_is_valid (iw_wop (cf_inst c)) \<and> length (iw_queue (cf_inst c)) = 1)
      | _ \<Rightarrow> op_is_valid (iw_rop (cf_inst c)) \<and> \<not> op_is_valid (iw_wop (cf_inst c)) \<and> iw_queue (cf_inst c) = [])"

lemma start_read_cases:
  assumes "instance_win_start_read ec i = Goes_On i'"
  shows "op_is_valid (iw_rop i')" and "iw_wop i' = iw_wop i" and "iw_queue i' = iw_queue i"
  using assms by (auto simp: instance_win_start_read_def op_is_valid_def Let_def split: if_splits)

lemma start_write_cases:
  assumes "instance_win_start_write ec i = Inr (sent, Goes_On i')"
  obtains (no_write) "sent = None" "i' = i" "op_is_valid (iw_wop i) \<or> iw_queue i = []"
  | (wrote) k b queue f where "\<not> op_is_valid (iw_wop i)" "iw_queue i = (k, b) # queue" "make_sendable b = Inr f"
      "sent = Some f" "i' = i\<lparr>iw_wop := Some True, iw_writing := Some k, iw_write_waiting := False, iw_queue := queue\<rparr>"
  using assms by (auto simp: instance_win_start_write_def rbind_eq_Inr_iff split: if_splits list.splits)

lemma wait_cases: "instance_win_wait poll_r poll_w code i = Goes_On i' \<Longrightarrow> i' = i"
  by (auto simp: instance_win_wait_def split: if_splits)

lemma iteration_cases:
  assumes "instance_win_iteration connected read_ec write_ec poll_r poll_w code i = Inr (sent, Goes_On i')"
  obtains i1 where "instance_win_start_read read_ec i = Goes_On i1" "instance_win_start_write write_ec i1 = Inr (sent, Goes_On i')"
proof -
  obtain i1 where i1: "instance_win_start_read read_ec i = Goes_On i1"
      "rbind (instance_win_start_write write_ec i1) (\<lambda>(sent, r).
         case r of Goes_On i \<Rightarrow> Inr (sent, instance_win_wait poll_r poll_w code i) | _ \<Rightarrow> Inr (sent, r)) =
       Inr (sent, Goes_On i')"
    using assms by (auto simp: instance_win_iteration_def split: if_splits loop_end.splits)
  then obtain sent1 r where r: "instance_win_start_write write_ec i1 = Inr (sent1, r)"
      "(case r of Goes_On i \<Rightarrow> Inr (sent1, instance_win_wait poll_r poll_w code i) | _ \<Rightarrow> Inr (sent1, r)) =
       (Inr (sent, Goes_On i') :: (buffer option \<times> instance_win loop_end) result)"
    by (auto simp: rbind_eq_Inr_iff)
  from r(2) have "sent1 = sent \<and> r = Goes_On i'"
    using wait_cases [of poll_r poll_w code _ i'] by (cases r) (auto dest: sym)
  with i1(1) r(1) that show thesis by simp
qed

text \<open>A request that was read is served as the specification says; its frame is made when it is sent.\<close>

lemma iw_read_msg_cases:
  assumes "instance_win_read_msg junk u h s cid now ec (i, w) = Inr (i', w')"
  obtains b f where "ec = E_Success" "i' = i\<lparr>iw_write_waiting := True, iw_last_write_time := now,
      iw_queue := iw_queue i @ [(iw_next i, b)], iw_next := Suc (iw_next i)\<rparr>"
    "make_sendable b = Inr f" "serve_body junk u h s cid (iw_rbuf i) w = Inr (f, w')"
proof -
  let ?i = "i\<lparr>iw_write_waiting := True, iw_last_write_time := now\<rparr>"
  have ec: "ec = E_Success"
    using assms by (auto simp: instance_win_read_msg_def Let_def split: if_splits)
  obtain m k where m: "function_call_deserialize junk (function_call_init u u) (iw_rbuf i) 0 = Inr (m, k)"
    using assms ec by (auto simp: instance_win_read_msg_def Let_def split: sum.splits fault.splits)
  then obtain reply w1 where reply: "execute_request h s cid u m w = Inr (reply, w1)"
      "(case function_reply_serialize reply (replicate (function_reply_size reply + 8) (CHR 0x00)) 8 of
         Inl Bad_Access \<Rightarrow> Inl Bad_Access | Inl Abort \<Rightarrow> Inl Abort
       | Inl (Exception _) \<Rightarrow> Inl (Exception ''Serialization of Function Reply message failed.'')
       | Inr (write_buffer, _) \<Rightarrow> Inr (instance_win_msg_write write_buffer ?i, w1)) = Inr (i', w')"
    using assms ec by (auto simp: instance_win_read_msg_def Let_def rbind_eq_Inr_iff)
  then obtain b n where b: "function_reply_serialize reply (replicate (function_reply_size reply + 8) (CHR 0x00)) 8 = Inr (b, n)"
      "i' = instance_win_msg_write b ?i" "w' = w1"
    by (auto split: sum.splits fault.splits)
  obtain f where f: "make_sendable b = Inr f" using make_sendable_ok [OF serialized_length [OF b(1)]] by blast
  have "serve_body junk u h s cid (iw_rbuf i) w = Inr (f, w')"
    using m reply(1) b(1,3) f by (simp add: serve_body_def pack_frame_def)
  moreover have "i' = i\<lparr>iw_write_waiting := True, iw_last_write_time := now,
      iw_queue := iw_queue i @ [(iw_next i, b)], iw_next := Suc (iw_next i)\<rparr>"
    using b(2) serialized_length [OF b(1)] by (cases b) (simp_all add: instance_win_msg_write_def)
  ultimately show thesis using that [OF ec _ f] by blast
qed

lemma iw_read_init_cases:
  assumes "instance_win_read_init (instance_win_read_msg junk u h s cid now) ec ec2 fired (i, w) = Inr (i', w')"
    and "\<not> fired \<or> ec2 \<noteq> E_Success"
  shows "iw_wop i' = iw_wop i" and "iw_queue i' = iw_queue i" and "w' = w"
proof -
  have "\<not> fired \<or> iw_wop i' = iw_wop i \<and> iw_queue i' = iw_queue i \<and> w' = w"
    using assms iw_read_msg_cases [of junk u h s cid now ec2]
    by (auto simp: instance_win_read_init_def Let_def rbind_eq_Inr_iff split: if_splits) blast
  then show "iw_wop i' = iw_wop i" "iw_queue i' = iw_queue i" "w' = w"
    using assms(1) by (auto simp: instance_win_read_init_def Let_def rbind_eq_Inr_iff split: if_splits)
qed

lemma replies_in_order_send:
  assumes "replies_in_order c" and "iw_queue (cf_inst c) = (k, b) # queue" and "make_sendable b = Inr f"
  shows "replies_in_order (c\<lparr>cf_phase := p, cf_inst := i\<lparr>iw_queue := queue\<rparr>, cf_sent := cf_sent c @ [f]\<rparr>)"
proof -
  let ?n = "length (cf_sent c)"
  have d: "drop ?n (cf_queued c) = b # map snd queue" using assms(1,2) by (simp add: replies_in_order_def)
  then have n: "?n < length (cf_queued c)" by (metis drop_all list.simps(3) not_less)
  have "cf_queued c ! ?n = b" using d n by (metis Cons_nth_drop_Suc list.inject)
  then have "take (Suc ?n) (cf_queued c) = take ?n (cf_queued c) @ [b]"
    using n by (simp add: take_Suc_conv_app_nth)
  moreover have "drop (Suc ?n) (cf_queued c) = map snd queue"
    using d by (metis drop_Suc list.sel(3) tl_drop)
  ultimately show ?thesis
    using assms(1,3) by (auto simp: replies_in_order_def intro: list_all2_appendI)
qed

lemma replies_in_order_queue:
  assumes "replies_in_order c" and "iw_queue i = iw_queue (cf_inst c) @ q"
  shows "replies_in_order (c\<lparr>cf_phase := p, cf_inst := i, cf_world := w, cf_bodies := bs,
    cf_queued := cf_queued c @ map snd (drop (length (iw_queue (cf_inst c))) (iw_queue i))\<rparr>)"
proof -
  have "length (cf_sent c) \<le> length (cf_queued c)"
    using assms(1) by (auto simp: replies_in_order_def dest!: list_all2_lengthD)
  with assms show ?thesis by (simp add: replies_in_order_def)
qed

lemma replies_in_order_same:
  "replies_in_order c \<Longrightarrow> iw_queue i = iw_queue (cf_inst c) \<Longrightarrow>
   replies_in_order (c\<lparr>cf_phase := p, cf_inst := i, cf_world := w\<rparr>)"
  by (simp add: replies_in_order_def)

lemma iterate_inv:
  assumes "instance_win_iteration connected read_ec write_ec poll_r poll_w code (cf_inst c) = Inr (sent, Goes_On i)"
    and inv: "iw_inv c"
  shows "iw_inv (c\<lparr>cf_phase := (if op_is_valid (iw_rop (cf_inst c)) then cf_phase c else Header),
    cf_inst := i, cf_sent := cf_sent c @ (case sent of None \<Rightarrow> [] | Some f \<Rightarrow> [f])\<rparr>)"
proof -
  obtain i1 where i1: "instance_win_start_read read_ec (cf_inst c) = Goes_On i1"
      "instance_win_start_write write_ec i1 = Inr (sent, Goes_On i)"
    using assms(1) by (rule iteration_cases)
  note r = start_read_cases [OF i1(1)]
  from i1(2) show ?thesis
  proof (cases rule: start_write_cases)
    case no_write
    have q: "iw_queue i = iw_queue (cf_inst c)" using no_write(2) r(3) by simp
    have "replies_in_order (c\<lparr>cf_phase := p, cf_inst := i, cf_sent := cf_sent c\<rparr>)" for p
      using inv q by (simp add: iw_inv_def replies_in_order_def)
    then show ?thesis
      using inv r no_write by (auto simp: iw_inv_def split: phase.splits)
  next
    case (wrote k b queue f)
    have q: "iw_queue (cf_inst c) = (k, b) # queue" using wrote(2) r(3) by simp
    then have ph: "cf_phase c = Reply" "queue = []"
      using inv by (auto simp: iw_inv_def split: phase.splits)
    have "i = i\<lparr>iw_queue := queue\<rparr>" using wrote(5) by simp
    then have "replies_in_order (c\<lparr>cf_phase := p, cf_inst := i, cf_sent := cf_sent c @ [f]\<rparr>)" for p
      using replies_in_order_send [OF _ q wrote(3), where p = p and i = i] inv by (simp add: iw_inv_def)
    then show ?thesis
      using inv r wrote ph by (auto simp: iw_inv_def op_is_valid_def)
  qed
qed

lemma iw_step_inv: "iw_step junk u h s c c' \<Longrightarrow> iw_inv c \<Longrightarrow> iw_inv c'"
proof (induction rule: iw_step.induct)
  case (iterate connected read_ec write_ec poll_r poll_w code c sent i)
  then show ?case by (intro iterate_inv)
next
  case (header c fired ec2 now ec bytes i w)
  have "replies_in_order (c\<lparr>cf_phase := p, cf_inst := i, cf_world := w\<rparr>)" for p
    using replies_in_order_same [where c = c and i = i and w = w and p = p] iw_read_init_cases [OF header(3,2)] header(4) by (simp add: iw_inv_def)
  then show ?case
    using iw_read_init_cases [OF header(3,2)] header(1,4) by (simp add: iw_inv_def)
next
  case (body c now ec bytes i w)
  from body(2) show ?case
  proof (cases rule: iw_read_msg_cases)
    case (1 b f)
    have "replies_in_order (c\<lparr>cf_phase := Reply, cf_inst := i, cf_world := w,
        cf_bodies := cf_bodies c @ [bytes], cf_queued := cf_queued c @ map snd (drop (length (iw_queue (cf_inst c))) (iw_queue i))\<rparr>)"
      using replies_in_order_queue [of c i "[(iw_next (cf_inst c), b)]"] 1 body(3) by (simp add: iw_inv_def)
    then show ?thesis using 1 body(1,3) by (simp add: iw_inv_def)
  qed
next
  case (written c)
  have q: "cf_phase c = Reply" "iw_queue (cf_inst c) = []"
    using written by (auto simp: iw_inv_def op_is_valid_def split: phase.splits)
  have "replies_in_order (c\<lparr>cf_phase := Idle, cf_inst := instance_win_write_callback (cf_inst c)\<rparr>)"
    using written(2) replies_in_order_same [where c = c and i = "instance_win_write_callback (cf_inst c)" and p = Idle and w = "cf_world c"]
    by (simp add: iw_inv_def instance_win_write_callback_def)
  then show ?case
    using q by (simp add: iw_inv_def instance_win_write_callback_def op_is_valid_def)
qed

interpretation iw: state_machine "\<lambda>c. c = iw_init w0" "iw_step junk u h s" iw_inv
  for w0 junk u h s
  by unfold_locales
    (simp add: iw_inv_def replies_in_order_def iw_init_def instance_win_make_def op_is_valid_def, rule iw_step_inv)

lemma queued_length:
  assumes "iw_inv c"
  shows "length (cf_queued c) - length (cf_sent c) = length (iw_queue (cf_inst c))"
    and "length (iw_queue (cf_inst c)) \<le> 1"
    and "length (cf_sent c) < length (cf_queued c) \<or> op_is_valid (iw_wop (cf_inst c)) \<Longrightarrow> cf_phase c = Reply"
proof -
  show q: "length (cf_queued c) - length (cf_sent c) = length (iw_queue (cf_inst c))"
    using assms length_drop [of "length (cf_sent c)" "cf_queued c"]
    by (simp add: iw_inv_def replies_in_order_def del: length_drop)
  show "length (iw_queue (cf_inst c)) \<le> 1"
    using assms by (auto simp: iw_inv_def split: phase.splits)
  show "length (cf_sent c) < length (cf_queued c) \<or> op_is_valid (iw_wop (cf_inst c)) \<Longrightarrow> cf_phase c = Reply"
    using assms q by (auto simp: iw_inv_def split: phase.splits)
qed

section \<open>Properties\<close>

text \<open>One request at a time on Windows. In every state a server instance can reach, with any answers of
  the system and any bytes from the client: the frames handed to the socket are those of the replies to
  the executed requests, in the order of the requests, each once; at most one reply is left over; and
  while a reply is queued or being written no read for a further request is in flight.\<close>

theorem win_instance_replies_in_order:
  assumes "(iw_step junk u h s)\<^sup>*\<^sup>* (iw_init w0) c"
  shows "list_all2 (\<lambda>b f. make_sendable b = Inr f) (take (length (cf_sent c)) (cf_queued c)) (cf_sent c) \<and>
    length (cf_queued c) \<le> length (cf_sent c) + 1 \<and>
    (length (cf_sent c) < length (cf_queued c) \<or> op_is_valid (iw_wop (cf_inst c)) \<longrightarrow> cf_phase c = Reply)"
proof -
  have inv: "iw_inv c" using iw.reachable_inv [OF refl assms] .
  then show ?thesis using queued_length [OF inv] by (auto simp: iw_inv_def replies_in_order_def)
qed

theorem win_instance_replies_in_order_witness:
  "length (cf_queued \<lparr>cf_phase = Header, cf_inst = instance_win_make\<lparr>iw_rbuf := replicate 8 CHR 0x00, iw_rop := Some True\<rparr>,
     cf_world = 7 :: nat, cf_bodies = [], cf_queued = [], cf_sent = []\<rparr>) \<le> 1"
proof -
  let ?c = "\<lparr>cf_phase = Idle, cf_inst = instance_win_make, cf_world = 7 :: nat, cf_bodies = [], cf_queued = [], cf_sent = []\<rparr>"
  have "instance_win_iteration True E_Pending E_Success E_TimedOut E_TimedOut E_TimedOut (cf_inst ?c) =
      Inr (None, Goes_On (instance_win_make\<lparr>iw_rbuf := replicate 8 CHR 0x00, iw_rop := Some True\<rparr>))"
    by (simp add: instance_win_iteration_def instance_win_start_read_def instance_win_start_write_def
        instance_win_wait_def instance_win_make_def op_is_valid_def resize_bytes_def Let_def)
  from iw_step.iterate [OF this, of "\<lambda>_. 0" 0 "\<lambda>_. None" server_make]
  have "iw_step (\<lambda>_. 0) 0 (\<lambda>_. None) server_make ?c
      \<lparr>cf_phase = Header, cf_inst = instance_win_make\<lparr>iw_rbuf := replicate 8 CHR 0x00, iw_rop := Some True\<rparr>,
       cf_world = 7, cf_bodies = [], cf_queued = [], cf_sent = []\<rparr>"
    by (simp add: instance_win_make_def op_is_valid_def)
  then have "(iw_step (\<lambda>_. 0) 0 (\<lambda>_. None) server_make)\<^sup>*\<^sup>* (iw_init (7 :: nat))
      \<lparr>cf_phase = Header, cf_inst = instance_win_make\<lparr>iw_rbuf := replicate 8 CHR 0x00, iw_rop := Some True\<rparr>,
       cf_world = 7, cf_bodies = [], cf_queued = [], cf_sent = []\<rparr>"
    unfolding iw_init_def by (rule r_into_rtranclp)
  from win_instance_replies_in_order [OF this] show ?thesis by simp
qed

text \<open>C35. A reply's buffer is freed while it is being written on Windows: whenever an iteration of the
  worker starts a write, the write in flight afterwards refers to a buffer that was the front of the
  queue before and is not in the queue any more, whether the write is pending or not.\<close>

theorem win_write_buffer_freed:
  assumes "instance_win_iteration connected read_ec write_ec poll_r poll_w code i = Inr (Some f, Goes_On i')"
    and "distinct (map fst (iw_queue i))"
  shows "write_ec \<in> {E_Pending, E_Success} \<and> (\<exists>k b. iw_queue i = (k, b) # iw_queue i' \<and> iw_writing i' = Some k \<and>
    op_is_valid (iw_wop i') \<and> k \<notin> fst ` set (iw_queue i'))"
proof -
  obtain i1 where i1: "instance_win_start_read read_ec i = Goes_On i1"
      "instance_win_start_write write_ec i1 = Inr (Some f, Goes_On i')"
    using assms(1) by (rule iteration_cases)
  have "write_ec \<in> {E_Pending, E_Success}"
    using i1(2) by (auto simp: instance_win_start_write_def rbind_eq_Inr_iff split: if_splits list.splits)
  with i1(2) show ?thesis
    by (cases rule: start_write_cases)
      (use start_read_cases(3) [OF i1(1)] assms(2) in \<open>auto simp: op_is_valid_def\<close>)
qed

theorem win_write_buffer_freed_witness:
  "\<exists>f i'. instance_win_iteration True E_Success E_Pending E_TimedOut E_TimedOut E_TimedOut
      (instance_win_make\<lparr>iw_rop := Some True, iw_queue := [(5, replicate 8 CHR 0x00)]\<rparr>) = Inr (Some f, Goes_On i') \<and>
    iw_writing i' = Some 5 \<and> 5 \<notin> fst ` set (iw_queue i')"
proof -
  let ?i = "instance_win_make\<lparr>iw_rop := Some True, iw_queue := [(5, replicate 8 CHR 0x00)]\<rparr>"
  have "\<exists>f i'. instance_win_iteration True E_Success E_Pending E_TimedOut E_TimedOut E_TimedOut ?i = Inr (Some f, Goes_On i')"
    by (simp add: instance_win_iteration_def instance_win_start_read_def instance_win_start_write_def
        instance_win_wait_def instance_win_make_def op_is_valid_def make_sendable_image)
  then obtain f i' where r: "instance_win_iteration True E_Success E_Pending E_TimedOut E_TimedOut E_TimedOut ?i = Inr (Some f, Goes_On i')"
    by blast
  from win_write_buffer_freed [OF r] r show ?thesis by (auto simp: instance_win_make_def)
qed

end
