(* ===== verification/Serial_Win.thy ===== *)
theory Serial_Win
  imports Instance_Win
begin

text \<open>
  The Windows server instance refines the serial server of \<open>Serial_Server\<close>: whatever its queue, its two
  requests and its buffers do, the frames it sends are those of a loop over the requests, and it gets
  through any sequence of them.
\<close>

section \<open>The instance is a serial server\<close>

text \<open>The frame of a queued reply. One answer per executed request; the frames sent are the first of them.\<close>

definition sent_as :: "buffer \<Rightarrow> buffer" where
  "sent_as b = (case make_sendable b of Inr f \<Rightarrow> f | Inl _ \<Rightarrow> [])"

lemma sent_prefix: "replies_in_order c \<Longrightarrow> cf_sent c = take (length (cf_sent c)) (map sent_as (cf_queued c))"
  by (auto simp: replies_in_order_def sent_as_def list_all2_conv_all_nth intro!: nth_equalityI)

lemma iw_step_serves:
  "iw_step junk u h s c c' \<Longrightarrow>
   cf_bodies c' = cf_bodies c \<and> cf_queued c' = cf_queued c \<and> cf_world c' = cf_world c \<or>
   (\<exists>body b f. serve_body junk u h s 0 body (cf_world c) = Inr (f, cf_world c') \<and> make_sendable b = Inr f \<and>
      cf_bodies c' = cf_bodies c @ [body] \<and> cf_queued c' = cf_queued c @ [b])"
proof (induction rule: iw_step.induct)
  case (header c fired ec2 now ec bytes i w)
  then show ?case using iw_read_init_cases(3) [OF header(3,2)] by simp
next
  case (body c now ec bytes i w)
  from body(2) show ?case
  proof (cases rule: iw_read_msg_cases)
    case (1 b f)
    then show ?thesis by auto
  qed
qed simp_all

interpretation iw_serial: serial_server "\<lambda>c. c = iw_init w0" "iw_step junk u h s" iw_inv
  "serve_body junk u h s 0" cf_bodies "\<lambda>c. map sent_as (cf_queued c)" cf_world "\<lambda>_. True" w0
  for w0 junk u h s
proof
  fix c c' :: "'a iw_config"
  show "c = iw_init w0 \<Longrightarrow> cf_bodies c = [] \<and> map sent_as (cf_queued c) = [] \<and> cf_world c = w0"
    by (simp add: iw_init_def)
  assume "iw_step junk u h s c c'"
  from iw_step_serves [OF this] show "cf_bodies c' = cf_bodies c \<and> map sent_as (cf_queued c') = map sent_as (cf_queued c) \<and>
      (True \<longrightarrow> True \<and> cf_world c' = cf_world c) \<or>
      True \<and> (\<exists>body frame. serve_body junk u h s 0 body (cf_world c) = Inr (frame, cf_world c') \<and>
        cf_bodies c' = cf_bodies c @ [body] \<and> map sent_as (cf_queued c') = map sent_as (cf_queued c) @ [frame])"
    by (auto simp: sent_as_def)
qed

text \<open>
  That the instance gets through a request: from an idle state, whatever it has served before, the five steps
  of an undisturbed exchange. The frame is cut into header and body by the two reads.
\<close>

lemma iw_read_msg_serves:
  assumes "serve_body junk u h s cid (iw_rbuf i) w = Inr (f, w')"
  obtains b where "make_sendable b = Inr f"
    and "instance_win_read_msg junk u h s cid now E_Success (i, w) = Inr (i\<lparr>iw_write_waiting := True,
      iw_last_write_time := now, iw_queue := iw_queue i @ [(iw_next i, b)], iw_next := Suc (iw_next i)\<rparr>, w')"
proof -
  obtain m k reply b n where m: "function_call_deserialize junk (function_call_init u u) (iw_rbuf i) 0 = Inr (m, k)"
      "execute_request h s cid u m w = Inr (reply, w')"
      "function_reply_serialize reply (replicate (function_reply_size reply + 8) (CHR 0x00)) 8 = Inr (b, n)"
      "make_sendable b = Inr f"
    using assms by (auto simp: serve_body_def pack_frame_def rbind_eq_Inr_iff)
  have "b \<noteq> []" using serialized_length [OF m(3)] by auto
  with m show thesis
    by (intro that [OF m(4)]) (simp add: instance_win_read_msg_def instance_win_msg_write_def)
qed

lemma iw_header_read:
  assumes "cf_phase c = Idle" and "iw_inv c" and "\<not> iw_stop (cf_inst c)" and "frame_cut hdr body"
  shows "\<exists>buf. (iw_step junk u h s)\<^sup>*\<^sup>* c
    (c\<lparr>cf_phase := Body, cf_inst := (cf_inst c)\<lparr>iw_rop := Some True, iw_rbuf := buf\<rparr>\<rparr>)"
proof -
  let ?i = "cf_inst c"
  let ?i1 = "?i\<lparr>iw_rbuf := resize_bytes 8 (iw_rbuf ?i), iw_rop := Some True\<rparr>"
  let ?c1 = "c\<lparr>cf_phase := Header, cf_inst := ?i1\<rparr>"
  have idle: "\<not> op_is_valid (iw_rop ?i)" "\<not> op_is_valid (iw_wop ?i)" "iw_queue ?i = []"
    using assms(1,2) by (simp_all add: iw_inv_def)
  have "instance_win_iteration True E_Pending E_Pending E_TimedOut E_TimedOut E_TimedOut ?i = Inr (None, Goes_On ?i1)"
    using idle assms(3) by (simp add: instance_win_iteration_def instance_win_start_read_def
        instance_win_start_write_def instance_win_wait_def Let_def)
  from iw_step.iterate [OF this, of junk u h s] have 1: "iw_step junk u h s c ?c1" using idle(1) by simp
  have "instance_win_read_init (instance_win_read_msg junk u h s 0 0) E_Success E_Pending False
      ((cf_inst ?c1)\<lparr>iw_rbuf := hdr\<rparr>, cf_world ?c1) =
    Inr (?i1\<lparr>iw_rbuf := resize_bytes (length body) hdr\<rparr>, cf_world c)"
    using assms(4) by (simp add: instance_win_read_init_def frame_cut_def)
  from iw_step.header [OF _ _ this] have "iw_step junk u h s ?c1
      (c\<lparr>cf_phase := Body, cf_inst := ?i\<lparr>iw_rop := Some True, iw_rbuf := resize_bytes (length body) hdr\<rparr>\<rparr>)"
    by (simp add: op_is_valid_def)
  with 1 show ?thesis by (blast intro: rtranclp.rtrancl_into_rtrancl)
qed

lemma iw_reply_written:
  assumes "iw_queue (cf_inst c) = [(k, b)]" and "op_is_valid (iw_rop (cf_inst c))" and "\<not> op_is_valid (iw_wop (cf_inst c))"
    and "\<not> iw_stop (cf_inst c)" and "make_sendable b = Inr f"
  shows "(iw_step junk u h s)\<^sup>*\<^sup>* c (c\<lparr>cf_sent := cf_sent c @ [f], cf_phase := Idle, cf_inst := instance_win_write_callback
    ((cf_inst c)\<lparr>iw_wop := Some True, iw_writing := Some k, iw_write_waiting := False, iw_queue := []\<rparr>)\<rparr>)"
proof -
  let ?i = "(cf_inst c)\<lparr>iw_wop := Some True, iw_writing := Some k, iw_write_waiting := False, iw_queue := []\<rparr>"
  let ?c = "c\<lparr>cf_inst := ?i, cf_sent := cf_sent c @ [f]\<rparr>"
  have "instance_win_iteration True E_Pending E_Pending E_TimedOut E_TimedOut E_TimedOut (cf_inst c) = Inr (Some f, Goes_On ?i)"
    using assms by (simp add: instance_win_iteration_def instance_win_start_read_def
        instance_win_start_write_def instance_win_wait_def)
  from iw_step.iterate [OF this, of junk u h s] have "iw_step junk u h s c ?c" using assms(2) by simp
  moreover have "iw_step junk u h s ?c (?c\<lparr>cf_phase := Idle, cf_inst := instance_win_write_callback ?i\<rparr>)"
    using iw_step.written [of ?c junk u h s] by simp
  ultimately show ?thesis by (simp add: rtranclp.rtrancl_into_rtrancl r_into_rtranclp)
qed

lemma iw_serves_one:
  assumes "cf_phase c = Idle" and "iw_inv c" and "\<not> iw_stop (cf_inst c)" and "frame_cut hdr body"
    and "serve_body junk u h s 0 body (cf_world c) = Inr (f, w')"
  shows "\<exists>c'. (iw_step junk u h s)\<^sup>*\<^sup>* c c' \<and> cf_phase c' = Idle \<and> \<not> iw_stop (cf_inst c') \<and>
    cf_world c' = w' \<and> cf_bodies c' = cf_bodies c @ [body] \<and> cf_sent c' = cf_sent c @ [f]"
proof -
  have idle: "\<not> op_is_valid (iw_wop (cf_inst c))" "iw_queue (cf_inst c) = []"
    using assms(1,2) by (simp_all add: iw_inv_def)
  obtain buf where 1: "(iw_step junk u h s)\<^sup>*\<^sup>* c
      (c\<lparr>cf_phase := Body, cf_inst := (cf_inst c)\<lparr>iw_rop := Some True, iw_rbuf := buf\<rparr>\<rparr>)"
    using iw_header_read [OF assms(1-4)] by blast
  let ?c = "c\<lparr>cf_phase := Body, cf_inst := (cf_inst c)\<lparr>iw_rop := Some True, iw_rbuf := buf\<rparr>\<rparr>"
  have "serve_body junk u h s 0 (iw_rbuf ((cf_inst ?c)\<lparr>iw_rbuf := body\<rparr>)) (cf_world ?c) = Inr (f, w')"
    using assms(5) by simp
  then obtain b where b: "make_sendable b = Inr f" "instance_win_read_msg junk u h s 0 0 E_Success
      ((cf_inst ?c)\<lparr>iw_rbuf := body\<rparr>, cf_world ?c) = Inr ((cf_inst ?c)\<lparr>iw_rbuf := body, iw_write_waiting := True,
        iw_last_write_time := 0, iw_queue := [(iw_next (cf_inst c), b)], iw_next := Suc (iw_next (cf_inst c))\<rparr>, w')"
    by (rule iw_read_msg_serves [where now = 0]) (use idle(2) in simp)
  let ?i = "(cf_inst ?c)\<lparr>iw_rbuf := body, iw_write_waiting := True, iw_last_write_time := 0,
    iw_queue := [(iw_next (cf_inst c), b)], iw_next := Suc (iw_next (cf_inst c))\<rparr>"
  let ?c' = "?c\<lparr>cf_phase := Reply, cf_inst := ?i, cf_world := w', cf_bodies := cf_bodies c @ [body],
    cf_queued := cf_queued c @ [b]\<rparr>"
  have 2: "iw_step junk u h s ?c ?c'"
    using iw_step.body [OF _ b(2)] idle(2) by simp
  have 3: "(iw_step junk u h s)\<^sup>*\<^sup>* ?c' (?c'\<lparr>cf_sent := cf_sent c @ [f], cf_phase := Idle, cf_inst := instance_win_write_callback
      (?i\<lparr>iw_wop := Some True, iw_writing := Some (iw_next (cf_inst c)), iw_write_waiting := False, iw_queue := []\<rparr>)\<rparr>)"
    using iw_reply_written [of ?c' "iw_next (cf_inst c)" b f junk u h s] idle(1) assms(3) b(1)
    by (simp add: op_is_valid_def)
  show ?thesis
    by (rule exI, rule conjI, rule rtranclp_trans [OF rtranclp.rtrancl_into_rtrancl [OF 1 2] 3])
      (use assms(3) in \<open>simp add: instance_win_write_callback_def\<close>)
qed

text \<open>And through any sequence of requests.\<close>

lemma iw_serves_all:
  assumes "cf_phase c = Idle" and "iw_inv c" and "\<not> iw_stop (cf_inst c)"
    and "list_all (\<lambda>body. \<exists>hdr. frame_cut hdr body) bodies"
    and "serve_all (serve_body junk u h s 0) bodies (cf_world c) = Inr (frames, w')"
  shows "\<exists>c'. (iw_step junk u h s)\<^sup>*\<^sup>* c c' \<and> cf_phase c' = Idle \<and> \<not> iw_stop (cf_inst c') \<and>
    cf_world c' = w' \<and> cf_bodies c' = cf_bodies c @ bodies \<and> cf_sent c' = cf_sent c @ frames"
  using assms
proof (induction bodies arbitrary: c frames)
  case (Cons body bodies)
  obtain hdr f w1 fs where f: "frame_cut hdr body" "serve_body junk u h s 0 body (cf_world c) = Inr (f, w1)"
      "serve_all (serve_body junk u h s 0) bodies w1 = Inr (fs, w')" "frames = f # fs"
    using Cons.prems(4,5) by (auto simp: rbind_eq_Inr_iff)
  obtain c1 where c1: "(iw_step junk u h s)\<^sup>*\<^sup>* c c1" "cf_phase c1 = Idle" "\<not> iw_stop (cf_inst c1)"
      "cf_world c1 = w1" "cf_bodies c1 = cf_bodies c @ [body]" "cf_sent c1 = cf_sent c @ [f]"
    using iw_serves_one [OF Cons.prems(1-3) f(1,2)] by blast
  have "list_all (\<lambda>body. \<exists>hdr. frame_cut hdr body) bodies" using Cons.prems(4) by simp
  from Cons.IH [OF c1(2) iw.inv_steps [OF c1(1) Cons.prems(2)] c1(3) this] f(3) c1(4)
  obtain c2 where "(iw_step junk u h s)\<^sup>*\<^sup>* c1 c2" "cf_phase c2 = Idle" "\<not> iw_stop (cf_inst c2)"
      "cf_world c2 = w'" "cf_bodies c2 = cf_bodies c1 @ bodies" "cf_sent c2 = cf_sent c1 @ fs"
    by auto
  then show ?case using c1 f(4) rtranclp_trans [OF c1(1)] by auto
qed auto

text \<open>What the instance has sent, when the requests are those of storable calls.\<close>

lemma win_instance_answers:
  assumes "classes_ok h s" and "heap_ok h" and "list_all proper_call ms" and "replies_fit h s 0 u ms"
    and "(iw_step junk u h s)\<^sup>*\<^sup>* (iw_init w0) c" and "cf_bodies c = map call_wire ms"
  obtains replies where "replies_asked ms (fst (run_calls (table_answer h s 0) (map (decoded junk u) ms) w0)) replies"
    and "cf_world c = snd (run_calls (table_answer h s 0) (map (decoded junk u) ms) w0)"
    and "cf_sent c = take (length (cf_sent c)) (map (\<lambda>r. frame_image (reply_wire r)) replies)"
proof -
  have all: "serve_all (serve_body junk u h s 0) (map call_wire ms) w0 = Inr (map sent_as (cf_queued c), cf_world c)"
    using iw_serial.serial_steps [OF assms(5) refl] assms(6) by auto
  have sent: "cf_sent c = take (length (cf_sent c)) (map sent_as (cf_queued c))"
    using iw.reachable_inv [OF refl assms(5)] by (auto simp: iw_inv_def intro: sent_prefix)
  obtain replies where r: "serve_all (serve_body junk u h s 0) (map call_wire ms) w0 =
      Inr (map (\<lambda>r. frame_image (reply_wire r)) replies, snd (run_calls (table_answer h s 0) (map (decoded junk u) ms) w0))"
    "replies_asked ms (fst (run_calls (table_answer h s 0) (map (decoded junk u) ms) w0)) replies"
    by (rule serve_all_answers [OF assms(1-4), of junk w0])
  show thesis using that [OF r(2)] r(1) all sent by simp
qed

section \<open>Properties\<close>

text \<open>C6. A Windows instance is a serial server. In every state it can reach, with any answers of the system
  and any bytes from the client, there is one answer for each request body it has executed, and these
  answers and the state of the application are exactly what a loop over the bodies computes that decodes,
  executes, encodes and frames one request after the other; the frames handed to the socket are the first
  of these answers, and at most one is still to be sent.\<close>

theorem win_instance_refines_serial:
  assumes "(iw_step junk u h s)\<^sup>*\<^sup>* (iw_init w0) c"
  shows "\<exists>answers. serve_all (serve_body junk u h s 0) (cf_bodies c) w0 = Inr (answers, cf_world c) \<and>
    cf_sent c = take (length (cf_sent c)) answers \<and> length (cf_bodies c) \<le> length (cf_sent c) + 1"
proof -
  have inv: "iw_inv c" by (rule iw.reachable_inv [OF refl assms])
  have all: "serve_all (serve_body junk u h s 0) (cf_bodies c) w0 = Inr (map sent_as (cf_queued c), cf_world c)"
    using iw_serial.serial_steps [OF assms refl] by auto
  moreover have "length (cf_bodies c) \<le> length (cf_sent c) + 1"
    using serve_all_length [OF all] queued_length(1,2) [OF inv] by simp
  ultimately show ?thesis using inv sent_prefix by (auto simp: iw_inv_def)
qed

lemma win_instance_run:
  assumes "list_all proper_call ms"
    and "serve_all (serve_body junk u h s 0) (map call_wire ms) w0 = Inr (frames, w')"
  shows "\<exists>c. (iw_step junk u h s)\<^sup>*\<^sup>* (iw_init w0) c \<and> cf_world c = w' \<and>
    cf_bodies c = map call_wire ms \<and> cf_sent c = frames"
  using iw_serves_all [OF _ _ _ frame_cut_calls [OF assms(1)], of "iw_init w0" junk u h s frames w'] assms(2)
    iw.inv_start [of "iw_init w0" w0]
  by (auto simp: iw_init_def instance_win_make_def)

lemma counting_run:
  "\<exists>c. (iw_step (\<lambda>_. 0) 0 [0 \<mapsto> counting_collection] counting_server)\<^sup>*\<^sup>* (iw_init 5) c \<and> cf_world c = 6 \<and>
    cf_bodies c = map call_wire [counting_call 1] \<and> length (cf_sent c) = 1"
proof -
  obtain frames where "serve_all (serve_body (\<lambda>_. 0) 0 [0 \<mapsto> counting_collection] counting_server 0)
      (map call_wire [counting_call 1]) 5 = Inr (frames, 6)"
    using counting_served by blast
  with win_instance_run [OF counting_proper_list this] serve_all_length [OF this] show ?thesis by auto
qed

theorem win_instance_refines_serial_witness:
  "\<exists>answers. serve_all (serve_body (\<lambda>_. 0) 0 [0 \<mapsto> counting_collection] counting_server 0)
     [call_wire (counting_call 1)] 5 = Inr (answers, 6)"
proof -
  obtain c where c: "(iw_step (\<lambda>_. 0) 0 [0 \<mapsto> counting_collection] counting_server)\<^sup>*\<^sup>* (iw_init 5) c"
    "cf_world c = 6" "cf_bodies c = map call_wire [counting_call 1]"
    using counting_run by blast
  from win_instance_refines_serial [OF c(1)] c(2,3) show ?thesis by auto
qed

text \<open>A Windows instance answers calls as the table says. When the bodies it has executed are those of
  storable calls whose replies can be stored, then the state of the application is that of the calls run
  on the table one after the other, and the frames handed to the socket are those of the replies the
  table asks for: the unique id of the call with the results of its handler, or with the error text.\<close>

theorem win_instance_answers_calls:
  assumes "classes_ok h s" and "heap_ok h" and "list_all proper_call ms" and "replies_fit h s 0 u ms"
    and "(iw_step junk u h s)\<^sup>*\<^sup>* (iw_init w0) c" and "cf_bodies c = map call_wire ms"
  shows "\<exists>ms' replies. map call_content ms' = map call_content ms \<and>
    cf_world c = snd (run_calls (table_answer h s 0) ms' w0) \<and>
    replies_asked ms (fst (run_calls (table_answer h s 0) ms' w0)) replies \<and>
    cf_sent c = take (length (cf_sent c)) (map (\<lambda>r. frame_image (reply_wire r)) replies)"
proof -
  obtain replies where "replies_asked ms (fst (run_calls (table_answer h s 0) (map (decoded junk u) ms) w0)) replies"
    "cf_world c = snd (run_calls (table_answer h s 0) (map (decoded junk u) ms) w0)"
    "cf_sent c = take (length (cf_sent c)) (map (\<lambda>r. frame_image (reply_wire r)) replies)"
    by (rule win_instance_answers [OF assms])
  then show ?thesis using decoded_contents [OF assms(3), of junk u] by blast
qed

theorem win_instance_answers_calls_witness:
  "\<exists>c :: nat iw_config. cf_world c = 6 \<and> length (cf_sent c) = 1 \<and> (\<exists>r. cf_sent c = [frame_image (reply_wire r)] \<and>
    reply_content r = (Content64 TUInt64 1, Content_Bytes TString [], [Content64 TUInt64 7]))"
proof -
  obtain c where c: "(iw_step (\<lambda>_. 0) 0 [0 \<mapsto> counting_collection] counting_server)\<^sup>*\<^sup>* (iw_init 5) c"
    "cf_world c = 6" "cf_bodies c = map call_wire [counting_call 1]" "length (cf_sent c) = 1"
    using counting_run by blast
  obtain ms' replies where r: "map call_content ms' = map call_content [counting_call 1]"
    "replies_asked [counting_call 1]
      (fst (run_calls (table_answer [0 \<mapsto> counting_collection] counting_server 0) ms' 5)) replies"
    "cf_sent c = take (length (cf_sent c)) (map (\<lambda>r. frame_image (reply_wire r)) replies)"
    using win_instance_answers_calls [OF counting_ok counting_proper_list counting_replies_fit c(1,3)] by blast
  from counting_reply [OF r(1,2)] r(3) c(2,4) show ?thesis by (intro exI [of _ c]) auto
qed

text \<open>A Windows instance gets through any sequence of calls: from the start there is a run that executes
  the calls in their order and hands the frames of all their replies, those the table asks for, to the
  socket.\<close>

theorem win_instance_serves_calls:
  assumes "classes_ok h s" and "heap_ok h" and "list_all proper_call ms" and "replies_fit h s 0 u ms"
  shows "\<exists>c ms' replies. (iw_step junk u h s)\<^sup>*\<^sup>* (iw_init w0) c \<and> cf_bodies c = map call_wire ms \<and>
    map call_content ms' = map call_content ms \<and>
    replies_asked ms (fst (run_calls (table_answer h s 0) ms' w0)) replies \<and>
    cf_sent c = map (\<lambda>r. frame_image (reply_wire r)) replies"
proof -
  obtain replies where r: "serve_all (serve_body junk u h s 0) (map call_wire ms) w0 =
      Inr (map (\<lambda>r. frame_image (reply_wire r)) replies, snd (run_calls (table_answer h s 0) (map (decoded junk u) ms) w0))"
    "replies_asked ms (fst (run_calls (table_answer h s 0) (map (decoded junk u) ms) w0)) replies"
    by (rule serve_all_answers [OF assms, of junk w0])
  show ?thesis
    using win_instance_run [OF assms(3) r(1)] r(2) decoded_contents [OF assms(3), of junk u] by blast
qed

theorem win_instance_serves_calls_witness:
  "\<exists>c. (iw_step (\<lambda>_. 0) 0 [0 \<mapsto> counting_collection] counting_server)\<^sup>*\<^sup>* (iw_init 5) c \<and> length (cf_sent c) = 1"
proof -
  obtain c ms' replies where c: "(iw_step (\<lambda>_. 0) 0 [0 \<mapsto> counting_collection] counting_server)\<^sup>*\<^sup>* (iw_init 5) c"
    "map call_content ms' = map call_content [counting_call 1]"
    "replies_asked [counting_call 1]
      (fst (run_calls (table_answer [0 \<mapsto> counting_collection] counting_server 0) ms' 5)) replies"
    "cf_sent c = map (\<lambda>r. frame_image (reply_wire r)) replies"
    using win_instance_serves_calls [OF counting_ok counting_proper_list counting_replies_fit, of "\<lambda>_. 0" 5] by blast
  from counting_reply [OF c(2,3)] c(1,4) show ?thesis by auto
qed

end
