(* ===== verification/Call_Answer.thy ===== *)
theory Call_Answer
  imports Client_Base Serial_Server "HOL-Library.Multiset"
begin

text \<open>
  Where the two ends meet: the frame a client makes is one the serial server answers, and what a client
  makes of the reply is what its caller must see for the outcome on the server's table. And what both systems
  keep of the calls in them: their frames, their ids and their outcomes in the order in which they were written.
\<close>

definition call_time :: "function_call \<Rightarrow> u64" where
  "call_time m = value_union (call_uid m)"

lemma call_time_build: "call_time (build_call t cu cname fname args) = t"
  by (simp add: build_call_def call_time_def value_of_uint64_def)

lemma proper_frame:
  assumes "proper_call (build_call (t + 1) cu cname fname args)"
  shows "function_call_size (build_call (t + 1) cu cname fname args) + 8 < 2 ^ 64"
  using assms by (simp add: proper_call_def)

text \<open>What a client makes of such a reply.\<close>

definition own_answer :: "function_call \<Rightarrow> 'w call_outcome \<Rightarrow> ipc_value list \<Rightarrow> bool" where
  "own_answer m oc vs = outcome_seen (value_str (call_class_name m)) (value_str (call_function_name m)) oc vs"

lemma reply_understood:
  assumes "answers_with m oc r" and "value_content (call_uid m) = Content64 TUInt64 (call_time m)"
  obtains err where "reply_for r (call_time m) err" and "\<forall>vs. carries r err vs \<longrightarrow> own_answer m oc vs"
proof (cases oc)
  case Unknown_Class
  then show thesis
    using that [of "class_error (value_str (call_class_name m))"] assms
    by (auto simp: answers_with_def reply_asked_def reply_content_def reply_for_def carries_def own_answer_def outcome_seen_def)
next
  case Unknown_Function
  then show thesis
    using that [of "function_error (value_str (call_class_name m)) (value_str (call_function_name m))"] assms
    by (auto simp: answers_with_def reply_asked_def reply_content_def reply_for_def carries_def own_answer_def outcome_seen_def)
next
  case (Called rval w)
  then show thesis
    using that [of "[]"] assms
    by (auto simp: answers_with_def reply_asked_def reply_content_def reply_for_def carries_def own_answer_def outcome_seen_def)
qed

text \<open>Both together: a call that a client makes, the server's answer to it, and what arrives.\<close>

lemma call_answered:
  assumes "classes_ok h s" and "heap_ok h" and "m = build_call t cu cname fname args" and "proper_call m"
    and "replies_fit h s 0 u [m]" and oc: "oc = table_answer h s 0 (decoded junk u m) w"
  obtains r err where "serve_body junk u h s 0 (call_wire m) w = Inr (frame_image (reply_wire r), outcome_world w oc)"
    and "reply_for r t err" and "function_reply_size r < 2 ^ 32" and "\<forall>vs. carries r err vs \<longrightarrow> outcome_seen cname fname oc vs"
proof -
  have "m \<in> set [m]" by simp
  from serve_body_answers [OF assms(1,2,4,5) this, of junk w] obtain r where
    serve: "serve_body junk u h s 0 (call_wire m) w = Inr (frame_image (reply_wire r), outcome_world w oc)"
    and r: "answers_with m oc r"
    unfolding oc by blast
  have ct: "call_time m = t" "value_content (call_uid m) = Content64 TUInt64 (call_time m)"
    "value_str (call_class_name m) = cname" "value_str (call_function_name m) = fname"
    unfolding assms(3) call_time_build by (simp_all add: build_call_def value_of_string_def)
  obtain err where err: "reply_for r t err" "\<forall>vs. carries r err vs \<longrightarrow> own_answer m oc vs"
    using reply_understood [OF r ct(2)] ct(1) by metis
  show thesis
    using that [OF serve err(1)] r err(2) by (simp add: answers_with_def own_answer_def ct(3,4))
qed

section \<open>The calls in a system\<close>

text \<open>A call in the system: storable, with the frame made for it, and with an id of the past.\<close>

definition entry_ok :: "'w heap \<Rightarrow> 'w server \<Rightarrow> u64 \<Rightarrow> u64 \<Rightarrow> function_call \<times> buffer \<Rightarrow> bool" where
  "entry_ok h s u now = (\<lambda>(m, frame). frame = frame_image (call_wire m) \<and> proper_call m \<and> replies_fit h s 0 u [m] \<and>
     value_content (call_uid m) = Content64 TUInt64 (call_time m) \<and> call_time m \<le> now)"

definition entries_ok :: "'w heap \<Rightarrow> 'w server \<Rightarrow> u64 \<Rightarrow> u64 \<Rightarrow> (function_call \<times> buffer) list \<Rightarrow> bool" where
  "entries_ok h s u now es \<longleftrightarrow> list_all (entry_ok h s u now) es \<and> distinct (map (call_time \<circ> fst) es)"

lemma entry_ok_later: "(now :: u64) + 1 \<noteq> 0 \<Longrightarrow> entry_ok h s u now e \<Longrightarrow> entry_ok h s u (now + 1) e"
  using timestamp_grows(1) [of now] by (auto simp: entry_ok_def)

lemma entries_ok_new:
  assumes "entries_ok h s u now es" and "now + 1 \<noteq> 0" and "m = build_call (now + 1) cu cname fname args"
    and "proper_call m" and "replies_fit h s 0 u [m]"
  shows "entries_ok h s u (now + 1) ((m, frame_image (call_wire m)) # es)"
proof -
  have t: "call_time m = now + 1" "value_content (call_uid m) = Content64 TUInt64 (now + 1)"
    by (simp_all add: assms(3) build_call_def call_time_def value_of_uint64_def value_content_def)
  have "list_all (entry_ok h s u (now + 1)) es"
    using assms(1) entry_ok_later [OF assms(2), of h s u] unfolding entries_ok_def list_all_iff by blast
  moreover have "now + 1 \<notin> set (map (call_time \<circ> fst) es)"
    using assms(1) timestamp_grows(2) [OF assms(2)] by (force simp: entries_ok_def list_all_iff entry_ok_def)
  ultimately show ?thesis
    using assms(1,4,5) t by (auto simp: entries_ok_def entry_ok_def)
qed

lemma entries_ok_mset:
  assumes "mset es' = mset es"
  shows "entries_ok h s u now es' \<longleftrightarrow> entries_ok h s u now es"
proof -
  have "distinct (map f es') \<longleftrightarrow> distinct (map f es)" for f :: "function_call \<times> buffer \<Rightarrow> u64"
    by (rule mset_eq_imp_distinct_iff) (simp add: assms)
  moreover have "set es' = set es" using assms by (rule mset_eq_setD)
  ultimately show ?thesis by (simp add: entries_ok_def list_all_iff)
qed

lemma frames_of_entries: "entries_ok h s u now es \<Longrightarrow> map (\<lambda>(m, frame). drop 8 frame) es = map call_wire (map fst es)"
  by (auto simp: entries_ok_def list_all_iff entry_ok_def)

lemma entries_ok_append: "entries_ok h s u now (xs @ ys) \<Longrightarrow> entries_ok h s u now ys"
  by (simp add: entries_ok_def)

text \<open>What the table says of the calls written so far, run one after the other in that order.\<close>

definition outcomes :: "(nat \<Rightarrow> u64) \<Rightarrow> u64 \<Rightarrow> 'w heap \<Rightarrow> 'w server \<Rightarrow> 'w \<Rightarrow> (function_call \<times> buffer) list \<Rightarrow> 'w call_outcome list" where
  "outcomes junk u h s w0 es = fst (run_calls (table_answer h s 0) (map (decoded junk u) (map fst es)) w0)"

lemma length_outcomes [simp]: "length (outcomes junk u h s w0 es) = length es"
  by (simp add: outcomes_def)

lemma outcomes_append: "j < length es \<Longrightarrow> outcomes junk u h s w0 (es @ fs) ! j = outcomes junk u h s w0 es ! j"
  by (simp add: outcomes_def run_calls_append nth_append)

lemma replies_fit_all: "(\<And>m. m \<in> set ms \<Longrightarrow> replies_fit h s cid u [m]) \<Longrightarrow> replies_fit h s cid u ms"
  by (simp add: replies_fit_def)

lemma entries_calls:
  assumes "entries_ok h s u now es"
  shows "list_all proper_call (map fst es)" and "replies_fit h s 0 u (map fst es)"
proof -
  have e: "proper_call m \<and> replies_fit h s 0 u [m]" if "m \<in> set (map fst es)" for m
    using assms that by (auto simp: entries_ok_def list_all_iff entry_ok_def)
  then show "list_all proper_call (map fst es)" by (simp add: list_all_iff)
  show "replies_fit h s 0 u (map fst es)" by (rule replies_fit_all) (use e in blast)
qed

text \<open>The values are what a caller with the id \<open>k\<close> must see for the outcome of the call with this id.\<close>

definition answer_from ::
  "(nat \<Rightarrow> u64) \<Rightarrow> u64 \<Rightarrow> 'w heap \<Rightarrow> 'w server \<Rightarrow> 'w \<Rightarrow> (function_call \<times> buffer) list \<Rightarrow> int \<Rightarrow> ipc_value list \<Rightarrow> bool"
where
  "answer_from junk u h s w0 es k vs \<longleftrightarrow>
     (\<exists>j < length es. k = callback_key (call_time (fst (es ! j))) \<and>
        own_answer (fst (es ! j)) (outcomes junk u h s w0 es ! j) vs)"

lemma answer_from_later:
  assumes "answer_from junk u h s w0 es k vs"
  shows "answer_from junk u h s w0 (es @ fs) k vs"
proof -
  have "nth (es @ fs) j = nth es j" "outcomes junk u h s w0 (es @ fs) ! j = outcomes junk u h s w0 es ! j"
    if "j < length es" for j
    using that by (simp_all add: nth_append outcomes_append)
  with assms show ?thesis unfolding answer_from_def by (metis length_append trans_less_add1)
qed

end
