(* ===== verification/System_Win.thy ===== *)
theory System_Win
  imports Client_Sync_Win Serial_Win Call_Answer
begin

text \<open>
  The whole of a Windows connection: one client with any number of threads inside
  \<open>call_synchronous_helper\<close> or making calls without callback, its worker, the two directions of the pipe,
  and the server instance with its worker. The pipe delivers messages whole and in order, each once; what
  the system answers to every operation is otherwise free.
\<close>

section \<open>The system\<close>

text \<open>
  \<open>sy_unsent\<close> are calls that were registered and not written yet, \<open>sy_sent\<close> those written to the pipe, in
  that order, each with the frame made for it; \<open>sy_waiting\<close> are the callers whose \<open>call\<close> has returned true and
  that wait for their callback; \<open>sy_read\<close> is the number of replies the worker of the client has read. The worker
  runs while \<open>sy_worker\<close>; its pending read, \<open>cw_rop_valid\<close>, is one for a body if \<open>sy_body\<close> and for a header
  otherwise. The requests that the instance has executed and the frames it has sent are in \<open>sy_server\<close>.
\<close>

record 'w win_system =
  sy_client :: "call_world client_win"
  sy_stack :: call_world
  sy_time :: u64
  sy_callers :: "(ptr \<times> int) set"
  sy_unsent :: "(function_call \<times> buffer) list"
  sy_sent :: "(function_call \<times> buffer) list"
  sy_waiting :: "(ptr \<times> int) set"
  sy_read :: nat
  sy_worker :: bool
  sy_body :: bool
  sy_server :: "'w iw_config"

definition system_init :: "'w \<Rightarrow> 'w win_system" where
  "system_init w0 = \<lparr>sy_client = client_win_open None, sy_stack = Some (\<lambda>_. None), sy_time = 0, sy_callers = {},
     sy_unsent = [], sy_sent = [], sy_waiting = {}, sy_read = 0, sy_worker = True, sy_body = False, sy_server = iw_init w0\<rparr>"

text \<open>A buffer after a read of \<open>bytes\<close> into it.\<close>

definition filled :: "buffer \<Rightarrow> buffer \<Rightarrow> buffer" where
  "filled buf bytes = take (length buf) bytes @ drop (length bytes) buf"

lemma filled_header: "length buf = 8 \<Longrightarrow> 8 \<le> length frame \<Longrightarrow> filled buf frame = take 8 frame"
  by (simp add: filled_def)

lemma filled_body: "length buf = length bytes \<Longrightarrow> filled buf bytes = bytes"
  by (simp add: filled_def)

text \<open>
  The steps: a thread that has a socket enters the helper, registers its call and makes its frame; a call
  without callback; a frame is written, in any order; \<open>call\<close> fails, or returns true after the wait for the write of
  its frame; a caller whose \<open>call\<close> returned true ends; an id is cancelled; the instance makes a step, and
  what it reads is what was written; the worker of the client goes round its loop and starts the read of a
  header; a header arrives, and the read of its body is started; the body arrives; the worker ends; and \<open>stop\<close>,
  which waits for that. The read of a body does not
  fail once its header has come, and the application keeps its values storable.
\<close>

inductive system_step ::
  "(nat \<Rightarrow> u64) \<Rightarrow> u64 \<Rightarrow> 'w heap \<Rightarrow> 'w server \<Rightarrow> 'w win_system \<Rightarrow> 'w win_system \<Rightarrow> bool"
  for junk u h s
where
  begins: "win_sync_begin cu cname fname args data (sy_time y) (sy_client y, Some st) = Inr (Some (frame, cbid, t, c, w)) \<Longrightarrow>
    sy_stack y = Some st \<Longrightarrow> st data = None \<Longrightarrow> sy_time y + 1 \<noteq> 0 \<Longrightarrow>
    m = build_call (sy_time y + 1) cu cname fname args \<Longrightarrow> proper_call m \<Longrightarrow> replies_fit h s 0 u [m] \<Longrightarrow>
    system_step junk u h s y (y\<lparr>sy_client := c, sy_stack := w, sy_time := t, sy_callers := insert (data, cbid) (sy_callers y),
      sy_unsent := (m, frame) # sy_unsent y\<rparr>)"
| plain: "client_win_begin cu cname fname args None data cbid (sy_time y) (sy_client y) = Inr (frame, cbid', t, c) \<Longrightarrow>
    cw_socket (sy_client y) \<Longrightarrow> sy_time y + 1 \<noteq> 0 \<Longrightarrow>
    m = build_call (sy_time y + 1) cu cname fname args \<Longrightarrow> proper_call m \<Longrightarrow> replies_fit h s 0 u [m] \<Longrightarrow>
    system_step junk u h s y (y\<lparr>sy_client := c, sy_time := t, sy_unsent := (m, frame) # sy_unsent y\<rparr>)"
| writes: "e \<in> set (sy_unsent y) \<Longrightarrow> cw_socket (sy_client y) \<Longrightarrow>
    system_step junk u h s y (y\<lparr>sy_unsent := remove1 e (sy_unsent y), sy_sent := sy_sent y @ [e]\<rparr>)"
| fails: "win_sync_failed ec waits cbid data (sy_client y, sy_stack y) = Some (c, w) \<Longrightarrow> (data, cbid) \<in> sy_callers y \<Longrightarrow>
    (data, cbid) \<notin> sy_waiting y \<Longrightarrow>
    system_step junk u h s y (y\<lparr>sy_client := c, sy_stack := w, sy_callers := sy_callers y - {(data, cbid)}\<rparr>)"
| called: "client_win_finish ec waits cbid (sy_client y) = Some (True, c) \<Longrightarrow> (data, cbid) \<in> sy_callers y \<Longrightarrow>
    (m, frame) \<in> set (sy_sent y) \<Longrightarrow> cbid = callback_key (call_time m) \<Longrightarrow>
    system_step junk u h s y (y\<lparr>sy_client := c, sy_waiting := insert (data, cbid) (sy_waiting y)\<rparr>)"
| ends: "win_sync_end freez waits cbid data (sy_client y, sy_stack y) = Some (vals, events, c, w) \<Longrightarrow>
    (data, cbid) \<in> sy_callers y \<Longrightarrow> (data, cbid) \<in> sy_waiting y \<Longrightarrow>
    system_step junk u h s y (y\<lparr>sy_client := c, sy_stack := w, sy_callers := sy_callers y - {(data, cbid)},
      sy_waiting := sy_waiting y - {(data, cbid)}\<rparr>)"
| cancels: "system_step junk u h s y (y\<lparr>sy_client := snd (client_win_cancel cid (sy_client y))\<rparr>)"
| serves: "iw_step junk u h s (sy_server y) k \<Longrightarrow> cf_bodies k = take n (map (\<lambda>(m, frame). drop 8 frame) (sy_sent y)) \<Longrightarrow>
    system_step junk u h s y (y\<lparr>sy_server := k\<rparr>)"
| worker: "sy_worker y \<Longrightarrow> client_win_worker connected read_ec wait_now wait_20 (sy_client y) = loop.Goes_On c \<Longrightarrow>
    system_step junk u h s y (y\<lparr>sy_client := c, sy_body := sy_body y \<and> cw_rop_valid (sy_client y)\<rparr>)"
| header: "sy_worker y \<Longrightarrow> cw_rop_valid (sy_client y) \<Longrightarrow> \<not> sy_body y \<Longrightarrow> sy_read y < length (cf_sent (sy_server y)) \<Longrightarrow>
    client_win_read_init cj cu ec ec2 False ((sy_client y)\<lparr>cw_buf := filled (cw_buf (sy_client y))
      (cf_sent (sy_server y) ! sy_read y)\<rparr>, sy_stack y) = Inr (c, w) \<Longrightarrow>
    system_step junk u h s y (y\<lparr>sy_client := c, sy_stack := w, sy_body := cw_rop_valid c\<rparr>)"
| reply: "sy_worker y \<Longrightarrow> cw_rop_valid (sy_client y) \<Longrightarrow> sy_body y \<Longrightarrow> sy_read y < length (cf_sent (sy_server y)) \<Longrightarrow>
    client_win_read_msg cj cu ((sy_client y)\<lparr>cw_buf := filled (cw_buf (sy_client y))
      (drop 8 (cf_sent (sy_server y) ! sy_read y))\<rparr>, sy_stack y) = Inr (c, w) \<Longrightarrow>
    system_step junk u h s y (y\<lparr>sy_client := c, sy_stack := w, sy_read := Suc (sy_read y), sy_body := False\<rparr>)"
| lost: "sy_worker y \<Longrightarrow> client_win_flush cu connected (sy_client y, sy_stack y) = (c, w) \<Longrightarrow>
    system_step junk u h s y (y\<lparr>sy_client := c, sy_stack := w, sy_worker := False\<rparr>)"
| stops: "\<not> sy_worker y \<Longrightarrow> system_step junk u h s y (y\<lparr>sy_client := client_win_stop (sy_client y)\<rparr>)"

section \<open>The two sides\<close>

text \<open>Seen from the client's table and its callers, the system makes steps of \<open>sync_step\<close>, or none.\<close>

definition client_side :: "'w win_system \<Rightarrow> sync_state" where
  "client_side y = (sy_client y, sy_stack y, sy_time y, sy_callers y)"

lemma client_win_finish_True: "client_win_finish ec waits cbid c = Some (True, c') \<Longrightarrow> c' = c"
  by (auto simp: client_win_finish_def split: if_splits option.splits)

text \<open>An iteration of the worker that goes on: a read is pending, and a new one is for a header.\<close>

lemma client_win_worker_goes_on:
  assumes "client_win_worker connected read_ec wait_now wait_20 c = loop.Goes_On c'"
  shows "c' = c\<lparr>cw_buf := (if cw_rop_valid c then cw_buf c else resize_bytes 8 (cw_buf c)), cw_rop_valid := True\<rparr>"
  using assms by (auto simp: client_win_worker_def Let_def split: if_splits)

lemma read_init_keeps:
  assumes "client_win_read_init cj cu ec ec2 False (c, w) = Inr (c', w')"
  shows "cw_cb c' = cw_cb c" and "cw_disconnect_cb c' = cw_disconnect_cb c" and "w' = w"
  using assms by (auto simp: client_win_read_init_def Let_def rbind_eq_Inr_iff split: if_splits)

lemma sync_inv_same:
  "sync_inv (c, w, t, callers) \<Longrightarrow> cw_cb c' = cw_cb c \<Longrightarrow> cw_disconnect_cb c' = cw_disconnect_cb c \<Longrightarrow>
   sync_inv (c', w, t, callers)"
  by (simp add: sync_inv_def)

lemma client_side_step:
  "system_step junk u h s y y' \<Longrightarrow> sync_inv (client_side y) \<Longrightarrow> sync_inv (client_side y')"
proof (induction rule: system_step.induct)
  case (begins cu cname fname args data y st frame cbid t c w m)
  from sync_step.begins [OF begins(1,3,4), of "sy_callers y"] begins(2,8) show ?case
    using sync_step_inv by (fastforce simp: client_side_def)
next
  case (plain cu cname fname args data cbid y frame cbid' t c m)
  from sync_step.plain [OF plain(1-3), of "sy_stack y" "sy_callers y"] plain(7) show ?case
    using sync_step_inv by (fastforce simp: client_side_def)
next
  case (fails ec waits cbid data y c w)
  from sync_step.fails [OF fails(1,2), of "sy_time y"] fails(4) show ?case
    using sync_step_inv by (fastforce simp: client_side_def)
next
  case (called ec waits cbid y c data m frame)
  then show ?case using client_win_finish_True [OF called(1)] by (simp add: client_side_def)
next
  case (ends freez waits cbid data y vals events c w)
  from sync_step.ends [OF ends(1,2), of "sy_time y"] ends(4) show ?case
    using sync_step_inv by (fastforce simp: client_side_def)
next
  case (cancels y cid)
  from sync_step.cancels [of "sy_client y" "sy_stack y" "sy_time y" "sy_callers y" cid] cancels show ?case
    using sync_step_inv by (fastforce simp: client_side_def)
next
  case (worker y connected read_ec wait_now wait_20 c)
  then show ?case using client_win_worker_goes_on [OF worker(2)] sync_inv_same by (fastforce simp: client_side_def)
next
  case (header y cj cu ec ec2 c w)
  then show ?case using read_init_keeps [OF header(5)] sync_inv_same by (fastforce simp: client_side_def)
next
  case (reply y cj cu c w)
  from sync_step.reply [OF reply(5), of "sy_time y" "sy_callers y"] reply(6) show ?case
    using sync_step_inv by (fastforce simp: client_side_def)
next
  case (lost y cu connected c w)
  from sync_step.lost [OF lost(2), of "sy_time y" "sy_callers y"] lost(3) show ?case
    using sync_step_inv by (fastforce simp: client_side_def)
next
  case (stops y)
  from sync_step.stops [of "sy_client y" "sy_stack y" "sy_time y" "sy_callers y"] stops(2) show ?case
    using sync_step_inv by (fastforce simp: client_side_def)
qed (simp_all add: client_side_def)

text \<open>Seen from the server, the instance makes its own steps, or none.\<close>

lemma server_side_step:
  "system_step junk u h s y y' \<Longrightarrow> (iw_step junk u h s)\<^sup>*\<^sup>* (sy_server y) (sy_server y')"
  by (induction rule: system_step.induct) auto

lemma server_side_steps:
  "(system_step junk u h s)\<^sup>*\<^sup>* y y' \<Longrightarrow> (iw_step junk u h s)\<^sup>*\<^sup>* (sy_server y) (sy_server y')"
  by (induction rule: rtranclp_induct) (auto dest: server_side_step)

section \<open>The calls and their frames\<close>

text \<open>The calls the system has are in order, and the instance has executed the first ones of those written.\<close>

definition calls_ok :: "'w heap \<Rightarrow> 'w server \<Rightarrow> u64 \<Rightarrow> 'w win_system \<Rightarrow> bool" where
  "calls_ok h s u y \<longleftrightarrow> entries_ok h s u (sy_time y) (sy_unsent y @ sy_sent y) \<and>
     (\<exists>n \<le> length (sy_sent y). cf_bodies (sy_server y) = take n (map call_wire (map fst (sy_sent y))))"

lemma win_sync_begin_frame:
  assumes "win_sync_begin cu cname fname args data now (c, w) = Inr (Some (frame, cbid, t, c', w'))"
    and "m = build_call (now + 1) cu cname fname args" and "proper_call m"
  shows "frame = frame_image (call_wire m)" and "t = now + 1" and "cbid = callback_key (call_time m)"
    and "w' = stack_alloc data w" and "cw_buf c' = cw_buf c" and "cw_rop_valid c' = cw_rop_valid c"
    and "cw_socket c' = cw_socket c" and "cw_stop c' = cw_stop c"
proof -
  have "cw_socket c" using assms(1) by (simp add: win_sync_begin_def split: if_splits)
  from win_sync_begin_ok [OF proper_frame [OF assms(3) [unfolded assms(2)]] this, of data w] assms(1)
  show "frame = frame_image (call_wire m)" "t = now + 1" "cbid = callback_key (call_time m)" "w' = stack_alloc data w"
    "cw_buf c' = cw_buf c" "cw_rop_valid c' = cw_rop_valid c" "cw_socket c' = cw_socket c" "cw_stop c' = cw_stop c"
    using call_time_build [of "now + 1" cu cname fname args] assms(2) by auto
qed

lemma client_win_begin_plain:
  assumes "client_win_begin cu cname fname args None data cbid now c = Inr (frame, cbid', t, c')"
    and "m = build_call (now + 1) cu cname fname args" and "proper_call m"
  shows "frame = frame_image (call_wire m)" and "t = now + 1"
  using assms(1,2) client_win_begin_frame [OF proper_frame [OF assms(3) [unfolded assms(2)]], of None data cbid c]
  by auto

lemma calls_ok_same:
  "calls_ok h s u y \<Longrightarrow> sy_time y' = sy_time y \<Longrightarrow> sy_unsent y' = sy_unsent y \<Longrightarrow> sy_sent y' = sy_sent y \<Longrightarrow>
   cf_bodies (sy_server y') = cf_bodies (sy_server y) \<Longrightarrow> calls_ok h s u y'"
  by (simp add: calls_ok_def)

lemma calls_ok_step: "system_step junk u h s y y' \<Longrightarrow> calls_ok h s u y \<Longrightarrow> calls_ok h s u y'"
proof (induction rule: system_step.induct)
  case (begins cu cname fname args data y st frame cbid t c w m)
  note b = win_sync_begin_frame(1,2) [OF begins(1,5,6)]
  have "entries_ok h s u (sy_time y) (sy_unsent y @ sy_sent y)" using begins(8) by (simp add: calls_ok_def)
  from entries_ok_new [OF this begins(4-7)] show ?case using begins(8) b by (simp add: calls_ok_def)
next
  case (plain cu cname fname args data cbid y frame cbid' t c m)
  note b = client_win_begin_plain [OF plain(1,4,5)]
  have "entries_ok h s u (sy_time y) (sy_unsent y @ sy_sent y)" using plain(7) by (simp add: calls_ok_def)
  from entries_ok_new [OF this plain(3-6)] show ?case using plain(7) b by (simp add: calls_ok_def)
next
  case (writes e y)
  have "mset (remove1 e (sy_unsent y) @ sy_sent y @ [e]) = mset (sy_unsent y @ sy_sent y)"
    using writes(1) by simp
  then have "entries_ok h s u (sy_time y) (remove1 e (sy_unsent y) @ sy_sent y @ [e])"
    using entries_ok_mset writes(3) unfolding calls_ok_def by blast
  moreover obtain n where "n \<le> length (sy_sent y)" "cf_bodies (sy_server y) = take n (map call_wire (map fst (sy_sent y)))"
    using writes(3) by (auto simp: calls_ok_def)
  ultimately show ?case unfolding calls_ok_def by (intro conjI exI [of _ n]) simp_all
next
  case (serves y k n)
  have "entries_ok h s u (sy_time y) (sy_unsent y @ sy_sent y)" using serves(3) by (simp add: calls_ok_def)
  then have "cf_bodies k = take n (map call_wire (map fst (sy_sent y)))"
    using serves(2) frames_of_entries [OF entries_ok_append] by metis
  then have "cf_bodies k = take (min n (length (sy_sent y))) (map call_wire (map fst (sy_sent y)))"
    by (simp add: min_def)
  then show ?case using serves(3) unfolding calls_ok_def by (intro conjI exI [of _ "min n (length (sy_sent y))"]) simp_all
qed (auto intro: calls_ok_same)

section \<open>The answers\<close>

text \<open>Every reply the instance has sent is the one for the call at the same place.\<close>

lemma reply_of_call:
  assumes "classes_ok h s" and "heap_ok h" and "calls_ok h s u y"
    and "(iw_step junk u h s)\<^sup>*\<^sup>* (iw_init w0) (sy_server y)" and "j < length (cf_sent (sy_server y))"
  obtains r where "cf_sent (sy_server y) ! j = frame_image (reply_wire r)" and "j < length (sy_sent y)"
    and "answers_with (fst (sy_sent y ! j)) (outcomes junk u h s w0 (sy_sent y) ! j) r"
proof -
  let ?k = "sy_server y"
  obtain n where n: "n \<le> length (sy_sent y)" "cf_bodies ?k = map call_wire (map fst (take n (sy_sent y)))"
    using assms(3) by (auto simp: calls_ok_def take_map)
  have "entries_ok h s u (sy_time y) (take n (sy_sent y))"
    using assms(3) by (auto simp: calls_ok_def entries_ok_def list_all_iff simp flip: take_map dest: in_set_takeD)
  note ok = entries_calls [OF this]
  obtain replies where r: "replies_asked (map fst (take n (sy_sent y))) (outcomes junk u h s w0 (take n (sy_sent y))) replies"
    "cf_sent ?k = take (length (cf_sent ?k)) (map (\<lambda>r. frame_image (reply_wire r)) replies)"
    unfolding outcomes_def by (rule win_instance_answers [OF assms(1,2) ok assms(4) n(2)])
  have "length (cf_sent ?k) \<le> length replies" using arg_cong [OF r(2), of length] by simp
  then have j: "j < length replies" "j < n" using assms(5) r(1) n(1) by (auto simp: replies_asked_nth)
  have "cf_sent ?k ! j = map (\<lambda>r. frame_image (reply_wire r)) replies ! j"
    using arg_cong [OF r(2), of "\<lambda>xs. xs ! j"] assms(5) by simp
  moreover have "answers_with (fst (sy_sent y ! j)) (outcomes junk u h s w0 (take n (sy_sent y)) ! j) (replies ! j)"
    using r(1) j n(1) by (simp add: replies_asked_nth)
  moreover have "outcomes junk u h s w0 (take n (sy_sent y)) ! j = outcomes junk u h s w0 (sy_sent y) ! j"
    using outcomes_append [of j "take n (sy_sent y)" junk u h s w0 "drop n (sy_sent y)"] j(2) n(1) by simp
  ultimately show thesis using that j n(1) by simp
qed

section \<open>The data of the callers\<close>

text \<open>
  The values a callback has put into the data of a caller with the id \<open>k\<close>: those of the outcome of the
  call with this id, or the one of a lost connection.
\<close>

definition value_from ::
  "(nat \<Rightarrow> u64) \<Rightarrow> u64 \<Rightarrow> 'w heap \<Rightarrow> 'w server \<Rightarrow> 'w \<Rightarrow> (function_call \<times> buffer) list \<Rightarrow> int \<Rightarrow> ipc_value list \<Rightarrow> bool"
where
  "value_from junk u h s w0 es k vs \<longleftrightarrow> (\<exists>cu. vs = lost_values cu) \<or> answer_from junk u h s w0 es k vs"

definition filled_ok ::
  "(nat \<Rightarrow> u64) \<Rightarrow> u64 \<Rightarrow> 'w heap \<Rightarrow> 'w server \<Rightarrow> 'w \<Rightarrow> (function_call \<times> buffer) list \<Rightarrow> int \<Rightarrow> call_data \<Rightarrow> bool"
where
  "filled_ok junk u h s w0 es k cd =
     (if cd_called cd then value_from junk u h s w0 es k (cd_values cd) else cd_values cd = [])"

definition data_ok ::
  "(nat \<Rightarrow> u64) \<Rightarrow> u64 \<Rightarrow> 'w heap \<Rightarrow> 'w server \<Rightarrow> 'w \<Rightarrow> 'w win_system \<Rightarrow> bool"
where
  "data_ok junk u h s w0 y \<longleftrightarrow>
     (\<forall>st d k cd. sy_stack y = Some st \<longrightarrow> (d, k) \<in> sy_callers y \<longrightarrow> st d = Some cd \<longrightarrow>
        filled_ok junk u h s w0 (sy_sent y) k cd)"

lemma value_from_later: "value_from junk u h s w0 es k vs \<Longrightarrow> value_from junk u h s w0 (es @ fs) k vs"
  by (auto simp: value_from_def answer_from_later)

text \<open>The callbacks of the table run on the data of callers, each on its own.\<close>

lemma fold_sync_values:
  assumes "\<forall>(k, f, d) \<in> set cb. f = sync_callback \<and> h d \<noteq> None" and "distinct (map (\<lambda>(k, f, d). d) cb)"
  shows "\<exists>h'. fold (\<lambda>(_, f, data) w. f data vals w) cb (Some h) = Some h' \<and>
    (\<forall>d. h' d = (if d \<in> (\<lambda>(k, f, d). d) ` set cb
       then map_option (\<lambda>cd. cd\<lparr>cd_values := cd_values cd @ vals, cd_called := True, cd_sgn := cd_sgn cd + 1\<rparr>) (h d) else h d))"
  using assms
proof (induction cb arbitrary: h)
  case (Cons e cb)
  obtain k f d where e: "e = (k, f, d)" by (cases e)
  then obtain cd where cd: "f = sync_callback" "h d = Some cd" using Cons.prems by auto
  let ?h = "h(d \<mapsto> cd\<lparr>cd_values := cd_values cd @ vals, cd_called := True, cd_sgn := cd_sgn cd + 1\<rparr>)"
  have "\<forall>(k, f, d) \<in> set cb. f = sync_callback \<and> ?h d \<noteq> None" using Cons.prems by auto
  moreover have "distinct (map (\<lambda>(k, f, d). d) cb)" and fresh: "d \<notin> (\<lambda>(k, f, d). d) ` set cb"
    using Cons.prems(2) e by auto
  ultimately obtain h' where "fold (\<lambda>(_, f, data) w. f data vals w) cb (Some ?h) = Some h'"
    "\<forall>d. h' d = (if d \<in> (\<lambda>(k, f, d). d) ` set cb
       then map_option (\<lambda>cd. cd\<lparr>cd_values := cd_values cd @ vals, cd_called := True, cd_sgn := cd_sgn cd + 1\<rparr>) (?h d) else ?h d)"
    using Cons.IH [of ?h] by blast
  then show ?case using cd e fresh by (auto simp: sync_callback_live)
qed simp

lemma win_sync_failed_stack:
  "win_sync_failed ec waits cbid data (c, w) = Some (c', w') \<Longrightarrow> w' = stack_free data w"
  by (auto simp: win_sync_failed_def split: option.splits prod.splits bool.splits)

lemma win_sync_end_stack:
  "win_sync_end freez waits cbid data (c, w) = Some (vals, events, c', w') \<Longrightarrow> w' = stack_free data w"
  by (auto simp: win_sync_end_def split: option.splits if_splits)

lemma data_ok_free:
  assumes "data_ok junk u h s w0 y" and "sy_stack y' = stack_free data (sy_stack y)"
    and "sy_callers y' \<subseteq> sy_callers y" and "sy_sent y' = sy_sent y"
  shows "data_ok junk u h s w0 y'"
  using assms unfolding data_ok_def stack_free_def by (auto split: if_splits)

lemma filled_ok_later: "filled_ok junk u h s w0 es k cd \<Longrightarrow> filled_ok junk u h s w0 (es @ fs) k cd"
  by (auto simp: filled_ok_def value_from_later split: if_splits)

lemma data_ok_same:
  assumes "data_ok junk u h s w0 y" and "sy_stack y' = sy_stack y"
    and "sy_callers y' = sy_callers y" and "sy_sent y' = sy_sent y"
  shows "data_ok junk u h s w0 y'"
  using assms unfolding data_ok_def by simp

lemma client_sideE:
  assumes "sync_inv (client_side y)"
  obtains st where "sy_stack y = Some st" and "callers_ok (sy_callers y) (sy_time y) st"
    and "table_ok (cw_cb (sy_client y)) (sy_callers y) st" and "cw_disconnect_cb (sy_client y) = None"
  using assms by (auto simp: sync_inv_def client_side_def)

lemma table_data_distinct:
  assumes "callers_ok callers now st" and "table_ok cb callers st"
  shows "distinct (map (\<lambda>(k, f, d). d) cb)"
proof -
  have ok: "map_ok cb" using assms(2) by (simp add: table_ok_def)
  have entry: "map_find cb k = Some (f, d) \<and> (d, k) \<in> callers" if "(k, f, d) \<in> set cb" for k f d
    using that assms(2) map_entries [OF ok] table_okD by blast
  have "e = e'" if in_cb: "e \<in> set cb" "e' \<in> set cb" and d: "(\<lambda>(k, f, d). d) e = (\<lambda>(k, f, d). d) e'" for e e'
  proof -
    obtain k f d k' f' where e: "e = (k, f, d)" "e' = (k', f', d)" using d by (cases e; cases e') auto
    have "k = k'" using entry in_cb assms(1) unfolding e callers_ok_def by blast
    then show ?thesis using entry [of k f d] entry [of k' f' d] in_cb unfolding e by simp
  qed
  then have "inj_on (\<lambda>(k, f, d). d) (set cb)" by (rule inj_onI)
  moreover have "distinct cb" using om.distinct_keys [OF ok] by (simp add: distinct_map)
  ultimately show ?thesis by (simp add: distinct_map)
qed

lemma data_ok_lost:
  assumes "client_win_flush cu connected (sy_client y, sy_stack y) = (c, w)"
    and "sync_inv (client_side y)" and "data_ok junk u h s w0 y"
  shows "data_ok junk u h s w0 (y\<lparr>sy_client := c, sy_stack := w\<rparr>)"
proof -
  obtain st where st: "sy_stack y = Some st" "callers_ok (sy_callers y) (sy_time y) st"
    "table_ok (cw_cb (sy_client y)) (sy_callers y) st" "cw_disconnect_cb (sy_client y) = None"
    using assms(2) by (rule client_sideE)
  let ?cb = "cw_cb (sy_client y)"
  have ok: "map_ok ?cb" using st(3) by (simp add: table_ok_def)
  have entry: "f = sync_callback \<and> (d, k) \<in> sy_callers y \<and> (\<exists>cd. st d = Some cd \<and> \<not> cd_called cd)"
    if "(k, f, d) \<in> set ?cb" for k f d
    using that map_entries [OF ok] table_okD [OF st(3)] by blast
  then have "\<forall>(k, f, d) \<in> set ?cb. f = sync_callback \<and> st d \<noteq> None" by blast
  from fold_sync_values [OF this table_data_distinct [OF st(2,3)], of "lost_values cu"] obtain st' where
    "fold (\<lambda>(_, f, data) w. f data (lost_values cu) w) ?cb (Some st) = Some st'"
    and st': "\<forall>d. st' d = (if d \<in> (\<lambda>(k, f, d). d) ` set ?cb
       then map_option (\<lambda>cd. cd\<lparr>cd_values := cd_values cd @ lost_values cu, cd_called := True, cd_sgn := cd_sgn cd + 1\<rparr>) (st d)
       else st d)"
    by blast
  then have w: "w = Some st'" using assms(1) st(1,4) by (auto simp: client_win_flush_def Let_def)
  have "filled_ok junk u h s w0 (sy_sent y) k cd"
    if k: "(d, k) \<in> sy_callers y" and cd: "st' d = Some cd" for d k cd
  proof (cases "d \<in> (\<lambda>(k, f, d). d) ` set ?cb")
    case True
    then obtain cd0 where cd0: "st d = Some cd0" "\<not> cd_called cd0" using entry by force
    then have "cd_values cd0 = []" using assms(3) st(1) k by (auto simp: data_ok_def filled_ok_def split: if_splits)
    then show ?thesis using st' cd cd0 True by (auto simp: value_from_def filled_ok_def)
  next
    case False
    then show ?thesis using st' cd assms(3) st(1) k unfolding data_ok_def by simp
  qed
  then show ?thesis using w by (simp add: data_ok_def)
qed

lemma data_ok_begin:
  assumes "data_ok junk u h s w0 y" and "sy_stack y = Some st" and "sy_stack y' = stack_alloc data (Some st)"
    and "sy_callers y' = insert (data, cbid) (sy_callers y)" and "sy_sent y' = sy_sent y"
  shows "data_ok junk u h s w0 y'"
proof -
  have "filled_ok junk u h s w0 es k call_data_init" for es k by (simp add: filled_ok_def call_data_init_def)
  with assms show ?thesis unfolding data_ok_def stack_alloc_def by (auto split: if_splits)
qed

text \<open>A reply reaches the caller whose call it answers, and no other.\<close>

lemma data_ok_reply:
  assumes "classes_ok h s" and "heap_ok h" and "calls_ok h s u y"
    and "(iw_step junk u h s)\<^sup>*\<^sup>* (iw_init w0) (sy_server y)" and "sync_inv (client_side y)"
    and "data_ok junk u h s w0 y" and j: "sy_read y < length (cf_sent (sy_server y))"
    and recv: "client_win_read_msg cj cu ((sy_client y)\<lparr>cw_buf := filled (cw_buf (sy_client y))
      (drop 8 (cf_sent (sy_server y) ! sy_read y))\<rparr>, sy_stack y) = Inr (c, w)"
    and len: "length (cw_buf (sy_client y)) + 8 = length (cf_sent (sy_server y) ! sy_read y)"
    and y': "sy_stack y' = w" "sy_callers y' = sy_callers y" "sy_sent y' = sy_sent y"
  shows "data_ok junk u h s w0 y'"
proof -
  let ?m = "fst (sy_sent y ! sy_read y)"
  obtain r where r: "cf_sent (sy_server y) ! sy_read y = frame_image (reply_wire r)" "sy_read y < length (sy_sent y)"
    "answers_with ?m (outcomes junk u h s w0 (sy_sent y) ! sy_read y) r"
    by (rule reply_of_call [OF assms(1-4) j])
  have "entry_ok h s u (sy_time y) (sy_sent y ! sy_read y)"
    using assms(3) r(2) by (simp add: calls_ok_def entries_ok_def list_all_iff)
  then have uid: "value_content (call_uid ?m) = Content64 TUInt64 (call_time ?m)"
    by (auto simp: entry_ok_def split: prod.splits)
  obtain err where err: "reply_for r (call_time ?m) err"
    "\<forall>vs. carries r err vs \<longrightarrow> own_answer ?m (outcomes junk u h s w0 (sy_sent y) ! sy_read y) vs"
    by (rule reply_understood [OF r(3) uid])
  obtain st where st: "sy_stack y = Some st" "callers_ok (sy_callers y) (sy_time y) st"
    "table_ok (cw_cb (sy_client y)) (sy_callers y) st" "cw_disconnect_cb (sy_client y) = None"
    using assms(5) by (rule client_sideE)
  let ?k = "callback_key (call_time ?m)"
  let ?c = "(sy_client y)\<lparr>cw_buf := drop 8 (cf_sent (sy_server y) ! sy_read y)\<rparr>"
  have "filled (cw_buf (sy_client y)) (drop 8 (cf_sent (sy_server y) ! sy_read y)) = drop 8 (cf_sent (sy_server y) ! sy_read y)"
    using len by (intro filled_body) simp
  note recv = recv [unfolded this]
  have "cw_buf ?c = reply_wire r" using r(1) by simp
  from client_win_read_msg_reply [OF err(1) this, of cj cu "sy_stack y"] obtain vs where
    vs: "carries r err vs" and "client_win_read_msg cj cu (?c, sy_stack y) = Inr
    (case map_find (cw_cb ?c) ?k of None \<Rightarrow> (?c\<lparr>cw_rop_valid := False\<rparr>, sy_stack y)
     | Some (f, data) \<Rightarrow> (?c\<lparr>cw_rop_valid := False, cw_cb := map_erase ?k (cw_cb ?c)\<rparr>, f data vs (sy_stack y)))"
    by blast
  then have w: "w = (case map_find (cw_cb (sy_client y)) ?k of None \<Rightarrow> sy_stack y | Some (f, data) \<Rightarrow> f data vs (sy_stack y))"
    using recv by (auto split: option.splits)
  show ?thesis
  proof (cases "map_find (cw_cb (sy_client y)) ?k")
    case None
    then show ?thesis using w assms(6) y' by (auto intro: data_ok_same)
  next
    case (Some fd)
    then obtain f d where fd: "map_find (cw_cb (sy_client y)) ?k = Some (f, d)" by (cases fd) auto
    from table_okD [OF st(3) fd] obtain cd where cd: "f = sync_callback" "(d, ?k) \<in> sy_callers y" "st d = Some cd" "\<not> cd_called cd"
      by blast
    have empty: "cd_values cd = []" using assms(6) st(1) cd by (auto simp: data_ok_def filled_ok_def split: if_splits)
    let ?cd = "cd\<lparr>cd_values := vs, cd_called := True, cd_sgn := cd_sgn cd + 1\<rparr>"
    have w': "w = Some (st(d \<mapsto> ?cd))" using w fd cd st(1) empty by (simp add: sync_callback_live)
    have new: "filled_ok junk u h s w0 (sy_sent y) ?k ?cd"
      using r(2) err(2) vs by (auto simp: filled_ok_def value_from_def answer_from_def)
    have "filled_ok junk u h s w0 (sy_sent y) k' cd'" if "(d', k') \<in> sy_callers y" "(st(d \<mapsto> ?cd)) d' = Some cd'" for d' k' cd'
    proof (cases "d' = d")
      case True
      then have "k' = ?k" using that(1) cd(2) st(2) unfolding callers_ok_def by blast
      then show ?thesis using that(2) True new by simp
    next
      case False
      then show ?thesis using that assms(6) st(1) by (simp add: data_ok_def)
    qed
    then show ?thesis using w' y' by (simp add: data_ok_def)
  qed
qed

section \<open>The buffer of the worker\<close>

text \<open>
  A pending read is one of 8 bytes for a header, or one for the body of the next reply, for which the buffer
  has been resized to its length.
\<close>

definition reading_ok :: "'w win_system \<Rightarrow> bool" where
  "reading_ok y \<longleftrightarrow> (cw_rop_valid (sy_client y) \<longrightarrow>
     (if sy_body y then sy_read y < length (cf_sent (sy_server y)) \<and>
        length (cw_buf (sy_client y)) + 8 = length (cf_sent (sy_server y) ! sy_read y)
      else length (cw_buf (sy_client y)) = 8))"

lemma reading_ok_same:
  assumes "reading_ok y" and "cw_rop_valid (sy_client y') = cw_rop_valid (sy_client y)"
    and "cw_buf (sy_client y') = cw_buf (sy_client y)" and "sy_body y' = sy_body y" and "sy_read y' = sy_read y"
    and "cf_sent (sy_server y') = cf_sent (sy_server y) @ fs"
  shows "reading_ok y'"
  using assms by (auto simp: reading_ok_def nth_append)

lemma iw_sent_grows: "iw_step junk u h s c c' \<Longrightarrow> \<exists>fs. cf_sent c' = cf_sent c @ fs"
  by (induction rule: iw_step.induct) auto

text \<open>The header of a frame that is longer than it makes the worker read as many bytes as follow.\<close>

lemma read_init_body:
  assumes "client_win_read_init cj cu ec ec2 False (c\<lparr>cw_buf := take 8 (frame_image body)\<rparr>, w) = Inr (c', w')"
    and "length body < 2 ^ 32" and "body \<noteq> []"
  shows "cw_rop_valid c' \<Longrightarrow> length (cw_buf c') = length body"
  using assms read_size_header [of body "[]"]
  by (auto simp: client_win_read_init_def Let_def rbind_eq_Inr_iff split: if_splits)

lemma reading_ok_step:
  assumes "system_step junk u h s y y'" and "reading_ok y" and "classes_ok h s" and "heap_ok h" and "calls_ok h s u y"
    and "(iw_step junk u h s)\<^sup>*\<^sup>* (iw_init w0) (sy_server y)"
  shows "reading_ok y'"
  using assms
proof (induction rule: system_step.induct)
  case (begins cu cname fname args data y st frame cbid t c w m)
  show ?case by (rule reading_ok_same [OF begins(8), where fs = "[]"]) (simp_all add: win_sync_begin_frame(5,6) [OF begins(1,5,6)])
next
  case (plain cu cname fname args data cbid y frame cbid' t c m)
  show ?case by (rule reading_ok_same [OF plain(7), where fs = "[]"]) (simp_all add: client_win_begin_cases(3) [OF plain(1)])
next
  case (writes e y)
  show ?case by (rule reading_ok_same [OF writes(3), where fs = "[]"]) simp_all
next
  case (fails ec waits cbid data y c w)
  then have "c = snd (client_win_cancel cbid (sy_client y))"
    by (auto simp: win_sync_failed_def client_win_finish_def split: if_splits option.splits)
  then show ?case by (intro reading_ok_same [OF fails(4), where fs = "[]"]) (simp_all add: client_win_cancel_def)
next
  case (called ec waits cbid y c data m frame)
  show ?case by (rule reading_ok_same [OF called(5), where fs = "[]"]) (simp_all add: client_win_finish_True [OF called(1)])
next
  case (ends freez waits cbid data y vals events c w)
  then have "c = sy_client y \<or> c = snd (client_win_cancel cbid (sy_client y))"
    by (auto simp: win_sync_end_def split: option.splits if_splits)
  then show ?case by (intro reading_ok_same [OF ends(4), where fs = "[]"]) (auto simp: client_win_cancel_def)
next
  case (cancels y cid)
  show ?case by (rule reading_ok_same [OF cancels(1), where fs = "[]"]) (simp_all add: client_win_cancel_def)
next
  case (serves y k n)
  obtain fs where "cf_sent k = cf_sent (sy_server y) @ fs" using iw_sent_grows [OF serves(1)] by blast
  then show ?case by (intro reading_ok_same [OF serves(3), where fs = fs]) simp_all
next
  case (worker y connected read_ec wait_now wait_20 c)
  then show ?case using client_win_worker_goes_on [OF worker(2)] by (simp add: reading_ok_def)
next
  case (header y cj cu ec ec2 c w)
  obtain r where r: "cf_sent (sy_server y) ! sy_read y = frame_image (reply_wire r)"
    "answers_with (fst (sy_sent y ! sy_read y)) (outcomes junk u h s w0 (sy_sent y) ! sy_read y) r"
    by (rule reply_of_call [OF header(7-10,4)])
  have l: "1 \<le> length (reply_wire r)" "length (reply_wire r) < 2 ^ 32"
    using r(2) by (simp_all add: answers_with_def length_reply_wire function_reply_size_def)
  have len: "length (cw_buf (sy_client y)) = 8" using header(2,3,6) by (simp add: reading_ok_def)
  have "filled (cw_buf (sy_client y)) (frame_image (reply_wire r)) = take 8 (frame_image (reply_wire r))"
    by (rule filled_header [OF len]) (simp add: frame_image_def)
  note init = header(5) [unfolded r(1) this]
  have "reply_wire r \<noteq> []" using l(1) by auto
  from read_init_body [OF init l(2) this] header(4) r(1) show ?case
    by (simp add: reading_ok_def frame_image_def)
next
  case (reply y cj cu c w)
  from reply(5) have "\<not> cw_rop_valid c" by (cases rule: client_read_msg_cases) simp_all
  then show ?case by (simp add: reading_ok_def)
next
  case (lost y cu connected c w)
  show ?case by (rule reading_ok_same [OF lost(3), where fs = "[]"]) (use lost(2) in \<open>auto simp: client_win_flush_def Let_def\<close>)
next
  case (stops y)
  show ?case by (rule reading_ok_same [OF stops(2), where fs = "[]"]) (simp_all add: client_win_stop_def)
qed

section \<open>The invariant of the system\<close>

definition system_inv :: "(nat \<Rightarrow> u64) \<Rightarrow> u64 \<Rightarrow> 'w heap \<Rightarrow> 'w server \<Rightarrow> 'w \<Rightarrow> 'w win_system \<Rightarrow> bool" where
  "system_inv junk u h s w0 y \<longleftrightarrow> (iw_step junk u h s)\<^sup>*\<^sup>* (iw_init w0) (sy_server y) \<and> sync_inv (client_side y) \<and>
     calls_ok h s u y \<and> (classes_ok h s \<and> heap_ok h \<longrightarrow> data_ok junk u h s w0 y \<and> reading_ok y)"

lemma data_ok_step:
  assumes "system_step junk u h s y y'" and "system_inv junk u h s w0 y" and "classes_ok h s" and "heap_ok h"
  shows "data_ok junk u h s w0 y'"
proof -
  have inv: "calls_ok h s u y" "(iw_step junk u h s)\<^sup>*\<^sup>* (iw_init w0) (sy_server y)" "sync_inv (client_side y)"
    "data_ok junk u h s w0 y" "reading_ok y"
    using assms(2-4) by (auto simp: system_inv_def)
  from assms(1) inv show ?thesis
  proof (induction rule: system_step.induct)
    case (begins cu cname fname args data y st frame cbid t c w m)
    then show ?case using win_sync_begin_frame(4) [OF begins(1,5,6)] by (auto intro: data_ok_begin)
  next
    case (plain cu cname fname args data cbid y frame cbid' t c m)
    then show ?case by (auto intro: data_ok_same)
  next
    case (writes e y)
    then show ?case by (auto simp: data_ok_def filled_ok_later)
  next
    case (fails ec waits cbid data y c w)
    then show ?case using win_sync_failed_stack [OF fails(1)] by (auto intro: data_ok_free)
  next
    case (ends freez waits cbid data y vals events c w)
    then show ?case using win_sync_end_stack [OF ends(1)] by (auto intro: data_ok_free)
  next
    case (header y cj cu ec ec2 c w)
    then show ?case using read_init_keeps(3) [OF header(5)] by (auto intro: data_ok_same)
  next
    case (reply y cj cu c w)
    have "length (cw_buf (sy_client y)) + 8 = length (cf_sent (sy_server y) ! sy_read y)"
      using reply(2,3,10) by (simp add: reading_ok_def)
    then show ?case by (intro data_ok_reply [OF assms(3,4) reply(6-9) reply(4,5)]) simp_all
  next
    case (lost y cu connected c w)
    have "data_ok junk u h s w0 (y\<lparr>sy_client := c, sy_stack := w\<rparr>)" by (rule data_ok_lost [OF lost(2,5,6)])
    then show ?case by (auto intro: data_ok_same)
  qed (auto intro: data_ok_same)
qed

lemma system_step_inv:
  "system_step junk u h s y y' \<Longrightarrow> system_inv junk u h s w0 y \<Longrightarrow> system_inv junk u h s w0 y'"
  using data_ok_step [of junk u h s y y' w0] reading_ok_step [of junk u h s y y' w0] server_side_step [of junk u h s y y'] calls_ok_step [of junk u h s y y']
    client_side_step [of junk u h s y y']
  unfolding system_inv_def by (meson rtranclp_trans)

interpretation win_system: state_machine "\<lambda>y. y = system_init w0" "system_step junk u h s" "system_inv junk u h s w0"
  for w0 junk u h s
proof
  show "y = system_init w0 \<Longrightarrow> system_inv junk u h s w0 y" for y
    using sync.inv_start [of "client_side (system_init w0)"]
    by (simp add: system_inv_def system_init_def client_side_def sync_start_def calls_ok_def entries_ok_def
        data_ok_def reading_ok_def iw_init_def)
qed (rule system_step_inv)

section \<open>One call through the system\<close>

text \<open>What the instance does on its own is a run of the system, as long as it reads what was written.\<close>

lemma serves_run:
  assumes "(iw_step junk u h s)\<^sup>*\<^sup>* (sy_server y) k" and "cf_bodies k = take n (map (\<lambda>(m, frame). drop 8 frame) (sy_sent y))"
  shows "(system_step junk u h s)\<^sup>*\<^sup>* y (y\<lparr>sy_server := k\<rparr>)"
  using assms
proof (induction arbitrary: n rule: rtranclp_induct)
  case (step k1 k2)
  have "\<exists>bs. cf_bodies k2 = cf_bodies k1 @ bs" using iw_step_serves [OF step(2)] by auto
  then have k1: "cf_bodies k1 = take (min (length (cf_bodies k1)) n) (map (\<lambda>(m, frame). drop 8 frame) (sy_sent y))"
    using step(4) by (metis append_eq_conv_conj take_take)
  have "system_step junk u h s (y\<lparr>sy_server := k1\<rparr>) (y\<lparr>sy_server := k1\<rparr>\<lparr>sy_server := k2\<rparr>)"
    by (rule system_step.serves [where n = n]) (use step(2,4) in simp_all)
  with step(3) [OF k1] show ?case by simp
qed simp

text \<open>
  No request is under way: the client is connected and its worker runs and reads no body, the instance is idle,
  has executed all calls, and all replies were read.
\<close>

definition system_quiet :: "'w win_system \<Rightarrow> bool" where
  "system_quiet y \<longleftrightarrow> cw_socket (sy_client y) \<and> \<not> cw_stop (sy_client y) \<and> sy_worker y \<and>
     \<not> (cw_rop_valid (sy_client y) \<and> sy_body y) \<and> cf_phase (sy_server y) = Idle \<and> \<not> iw_stop (cf_inst (sy_server y)) \<and>
     length (cf_bodies (sy_server y)) = length (sy_sent y) \<and> sy_read y = length (cf_sent (sy_server y))"

lemma quiet_serves:
  assumes "system_inv junk u h s w0 y" and "system_quiet y" and "sy_server y2 = sy_server y"
    and "sy_sent y2 = sy_sent y @ [(m, frame_image (call_wire m))]" and "proper_call m"
    and "serve_body junk u h s 0 (call_wire m) (cf_world (sy_server y)) = Inr (f, w')"
  obtains k where "(system_step junk u h s)\<^sup>*\<^sup>* y2 (y2\<lparr>sy_server := k\<rparr>)" and "cf_phase k = Idle" and "\<not> iw_stop (cf_inst k)"
    and "cf_world k = w'" and "length (cf_bodies k) = length (sy_sent y2)" and "cf_sent k = cf_sent (sy_server y) @ [f]"
proof -
  let ?k = "sy_server y"
  have reach: "(iw_step junk u h s)\<^sup>*\<^sup>* (iw_init w0) ?k" and calls: "calls_ok h s u y"
    using assms(1) by (simp_all add: system_inv_def)
  note inv = calls iw.reachable_inv [OF refl reach]
  obtain k where k: "(iw_step junk u h s)\<^sup>*\<^sup>* ?k k" "cf_phase k = Idle" "\<not> iw_stop (cf_inst k)" "cf_world k = w'"
    "cf_bodies k = cf_bodies ?k @ [call_wire m]" "cf_sent k = cf_sent ?k @ [f]"
    using iw_serves_one [OF _ inv(2) _ frame_cut_call [OF assms(5)] assms(6)] assms(2) by (auto simp: system_quiet_def)
  obtain n where "n \<le> length (sy_sent y)" "cf_bodies ?k = take n (map call_wire (map fst (sy_sent y)))"
    using inv(1) by (auto simp: calls_ok_def)
  then have "cf_bodies ?k = map call_wire (map fst (sy_sent y))" using assms(2) by (simp add: system_quiet_def)
  moreover have "map (\<lambda>(m, frame). drop 8 frame) (sy_sent y) = map call_wire (map fst (sy_sent y))"
    using inv(1) by (intro frames_of_entries [OF entries_ok_append [of h s u "sy_time y" "sy_unsent y"]]) (simp add: calls_ok_def)
  ultimately have "cf_bodies k = map (\<lambda>(m, frame). drop 8 frame) (sy_sent y2)"
    using k(5) assms(4) by simp
  then have "cf_bodies k = take (length (sy_sent y2)) (map (\<lambda>(m, frame). drop 8 frame) (sy_sent y2))" by simp
  from serves_run [OF _ this, of junk u h s] k(1) assms(3)
  have "(system_step junk u h s)\<^sup>*\<^sup>* y2 (y2\<lparr>sy_server := k\<rparr>)" by simp
  moreover have "length (cf_bodies k) = length (sy_sent y2)" using k(5) assms(2,4) by (simp add: system_quiet_def)
  ultimately show thesis using k that by blast
qed

lemma fresh_key:
  assumes "sync_inv (client_side y)" and "sy_time y + 1 \<noteq> 0"
  shows "map_find (cw_cb (sy_client y)) (callback_key (sy_time y + 1)) = None" and "map_ok (cw_cb (sy_client y))"
proof -
  obtain st where st: "callers_ok (sy_callers y) (sy_time y) st" "table_ok (cw_cb (sy_client y)) (sy_callers y) st"
    using assms(1) by (rule client_sideE)
  have "(d, callback_key (sy_time y + 1)) \<notin> sy_callers y" for d
    using st(1) timestamp_grows(2) [OF assms(2)] unfolding callers_ok_def by force
  then show "map_find (cw_cb (sy_client y)) (callback_key (sy_time y + 1)) = None"
    using table_okD [OF st(2)] by (cases "map_find (cw_cb (sy_client y)) (callback_key (sy_time y + 1))") auto
  show "map_ok (cw_cb (sy_client y))" using st(2) by (simp add: table_ok_def)
qed

text \<open>The callback starts with \<open>invalidate\<close>.\<close>

lemma client_win_read_msg_pending:
  "client_win_read_msg cj cu (c, w) = client_win_read_msg cj cu (c\<lparr>cw_rop_valid := False\<rparr>, w)"
  by (simp add: client_win_read_msg_def)

lemma read_msg_keeps:
  assumes "client_win_read_msg cj cu (c, w) = Inr (c', w')"
  shows "cw_socket c' = cw_socket c" and "cw_stop c' = cw_stop c" and "\<not> cw_rop_valid c'"
  using assms by (cases rule: client_read_msg_cases; simp)+

text \<open>The worker of the client reads the next reply: its header, then its body.\<close>

lemma system_reads_reply:
  assumes "sy_worker y" and "\<not> cw_stop (sy_client y)" and "\<not> (cw_rop_valid (sy_client y) \<and> sy_body y)" and "reading_ok y"
    and "sy_read y < length (cf_sent (sy_server y))" and f: "cf_sent (sy_server y) ! sy_read y = frame_image body"
    and body: "body \<noteq> []" "length body < 2 ^ 32"
    and "client_win_read_msg cj cu ((sy_client y)\<lparr>cw_buf := body\<rparr>, sy_stack y) = Inr (c, w)"
  shows "(system_step junk u h s)\<^sup>*\<^sup>* y
    (y\<lparr>sy_client := c, sy_stack := w, sy_read := Suc (sy_read y), sy_body := False\<rparr>)"
proof -
  let ?b = "if cw_rop_valid (sy_client y) then cw_buf (sy_client y) else resize_bytes 8 (cw_buf (sy_client y))"
  let ?c1 = "(sy_client y)\<lparr>cw_buf := ?b, cw_rop_valid := True\<rparr>"
  let ?y1 = "y\<lparr>sy_client := ?c1, sy_body := sy_body y \<and> cw_rop_valid (sy_client y)\<rparr>"
  have "client_win_worker True E_Pending E_TimedOut E_TimedOut (sy_client y) = loop.Goes_On ?c1"
    using assms(2) by (simp add: client_win_worker_def Let_def)
  then have 1: "system_step junk u h s y ?y1" by (rule system_step.worker [OF assms(1)])
  have len: "length ?b = 8" using assms(3,4) by (simp add: reading_ok_def)
  have hdr: "filled ?b (frame_image body) = take 8 (frame_image body)"
    by (rule filled_header [OF len]) (simp add: frame_image_def)
  let ?c2 = "?c1\<lparr>cw_buf := resize_bytes (length body) (take 8 (frame_image body))\<rparr>"
  have "read_size (take 8 (frame_image body)) = Inr (length body)" using read_size_header [OF body(2), of "[]"] by simp
  then have init: "client_win_read_init cj cu E_MoreData E_Pending False
      ((sy_client ?y1)\<lparr>cw_buf := filled (cw_buf (sy_client ?y1)) (cf_sent (sy_server ?y1) ! sy_read ?y1)\<rparr>, sy_stack ?y1) =
      Inr (?c2, sy_stack ?y1)"
    using body(1) f hdr by (simp add: client_win_read_init_def Let_def)
  let ?y2 = "?y1\<lparr>sy_client := ?c2, sy_stack := sy_stack ?y1, sy_body := cw_rop_valid ?c2\<rparr>"
  have 2: "system_step junk u h s ?y1 ?y2"
    by (rule system_step.header [OF _ _ _ _ init]) (use assms(1,3,5) in auto)
  have c2: "(sy_client ?y2)\<lparr>cw_buf := body, cw_rop_valid := False\<rparr> = (sy_client y)\<lparr>cw_buf := body, cw_rop_valid := False\<rparr>" by simp
  have "filled (cw_buf (sy_client ?y2)) (drop 8 (cf_sent (sy_server ?y2) ! sy_read ?y2)) = body"
    using filled_body [of "resize_bytes (length body) (take 8 (frame_image body))" body] f by simp
  moreover have "client_win_read_msg cj cu ((sy_client ?y2)\<lparr>cw_buf := body\<rparr>, sy_stack ?y2) = Inr (c, w)"
    using assms(9) client_win_read_msg_pending [of cj cu "(sy_client y)\<lparr>cw_buf := body\<rparr>" "sy_stack y"]
      client_win_read_msg_pending [of cj cu "(sy_client ?y2)\<lparr>cw_buf := body\<rparr>" "sy_stack y"] c2 by simp
  ultimately have 3: "system_step junk u h s ?y2
      (?y2\<lparr>sy_client := c, sy_stack := w, sy_read := Suc (sy_read ?y2), sy_body := False\<rparr>)"
    by (intro system_step.reply [where cj = cj and cu = cu]) (use assms(1,5) in simp_all)
  from 1 2 3 show ?thesis
    by (simp add: converse_rtranclp_into_rtranclp r_into_rtranclp)
qed

lemma system_call_run:
  assumes "classes_ok h s" and "heap_ok h" and inv: "system_inv junk u h s w0 y" and quiet: "system_quiet y"
    and st: "sy_stack y = Some st" "st data = None" and time: "sy_time y + 1 \<noteq> 0"
    and m: "m = build_call (sy_time y + 1) cu cname fname args" "proper_call m" "replies_fit h s 0 u [m]"
    and waits: "first_not_timed_out waits = Some ec"
    and oc: "oc = table_answer h s 0 (decoded junk u m) (cf_world (sy_server y))"
  shows "\<exists>y' vals c. (system_step junk u h s)\<^sup>*\<^sup>* y y' \<and> system_quiet y' \<and> sy_sent y' = sy_sent y @ [(m, frame_image (call_wire m))] \<and>
    (data, callback_key (sy_time y + 1)) \<in> sy_callers y' \<and> (data, callback_key (sy_time y + 1)) \<in> sy_waiting y' \<and>
    win_sync_end freez waits (callback_key (sy_time y + 1)) data (sy_client y', sy_stack y') =
      Some (vals, freez_events freez waits, c, Some st) \<and>
    outcome_seen cname fname oc vals \<and> cf_world (sy_server y') = outcome_world (cf_world (sy_server y)) oc"
proof -
  have live: "cw_socket (sy_client y)" "\<not> cw_stop (sy_client y)" "sy_worker y" "\<not> (cw_rop_valid (sy_client y) \<and> sy_body y)"
    "reading_ok y"
    using quiet inv assms(1,2) by (simp_all add: system_quiet_def system_inv_def)
  have sync: "sync_inv (client_side y)" using inv by (simp add: system_inv_def)
  obtain r err where serve: "serve_body junk u h s 0 (call_wire m) (cf_world (sy_server y)) =
      Inr (frame_image (reply_wire r), outcome_world (cf_world (sy_server y)) oc)"
    and err: "reply_for r (sy_time y + 1) err" and size: "function_reply_size r < 2 ^ 32" and seen: "\<forall>vs. carries r err vs \<longrightarrow> outcome_seen cname fname oc vs"
    by (rule call_answered [OF assms(1,2) m oc])
  obtain frame cbid c1 w1 c2 w2 vals c3 where round:
    "win_sync_begin cu cname fname args data (sy_time y) (sy_client y, Some st) = Inr (Some (frame, cbid, sy_time y + 1, c1, w1))"
    "client_win_read_msg junk cu (c1\<lparr>cw_buf := reply_wire r\<rparr>, w1) = Inr (c2, w2)"
    "win_sync_end freez waits cbid data (c2, w2) = Some (vals, freez_events freez waits, c3, Some st)" "carries r err vals"
    using win_sync_call_round [where h = st and data = data, OF proper_frame [OF m(2) [unfolded m(1)]]
        fresh_key(2,1) [OF sync time] st(2) err waits live(1), of junk freez] by blast
  note b = win_sync_begin_frame [OF round(1) m(1,2)]
  let ?e = "(m, frame)"
  let ?y1 = "y\<lparr>sy_client := c1, sy_stack := w1, sy_time := sy_time y + 1, sy_callers := insert (data, cbid) (sy_callers y),
    sy_unsent := ?e # sy_unsent y\<rparr>"
  let ?y2 = "?y1\<lparr>sy_unsent := remove1 ?e (sy_unsent ?y1), sy_sent := sy_sent ?y1 @ [?e]\<rparr>"
  have 1: "system_step junk u h s y ?y1" by (rule system_step.begins [OF round(1) st time m])
  have 2: "system_step junk u h s ?y1 ?y2" by (rule system_step.writes) (use b(7) live(1) in simp_all)
  have y2: "sy_server ?y2 = sy_server y" "sy_sent ?y2 = sy_sent y @ [(m, frame_image (call_wire m))]" using b(1) by simp_all
  from quiet_serves [OF inv quiet y2 m(2) serve] obtain k where
    3: "(system_step junk u h s)\<^sup>*\<^sup>* ?y2 (?y2\<lparr>sy_server := k\<rparr>)" and k: "cf_phase k = Idle" "\<not> iw_stop (cf_inst k)"
    "cf_world k = outcome_world (cf_world (sy_server y)) oc" "length (cf_bodies k) = length (sy_sent ?y2)"
    "cf_sent k = cf_sent (sy_server y) @ [frame_image (reply_wire r)]"
    by blast
  let ?y3 = "?y2\<lparr>sy_server := k\<rparr>"
  let ?y3' = "?y3\<lparr>sy_client := c1, sy_waiting := insert (data, cbid) (sy_waiting ?y3)\<rparr>"
  let ?y4 = "?y3'\<lparr>sy_client := c2, sy_stack := w2, sy_read := Suc (sy_read ?y3'), sy_body := False\<rparr>"
  have "client_win_finish E_Pending [E_Success] cbid (sy_client ?y3) = Some (True, c1)" by (simp add: client_win_finish_def)
  then have 4: "system_step junk u h s ?y3 ?y3'" by (rule system_step.called [where m = m and frame = frame]) (use b(3) in simp_all)
  have next_reply: "cf_sent k ! sy_read y = frame_image (reply_wire r)" "sy_read y < length (cf_sent k)"
    using k(5) quiet by (simp_all add: system_quiet_def)
  have "reading_ok ?y3'" using k(5) b(5,6) by (intro reading_ok_same [OF live(5)]) simp_all
  moreover have "reply_wire r \<noteq> []" "length (reply_wire r) < 2 ^ 32"
    using size length_reply_wire [of r] by (auto simp: function_reply_size_def)
  ultimately have 5: "(system_step junk u h s)\<^sup>*\<^sup>* ?y3' ?y4"
    by (intro system_reads_reply [where body = "reply_wire r" and cj = junk and cu = cu])
      (use next_reply round(2) live b(6,8) in simp_all)
  from 1 2 3 4 5 have "(system_step junk u h s)\<^sup>*\<^sup>* y ?y4"
    by (meson converse_rtranclp_into_rtranclp rtranclp_trans)
  moreover have "cw_socket c2" "\<not> cw_stop c2" "\<not> cw_rop_valid c2"
    using read_msg_keeps [OF round(2)] b(7,8) live(1,2) by simp_all
  ultimately show ?thesis
    using k quiet round(3,4) seen b(3) y2(2) call_time_build [of "sy_time y + 1" cu cname fname args, folded m(1)]
    by (intro exI [of _ ?y4] exI [of _ vals] exI [of _ c3]) (simp add: system_quiet_def)
qed

lemma quiet_init: "system_quiet (system_init w0)"
  by (simp add: system_quiet_def system_init_def iw_init_def instance_win_make_def)

section \<open>Properties\<close>

text \<open>C1. Every caller gets the answer to its own call. In every state that any number of concurrent synchronous
  callers, calls without callback, failures, cancellations, the worker of the client, its end, \<open>stop\<close> and the server
  instance lead to, in any order and with any answers of the system, as long as the pipe delivers messages whole
  and in order, the read of a body does not fail once its header has come, and the calls and their replies can be
  stored: when a caller's wait ends, the helper
  returns nothing if its callback was not called; else the one value of a lost connection, or what a caller
  must see for the outcome of the call with its id, when all calls are run on the server's table one after
  the other in the order they were written. No two calls have the same id.\<close>

theorem win_system_own_answers:
  assumes "classes_ok h s" and "heap_ok h" and "(system_step junk u h s)\<^sup>*\<^sup>* (system_init w0) y"
    and "(data, cbid) \<in> sy_callers y"
    and "win_sync_end freez waits cbid data (sy_client y, sy_stack y) = Some (vals, events, c, w)"
  shows "(\<exists>st cd. sy_stack y = Some st \<and> st data = Some cd \<and>
      (if cd_called cd then
         (\<exists>cu. vals = lost_values cu) \<or>
         (\<exists>j < length (sy_sent y). let m = fst (sy_sent y ! j) in cbid = callback_key (call_time m) \<and>
            outcome_seen (value_str (call_class_name m)) (value_str (call_function_name m))
              (outcomes junk u h s w0 (sy_sent y) ! j) vals)
       else vals = [])) \<and>
    distinct (map (call_time \<circ> fst) (sy_unsent y @ sy_sent y))"
proof -
  have inv: "sync_inv (client_side y)" "calls_ok h s u y" "data_ok junk u h s w0 y"
    using win_system.reachable_inv [OF refl assms(3)] assms(1,2) by (simp_all add: system_inv_def)
  obtain st where st: "sy_stack y = Some st" using inv(1) by (rule client_sideE)
  obtain cd where cd: "st data = Some cd" "vals = (if cd_called cd then cd_values cd else [])"
    using assms(5) st by (auto simp: win_sync_end_def split: option.splits if_splits)
  have "filled_ok junk u h s w0 (sy_sent y) cbid cd"
    using inv(3) st cd(1) assms(4) by (auto simp: data_ok_def)
  then show ?thesis
    using st cd inv(2) by (auto simp: filled_ok_def value_from_def answer_from_def own_answer_def Let_def calls_ok_def entries_ok_def)
qed

theorem win_system_own_answers_witness:
  "\<exists>(y :: nat win_system) st cd vals. sy_stack y = Some st \<and> st 8 = Some cd \<and>
    (if cd_called cd then (\<exists>cu. vals = lost_values cu) \<or>
       outcome_seen ''C'' ''f'' (outcomes (\<lambda>_. 0) 0 [0 \<mapsto> counting_collection] counting_server (5 :: nat) (sy_sent y) ! 0) vals
     else vals = []) \<and> length (sy_sent y) = 1"
proof -
  let ?y = "system_init (5 :: nat)"
  have y: "sy_stack ?y = Some (\<lambda>_. None)" "sy_time ?y = 0" "sy_sent ?y = []"
    by (simp_all add: system_init_def)
  have m: "counting_call 1 = build_call (sy_time ?y + 1) 0 ''C'' ''f'' []" "sy_time ?y + 1 \<noteq> 0"
    by (simp_all add: y counting_call_def)
  have waits: "first_not_timed_out [E_Success] = Some E_Success" by simp
  note inv = win_system.inv_start [OF refl]
  from system_call_run [where data = 8, OF counting_ok inv quiet_init y(1) refl m(2,1)
      counting_proper counting_replies_fit waits refl, of "\<lambda>_. 0" True]
  obtain y' vals c where r: "(system_step (\<lambda>_. 0) 0 [0 \<mapsto> counting_collection] counting_server)\<^sup>*\<^sup>* ?y y'"
    "(8, 1) \<in> sy_callers y'" "sy_sent y' = [(counting_call 1, frame_image (call_wire (counting_call 1)))]"
    "win_sync_end True [E_Success] 1 8 (sy_client y', sy_stack y') = Some (vals, freez_events True [E_Success], c, Some (\<lambda>_. None))"
    by (auto simp: y)
  have names: "value_str (call_class_name (counting_call 1)) = ''C''" "value_str (call_function_name (counting_call 1)) = ''f''"
    by (simp_all add: counting_call_def build_call_def value_of_string_def)
  note own = win_system_own_answers [OF counting_ok r(1,2,4)]
  from own [THEN conjunct1] obtain st cd where st: "sy_stack y' = Some st" "st 8 = Some cd"
    and vals: "if cd_called cd then (\<exists>cu. vals = lost_values cu) \<or> (\<exists>j < length (sy_sent y').
        let m = fst (sy_sent y' ! j) in 1 = callback_key (call_time m) \<and>
          outcome_seen (value_str (call_class_name m)) (value_str (call_function_name m))
            (outcomes (\<lambda>_. 0) 0 [0 \<mapsto> counting_collection] counting_server 5 (sy_sent y') ! j) vals)
      else vals = []"
    by blast
  have "if cd_called cd then (\<exists>cu. vals = lost_values cu) \<or>
       outcome_seen ''C'' ''f'' (outcomes (\<lambda>_. 0) 0 [0 \<mapsto> counting_collection] counting_server 5 (sy_sent y') ! 0) vals
     else vals = []"
    using vals by (auto simp: r(3) names Let_def split: if_splits)
  with st show ?thesis
    by (intro exI [of _ y'] exI [of _ st] exI [of _ cd] exI [of _ vals] conjI) (assumption+, simp add: r(3))
qed

text \<open>C2. A synchronous call on Windows returns what the server's handler computes. In every reachable state of the
  system in which the client is connected and no request is under way, with any number of other callers waiting for
  lost calls: a thread that enters the helper with a call that can be stored, as can its replies, can be served
  over a pipe that delivers messages whole and in order. Its \<open>call\<close> registers the callback, writes the frame and
  returns true; the instance executes the call; the worker of the client reads the header, then the body it
  announces; and the wait ends with the values a caller must see for the outcome of the call on the table in the
  present state of the application, which is left as that outcome leaves it, the stack is as it was, and the
  system is ready for the next call.\<close>

theorem win_system_call_returns:
  assumes "classes_ok h s" and "heap_ok h" and "(system_step junk u h s)\<^sup>*\<^sup>* (system_init w0) y" and "system_quiet y"
    and "sy_stack y = Some st" and "st data = None" and "sy_time y + 1 \<noteq> 0"
    and "m = build_call (sy_time y + 1) cu cname fname args" and "proper_call m" and "replies_fit h s 0 u [m]"
    and "first_not_timed_out waits = Some ec"
  shows "\<exists>m' oc y' vals c. call_content m' = call_content m \<and> oc = table_answer h s 0 m' (cf_world (sy_server y)) \<and>
    (system_step junk u h s)\<^sup>*\<^sup>* y y' \<and> system_quiet y' \<and> (data, callback_key (sy_time y + 1)) \<in> sy_callers y' \<and>
    (data, callback_key (sy_time y + 1)) \<in> sy_waiting y' \<and>
    win_sync_end freez waits (callback_key (sy_time y + 1)) data (sy_client y', sy_stack y') =
      Some (vals, freez_events freez waits, c, Some st) \<and>
    outcome_seen cname fname oc vals \<and> cf_world (sy_server y') = outcome_world (cf_world (sy_server y)) oc"
proof -
  have inv: "system_inv junk u h s w0 y" by (rule win_system.reachable_inv [OF refl assms(3)])
  show ?thesis
    using system_call_run [OF assms(1,2) inv assms(4-11) refl, of freez] decoded_call(2) [OF assms(9), of junk u]
    by blast
qed

theorem win_system_call_returns_witness:
  "\<exists>y' vals c. (system_step (\<lambda>_. 0) 0 [0 \<mapsto> counting_collection] counting_server)\<^sup>*\<^sup>* (system_init 5) y' \<and>
    win_sync_end True [E_TimedOut, E_Success] 1 8 (sy_client y', sy_stack y') = Some (vals, [True, False], c, Some (\<lambda>_. None)) \<and>
    map value_content vals = [Content64 TUInt64 7] \<and> cf_world (sy_server y') = 6"
proof -
  let ?y = "system_init (5 :: nat)"
  have y: "sy_stack ?y = Some (\<lambda>_. None)" "sy_time ?y = 0" "cf_world (sy_server ?y) = 5"
    by (simp_all add: system_init_def iw_init_def)
  have m: "counting_call 1 = build_call (sy_time ?y + 1) 0 ''C'' ''f'' []" "sy_time ?y + 1 \<noteq> 0"
    by (simp_all add: y counting_call_def)
  have waits: "first_not_timed_out [E_TimedOut, E_Success] = Some E_Success" by simp
  from win_system_call_returns [where data = 8, OF counting_ok rtranclp.rtrancl_refl quiet_init y(1) refl m(2,1)
      counting_proper counting_replies_fit waits, of "\<lambda>_. 0" True]
  obtain m' y' vals c where r: "call_content m' = call_content (counting_call 1)"
    "(system_step (\<lambda>_. 0) 0 [0 \<mapsto> counting_collection] counting_server)\<^sup>*\<^sup>* ?y y'"
    "win_sync_end True [E_TimedOut, E_Success] 1 8 (sy_client y', sy_stack y') = Some (vals, [True, False], c, Some (\<lambda>_. None))"
    "outcome_seen ''C'' ''f'' (table_answer [0 \<mapsto> counting_collection] counting_server 0 m' 5) vals"
    "cf_world (sy_server y') = outcome_world 5 (table_answer [0 \<mapsto> counting_collection] counting_server 0 m' 5)"
    by (auto simp: y freez_events_def)
  then show ?thesis unfolding counting_answer [OF r(1)]
    by (intro exI [of _ y'] exI [of _ vals] exI [of _ c]) (simp add: outcome_seen_def)
qed

end
