(* ===== verification/Client_Osx.thy ===== *)
theory Client_Osx
  imports Client_Base
begin

text \<open>
  The macOS client (\<open>apple/ipc-client-osx.cpp\<close>). It has no worker: a call writes its frame and reads one
  reply itself, between a wait for the semaphore \<open>m_writer_sem\<close> and its post, which is in the helper of
  synchronous calls or in \<open>read_callback_msg\<close>, depending on the reply. What the pipes answer are
  arguments. A wait for a semaphore that is 0, when no other thread uses the client, never returns: the
  value is then \<open>None\<close>, as it is when the answers of the writes do not suffice.
\<close>

section \<open>State\<close>

record 'w client_osx =
  co_socket :: bool
  co_stop :: bool
  co_shutting_down :: bool
  co_writer_sem :: nat
  co_cb :: "'w callbacks"
  co_buf :: buffer

definition client_osx_make :: "'w client_osx" where
  "client_osx_make = \<lparr>co_socket = True, co_stop = False, co_shutting_down = False, co_writer_sem = 1, co_cb = [],
     co_buf = replicate 130000 (CHR 0x00)\<rparr>"

definition client_osx_stop :: "'w client_osx \<Rightarrow> 'w client_osx" where
  "client_osx_stop c =
     (if \<not> co_stop c then c\<lparr>co_stop := True, co_writer_sem := co_writer_sem c + 1, co_socket := False\<rparr>
      else c\<lparr>co_stop := True\<rparr>)"

text \<open>
  \<open>client::create\<close>: \<open>opened\<close> is what opening the pipes gave. The callback for the loss of the connection is not
  kept. And the destructor.
\<close>

definition client_osx_create :: "unit result \<Rightarrow> ('w \<Rightarrow> 'w) option \<Rightarrow> 'w client_osx result" where
  "client_osx_create opened disconnectionCallback = rbind opened (\<lambda>_. Inr client_osx_make)"

definition client_osx_destroy :: "'w client_osx \<Rightarrow> 'w client_osx" where
  "client_osx_destroy c = client_osx_stop c"

definition client_osx_cancel :: "int \<Rightarrow> 'w client_osx \<Rightarrow> bool \<times> 'w client_osx" where
  "client_osx_cancel cid c = (map_count (co_cb c) cid \<noteq> 0, c\<lparr>co_cb := map_erase cid (co_cb c)\<rparr>)"

section \<open>Reading a reply\<close>

text \<open>\<open>read_callback_msg\<close>: only a reply that nobody waits for posts the semaphore.\<close>

definition client_osx_read_msg ::
  "(nat \<Rightarrow> u64) \<Rightarrow> u64 \<Rightarrow> 'w client_osx \<times> 'w \<Rightarrow> ('w client_osx \<times> 'w) result"
where
  "client_osx_read_msg junk u = (\<lambda>(c, w).
     rbind (function_reply_deserialize junk (function_reply_init u) (co_buf c) 0) (\<lambda>(reply, _).
     let key = callback_key (value_union (reply_uid reply)) in
     case map_find (co_cb c) key of
       None \<Rightarrow> Inr (c\<lparr>co_writer_sem := co_writer_sem c + 1\<rparr>, w)
     | Some (f, data) \<Rightarrow>
         let w = f data (delivered_values junk reply) w in
         Inr (c\<lparr>co_cb := map_erase key (co_cb c)\<rparr>, w)))"

text \<open>
  \<open>read_callback_init\<close>: \<open>body\<close> is what the second read leaves in the resized buffer; its code is not used.
\<close>

definition client_osx_read_init ::
  "(nat \<Rightarrow> u64) \<Rightarrow> u64 \<Rightarrow> os_error \<Rightarrow> (nat \<Rightarrow> buffer) \<Rightarrow> 'w client_osx \<times> 'w \<Rightarrow> ('w client_osx \<times> 'w) result"
where
  "client_osx_read_init junk u ec body = (\<lambda>(c, w).
     if ec = E_Success \<or> ec = E_MoreData then
       rbind (read_size (co_buf c)) (\<lambda>n_size.
       if n_size \<noteq> 0 then client_osx_read_msg junk u (c\<lparr>co_buf := resize_bytes n_size (body n_size)\<rparr>, w)
       else Inr (c, w))
     else Inr (c, w))"

section \<open>Calls\<close>

text \<open>The loop of the writes, two milliseconds apart, until one does not fail.\<close>

fun first_not_error :: "os_error list \<Rightarrow> os_error option" where
  "first_not_error [] = None"
| "first_not_error (ec # ecs) = (if ec = E_Error then first_not_error ecs else Some ec)"

definition client_osx_begin ::
  "u64 \<Rightarrow> string \<Rightarrow> string \<Rightarrow> ipc_value list \<Rightarrow> ('w reply_fn) option \<Rightarrow> ptr \<Rightarrow> int \<Rightarrow> u64 \<Rightarrow> 'w client_osx
   \<Rightarrow> (buffer \<times> int \<times> u64 \<times> 'w client_osx) result"
where
  "client_osx_begin u cname fname args fn data cbid timestamp c =
     rbind (begin_call u cname fname args fn data cbid timestamp (co_cb c)) (\<lambda>(buf, cbid, timestamp, cb).
     Inr (buf, cbid, timestamp, c\<lparr>co_cb := cb\<rparr>))"

text \<open>The rest of \<open>call\<close>: \<open>ec\<close> and \<open>hdr\<close> are the code and the bytes of the first read.\<close>

definition client_osx_finish ::
  "(nat \<Rightarrow> u64) \<Rightarrow> u64 \<Rightarrow> os_error list \<Rightarrow> os_error \<Rightarrow> buffer \<Rightarrow> (nat \<Rightarrow> buffer) \<Rightarrow> 'w client_osx \<times> 'w
   \<Rightarrow> ('w client_osx \<times> 'w) result option"
where
  "client_osx_finish junk u writes ec hdr body = (\<lambda>(c, w).
     if co_writer_sem c = 0 then None
     else
       let c = c\<lparr>co_writer_sem := co_writer_sem c - 1\<rparr> in
       (case first_not_error writes of
          None \<Rightarrow> None
        | Some _ \<Rightarrow>
            if co_shutting_down c then Some (Inr (c, w))
            else Some (client_osx_read_init junk u ec body (c\<lparr>co_buf := resize_bytes 8 hdr\<rparr>, w))))"

definition client_osx_call ::
  "(nat \<Rightarrow> u64) \<Rightarrow> u64 \<Rightarrow> os_error list \<Rightarrow> os_error \<Rightarrow> buffer \<Rightarrow> (nat \<Rightarrow> buffer) \<Rightarrow> string \<Rightarrow> string
   \<Rightarrow> ipc_value list \<Rightarrow> ('w reply_fn) option \<Rightarrow> ptr \<Rightarrow> int \<Rightarrow> u64 \<Rightarrow> 'w client_osx \<times> 'w
   \<Rightarrow> (bool \<times> int \<times> u64 \<times> 'w client_osx \<times> 'w) result option"
where
  "client_osx_call junk u writes ec hdr body cname fname args fn data cbid timestamp = (\<lambda>(c, w).
     if \<not> co_socket c then Some (Inr (False, cbid, timestamp, c, w))
     else (case client_osx_begin u cname fname args fn data cbid timestamp c of
             Inl e \<Rightarrow> Some (Inl e)
           | Inr (buf, cbid, timestamp, c) \<Rightarrow>
               map_option (\<lambda>r. rbind r (\<lambda>(c, w). Inr (True, cbid, timestamp, c, w)))
                 (client_osx_finish junk u writes ec hdr body (c, w))))"

text \<open>
  \<open>call_synchronous_helper\<close>: \<open>opened\<close> says whether the semaphore of the call could be made. The data is
  at the address \<open>cd\<close> of the stack, and gone when the helper returns.
\<close>

definition client_osx_sync ::
  "bool \<Rightarrow> (nat \<Rightarrow> u64) \<Rightarrow> u64 \<Rightarrow> os_error list \<Rightarrow> os_error \<Rightarrow> buffer \<Rightarrow> (nat \<Rightarrow> buffer) \<Rightarrow> string \<Rightarrow> string
   \<Rightarrow> ipc_value list \<Rightarrow> ptr \<Rightarrow> u64 \<Rightarrow> call_world client_osx \<times> call_world
   \<Rightarrow> (ipc_value list \<times> u64 \<times> call_world client_osx \<times> call_world) result option"
where
  "client_osx_sync opened junk u writes ec hdr body cname fname args data timestamp = (\<lambda>(c, w).
     if \<not> opened then Some (Inr ([], timestamp, c, w))
     else
       (case client_osx_call junk u writes ec hdr body cname fname args (Some sync_callback) data 0 timestamp
               (c, stack_alloc data w) of
          None \<Rightarrow> None
        | Some (Inl e) \<Rightarrow> Some (Inl e)
        | Some (Inr (success, cbid, timestamp, c, w)) \<Rightarrow>
            if \<not> success then Some (Inr ([], timestamp, c, stack_free data w))
            else (case Option.bind w (\<lambda>h. h data) of
                    None \<Rightarrow> Some (Inl Bad_Access)
                  | Some cd \<Rightarrow>
                      if cd_sgn cd = 0 then None
                      else if \<not> cd_called cd
                      then Some (Inr ([], timestamp, snd (client_osx_cancel cbid c), stack_free data w))
                      else Some (Inr (cd_values cd, timestamp, c\<lparr>co_writer_sem := co_writer_sem c + 1\<rparr>,
                             stack_free data w)))))"

section \<open>Lemmas\<close>

lemma client_osx_begin_frame:
  assumes "function_call_size (build_call (timestamp + 1) u cname fname args) + 8 < 2 ^ 64"
  shows "client_osx_begin u cname fname args fn data cbid timestamp c =
    Inr (frame_image (call_wire (build_call (timestamp + 1) u cname fname args)),
      new_cbid fn cbid (timestamp + 1), timestamp + 1,
      c\<lparr>co_cb := registered fn data (timestamp + 1) (co_cb c)\<rparr>)"
  unfolding client_osx_begin_def begin_call_frame [OF assms] by simp

lemma client_osx_call_frame:
  assumes "function_call_size (build_call (timestamp + 1) u cname fname args) + 8 < 2 ^ 64" and "co_socket c"
  shows "client_osx_call junk u writes ec hdr body cname fname args fn data cbid timestamp (c, w) =
    map_option (\<lambda>r. rbind r (\<lambda>(c, w). Inr (True, new_cbid fn cbid (timestamp + 1), timestamp + 1, c, w)))
      (client_osx_finish junk u writes ec hdr body (c\<lparr>co_cb := registered fn data (timestamp + 1) (co_cb c)\<rparr>, w))"
  using assms(2) by (simp add: client_osx_call_def client_osx_begin_frame [OF assms(1)])

lemma resize_bytes_id: "length xs = n \<Longrightarrow> resize_bytes n xs = xs"
  by (simp add: resize_bytes_def)

text \<open>A frame whose header the first read gets and whose body the second.\<close>

definition reply_frame :: "function_reply \<Rightarrow> buffer" where
  "reply_frame m = take 8 (frame_image (reply_wire m))"

lemma client_osx_reply:
  assumes "reply_for m uid err" and "function_reply_size m < 2 ^ 32" and "0 < co_writer_sem c" and "\<not> co_shutting_down c"
    and "first_not_error writes = Some e" and "ec = E_Success \<or> ec = E_MoreData" and "\<And>n. body n = reply_wire m"
  obtains vs where "carries m err vs"
    and "client_osx_finish junk u writes ec (reply_frame m) body (c, w) = Some (Inr
      (case map_find (co_cb c) (callback_key uid) of
         None \<Rightarrow> (c\<lparr>co_buf := reply_wire m\<rparr>, w)
       | Some (f, data) \<Rightarrow> (c\<lparr>co_buf := reply_wire m, co_writer_sem := co_writer_sem c - 1,
            co_cb := map_erase (callback_key uid) (co_cb c)\<rparr>, f data vs w)))"
proof -
  have len: "length (reply_wire m) = function_reply_size m" by (rule length_reply_wire)
  have pos: "function_reply_size m \<noteq> 0" by (simp add: function_reply_size_def)
  have "length (reply_frame m) = 8" by (simp add: reply_frame_def frame_image_def min_def)
  then have hdr: "resize_bytes 8 (reply_frame m) = reply_frame m" by (rule resize_bytes_id)
  have size: "read_size (reply_frame m) = Inr (function_reply_size m)"
    using read_size_header [of "reply_wire m" "[]"] assms(2) len by (simp add: reply_frame_def)
  have body: "resize_bytes (function_reply_size m) (reply_wire m) = reply_wire m"
    using len by (rule resize_bytes_id)
  from reply_decodes [OF assms(1), of junk u] obtain m' where
    "function_reply_deserialize junk (function_reply_init u) (reply_wire m) 0 = Inr (m', function_reply_size m)"
    "value_union (reply_uid m') = uid" "carries m err (delivered_values junk m')"
    by blast
  then show thesis
    using that assms(3-7) hdr size body pos
    by (auto simp: client_osx_finish_def client_osx_read_init_def client_osx_read_msg_def Let_def split: option.splits)
qed

lemma client_osx_blocked:
  assumes "function_call_size (build_call (timestamp + 1) u cname fname args) + 8 < 2 ^ 64"
    and "co_socket c" and "co_writer_sem c = 0"
  shows "client_osx_call junk u writes ec hdr body cname fname args fn data cbid timestamp (c, w) = None"
  using assms by (simp add: client_osx_call_frame client_osx_finish_def)

text \<open>One synchronous call, with the reply that comes for it.\<close>

lemma osx_sync_call_round:
  assumes "function_call_size (build_call (timestamp + 1) u cname fname args) + 8 < 2 ^ 64"
    and "co_socket c" and "0 < co_writer_sem c" and "\<not> co_shutting_down c"
    and "map_ok (co_cb c)" and "map_find (co_cb c) (callback_key (timestamp + 1)) = None" and "h data = None"
    and "first_not_error writes = Some e" and "ec = E_Success \<or> ec = E_MoreData"
    and "reply_for m (timestamp + 1) err" and "function_reply_size m < 2 ^ 32"
  shows "\<exists>vals c'. client_osx_sync True junk u writes ec (reply_frame m) (\<lambda>_. reply_wire m) cname fname args data timestamp
      (c, Some h) = Some (Inr (vals, timestamp + 1, c', Some h)) \<and>
    carries m err vals \<and> co_writer_sem c' = co_writer_sem c \<and> map_find (co_cb c') = map_find (co_cb c)"
proof -
  let ?k = "callback_key (timestamp + 1)"
  let ?c = "c\<lparr>co_cb := registered (Some sync_callback) data (timestamp + 1) (co_cb c)\<rparr>"
  have found: "map_find (co_cb ?c) ?k = Some (sync_callback, data)"
    using assms(5,6) by (simp add: om.find_insert)
  have c: "0 < co_writer_sem ?c" "\<not> co_shutting_down ?c" using assms(3,4) by simp_all
  obtain vs where vs: "carries m err vs"
    "client_osx_finish junk u writes ec (reply_frame m) (\<lambda>_. reply_wire m) (?c, stack_alloc data (Some h)) = Some (Inr
      (?c\<lparr>co_buf := reply_wire m, co_writer_sem := co_writer_sem ?c - 1, co_cb := map_erase ?k (co_cb ?c)\<rparr>,
       sync_callback data vs (stack_alloc data (Some h))))"
    by (rule client_osx_reply [OF assms(10,11) c assms(8,9) refl, where junk = junk and u = u and
          w = "stack_alloc data (Some h)"]) (use found in auto)
  have w: "sync_callback data vs (stack_alloc data (Some h)) =
      Some (h(data \<mapsto> \<lparr>cd_sgn = 1, cd_called = True, cd_values = vs\<rparr>))"
    by (simp add: stack_alloc_def sync_callback_def call_data_init_def)
  have "h(data := None) = h" using assms(7) by auto
  then have "client_osx_sync True junk u writes ec (reply_frame m) (\<lambda>_. reply_wire m) cname fname args data timestamp (c, Some h) =
     Some (Inr (vs, timestamp + 1, ?c\<lparr>co_buf := reply_wire m, co_writer_sem := co_writer_sem c - 1 + 1,
       co_cb := map_erase ?k (co_cb ?c)\<rparr>, Some h))"
    using vs(2) w by (simp add: client_osx_sync_def client_osx_call_frame [OF assms(1,2)] stack_free_def)
  moreover have "map_find (map_erase ?k (co_cb ?c)) = map_find (co_cb c)"
    using om.erase_insert_fresh [OF assms(5,6)] by simp
  ultimately show ?thesis using vs(1) assms(3) by auto
qed

section \<open>Properties\<close>

text \<open>A synchronous call on macOS returns what its reply carries: with the semaphore free, a write that
  is accepted after any number of failed ones, and the frame of a storable reply for the call's id, the
  helper returns the values of the reply, or one \<open>Null\<close> value with the error text; the semaphore is free
  again, and the table and the stack are as before the call, so the next call can be made.\<close>

theorem osx_sync_call_values:
  assumes "function_call_size (build_call (timestamp + 1) u cname fname args) + 8 < 2 ^ 64"
    and "co_socket c" and "0 < co_writer_sem c" and "\<not> co_shutting_down c"
    and "map_ok (co_cb c)" and "map_find (co_cb c) (callback_key (timestamp + 1)) = None" and "h data = None"
    and "first_not_error writes = Some e" and "ec = E_Success \<or> ec = E_MoreData"
    and "reply_for m (timestamp + 1) err" and "function_reply_size m < 2 ^ 32"
  shows "\<exists>vals c'. client_osx_sync True junk u writes ec (reply_frame m) (\<lambda>_. reply_wire m) cname fname args data timestamp
      (c, Some h) = Some (Inr (vals, timestamp + 1, c', Some h)) \<and>
    carries m err vals \<and> co_writer_sem c' = co_writer_sem c \<and> map_find (co_cb c') = map_find (co_cb c)"
  using assms by (rule osx_sync_call_round)

theorem osx_sync_call_values_witness:
  "\<exists>vals c'. client_osx_sync True (\<lambda>_. 0) 0 [E_Error, E_Success] E_Success (reply_frame (one_reply 1))
      (\<lambda>_. reply_wire (one_reply 1)) ''C'' ''f'' [] 8 0 (client_osx_make, Some (\<lambda>_. None)) =
        Some (Inr (vals, 1, c', Some (\<lambda>_. None))) \<and>
    map value_content vals = [Content64 TUInt64 7] \<and> co_writer_sem c' = 1"
proof -
  have 1: "co_socket client_osx_make" "0 < co_writer_sem client_osx_make" "\<not> co_shutting_down client_osx_make"
    "map_ok (co_cb client_osx_make)" "map_find (co_cb client_osx_make) (callback_key (0 + 1)) = None"
    "(\<lambda>_. None) 8 = None" "first_not_error [E_Error, E_Success] = Some E_Success" "E_Success = E_Success \<or> E_Success = E_MoreData"
    by (simp_all add: client_osx_make_def map_ok_def map_find_def)
  have 2: "reply_for (one_reply (0 + 1)) (0 + 1) []" "function_reply_size (one_reply (0 + 1)) < 2 ^ 32"
    using one_reply_for by (simp_all add: one_reply_def function_reply_size_def value_size_def value_of_uint64_def
        function_reply_init_def value_of_string_def)
  from osx_sync_call_values [where data = 8 and h = "\<lambda>_. None", OF small_call 1 2, of "\<lambda>_. 0"]
  show ?thesis by (auto simp: carries_def one_reply_def client_osx_make_def)
qed

text \<open>C29. An asynchronous call with a callback blocks the macOS client: when such a call gets its reply, the
  callback is run once on the values and unregistered and the call returns true, but the semaphore stays
  taken, so that after a call on a fresh client no further call, with whatever name, arguments and
  callback, ever returns.\<close>

theorem osx_async_call_blocks:
  assumes "function_call_size (build_call (timestamp + 1) u cname fname args) + 8 < 2 ^ 64"
    and "co_socket c" and "co_writer_sem c = 1" and "\<not> co_shutting_down c" and "map_ok (co_cb c)"
    and "map_find (co_cb c) (callback_key (timestamp + 1)) = None"
    and "first_not_error writes = Some e" and "ec = E_Success \<or> ec = E_MoreData"
    and "reply_for m (timestamp + 1) err" and "function_reply_size m < 2 ^ 32"
  shows "\<exists>vs c'. carries m err vs \<and>
    client_osx_call junk u writes ec (reply_frame m) (\<lambda>_. reply_wire m) cname fname args (Some f) data cbid timestamp (c, w) =
      Some (Inr (True, callback_key (timestamp + 1), timestamp + 1, c', f data vs w)) \<and>
    map_find (co_cb c') = map_find (co_cb c) \<and>
    (\<forall>junk' u' writes' ec' hdr body cname' fname' args' fn data' cbid' timestamp' w'.
       function_call_size (build_call (timestamp' + 1) u' cname' fname' args') + 8 < 2 ^ 64 \<longrightarrow>
       client_osx_call junk' u' writes' ec' hdr body cname' fname' args' fn data' cbid' timestamp' (c', w') = None)"
proof -
  let ?k = "callback_key (timestamp + 1)"
  let ?c = "c\<lparr>co_cb := registered (Some f) data (timestamp + 1) (co_cb c)\<rparr>"
  let ?c' = "?c\<lparr>co_buf := reply_wire m, co_writer_sem := co_writer_sem ?c - 1, co_cb := map_erase ?k (co_cb ?c)\<rparr>"
  have found: "map_find (co_cb ?c) ?k = Some (f, data)"
    using assms(5,6) by (simp add: om.find_insert)
  have c: "0 < co_writer_sem ?c" "\<not> co_shutting_down ?c" using assms(3,4) by simp_all
  obtain vs where vs: "carries m err vs"
    "client_osx_finish junk u writes ec (reply_frame m) (\<lambda>_. reply_wire m) (?c, w) = Some (Inr (?c', f data vs w))"
    by (rule client_osx_reply [OF assms(9,10) c assms(7,8) refl, where junk = junk and u = u and w = w])
      (use found in auto)
  have "client_osx_call junk u writes ec (reply_frame m) (\<lambda>_. reply_wire m) cname fname args (Some f) data cbid timestamp (c, w) =
      Some (Inr (True, ?k, timestamp + 1, ?c', f data vs w))"
    using vs(2) by (simp add: client_osx_call_frame [OF assms(1,2)])
  moreover have "map_find (co_cb ?c') = map_find (co_cb c)"
    using om.erase_insert_fresh [OF assms(5,6)] by simp
  moreover have "client_osx_call junk' u' writes' ec' hdr body cname' fname' args' fn data' cbid' timestamp' (?c', w') = None"
    if "function_call_size (build_call (timestamp' + 1) u' cname' fname' args') + 8 < 2 ^ 64"
    for junk' u' writes' ec' hdr body cname' fname' args' fn data' cbid' timestamp' w'
    by (rule client_osx_blocked [OF that]) (use assms(2,3) in simp_all)
  ultimately show ?thesis using vs(1) by blast
qed

theorem osx_async_call_blocks_witness:
  "\<exists>c'. client_osx_call (\<lambda>_. 0) 0 [E_Success] E_Success (reply_frame (one_reply 1)) (\<lambda>_. reply_wire (one_reply 1))
      ''C'' ''f'' [] (Some (\<lambda>data vals w. w + length vals)) 0 0 0 (client_osx_make, 5) = Some (Inr (True, 1, 1, c', 6)) \<and>
    client_osx_call (\<lambda>_. 0) 0 [E_Success] E_Success [] (\<lambda>_. []) ''C'' ''f'' [] None 0 0 0 (c', 6) = None"
proof -
  have 1: "co_socket client_osx_make" "co_writer_sem client_osx_make = 1" "\<not> co_shutting_down client_osx_make"
    "map_ok (co_cb client_osx_make)" "map_find (co_cb client_osx_make) (callback_key (0 + 1)) = None"
    "first_not_error [E_Success] = Some E_Success" "E_Success = E_Success \<or> E_Success = E_MoreData"
    by (simp_all add: client_osx_make_def map_ok_def map_find_def)
  have 2: "reply_for (one_reply (0 + 1)) (0 + 1) []" "function_reply_size (one_reply (0 + 1)) < 2 ^ 32"
    using one_reply_for by (simp_all add: one_reply_def function_reply_size_def value_size_def value_of_uint64_def
        function_reply_init_def value_of_string_def)
  from osx_async_call_blocks [OF small_call 1 2, of "\<lambda>_. 0" "\<lambda>data vals w. w + length vals" 0 0 5] small_call
  obtain vs c' where
    "carries (one_reply 1) [] vs"
    "client_osx_call (\<lambda>_. 0) 0 [E_Success] E_Success (reply_frame (one_reply 1)) (\<lambda>_. reply_wire (one_reply 1))
      ''C'' ''f'' [] (Some (\<lambda>data vals w. w + length vals)) 0 0 0 (client_osx_make, 5) = Some (Inr (True, 1, 1, c', 5 + length vs))"
    "client_osx_call (\<lambda>_. 0) 0 [E_Success] E_Success [] (\<lambda>_. []) ''C'' ''f'' [] None 0 0 0 (c', 6) = None"
    by auto
  moreover from this(1) have "length vs = 1"
    by (auto simp: carries_def one_reply_def dest: map_eq_imp_length_eq)
  ultimately show ?thesis by auto
qed

text \<open>C34. A synchronous call on macOS never returns when its reply is lost: if the client is shutting down,
  or the first read fails, or it announces an empty body, then the helper, having written its frame,
  waits for ever for a semaphore that only its callback would post.\<close>

theorem osx_sync_call_lost:
  assumes "function_call_size (build_call (timestamp + 1) u cname fname args) + 8 < 2 ^ 64" and "co_socket c"
    and "0 < co_writer_sem c" and "first_not_error writes = Some e" and "h data = None"
    and "co_shutting_down c \<or> (ec \<noteq> E_Success \<and> ec \<noteq> E_MoreData) \<or> read_size (resize_bytes 8 hdr) = Inr 0"
  shows "client_osx_sync True junk u writes ec hdr body cname fname args data timestamp (c, Some h) = None"
proof -
  let ?c = "c\<lparr>co_cb := registered (Some sync_callback) data (timestamp + 1) (co_cb c)\<rparr>"
  have "\<exists>c'. client_osx_finish junk u writes ec hdr body (?c, stack_alloc data (Some h)) =
      Some (Inr (c', stack_alloc data (Some h)))"
    using assms(3,4,6)
    by (cases "co_shutting_down c"; cases "ec = E_Success \<or> ec = E_MoreData")
      (auto simp: client_osx_finish_def client_osx_read_init_def Let_def)
  then obtain c' where "client_osx_finish junk u writes ec hdr body (?c, stack_alloc data (Some h)) =
      Some (Inr (c', stack_alloc data (Some h)))"
    by blast
  then show ?thesis
    by (simp add: client_osx_sync_def client_osx_call_frame [OF assms(1,2)] stack_alloc_def call_data_init_def)
qed

theorem osx_sync_call_lost_witness:
  "client_osx_sync True (\<lambda>_. 0) 0 [E_Success] E_Success [] (\<lambda>_. []) ''C'' ''f'' [] 8 0
     (client_osx_make\<lparr>co_shutting_down := True\<rparr>, Some (\<lambda>_. None)) = None"
  by (rule osx_sync_call_lost [where e = E_Success])
    (simp_all add: client_osx_make_def build_call_def function_call_size_def value_size_def value_of_uint64_def
      value_of_string_def)

end
