(* ===== verification/Instance_Osx.thy ===== *)
theory Instance_Osx
  imports Serial_Server Socket_Osx
begin

text \<open>
  The macOS server instance (\<open>apple/ipc-server-instance-osx.cpp\<close>): one thread reads requests and queues
  them, another executes them and writes the replies; two semaphores pass the turn back and forth. What
  the pipe delivers is an argument of each step; the threads interleave at the semaphores.
\<close>

section \<open>State and operations\<close>

datatype req_pc = Req_Wait | Req_Read | Req_Exit
datatype rep_pc = Rep_Wait | Rep_Serve | Rep_Exit

record instance_osx =
  io_stop :: bool
  io_connected :: bool
  io_reader_sem :: nat
  io_writer_sem :: nat
  io_rbuf :: buffer
  io_msgs :: "function_call list"
  io_rop :: "bool option"
  io_wop :: "bool option"
  io_wqueue :: "buffer list"
  io_bodies :: "buffer list"
  io_sent :: "buffer list"
  io_req :: req_pc
  io_rep :: rep_pc

text \<open>
  \<open>io_rop\<close> and \<open>io_wop\<close> are the request objects, \<open>None\<close> for a null pointer, else their valid flag; no code
  ever makes them. \<open>io_bodies\<close> and \<open>io_sent\<close> are a history: the bodies of the messages that were queued,
  and the frames written so far. The reader's semaphore starts with 1, the writer's with 0.
\<close>

definition instance_osx_make :: instance_osx where
  "instance_osx_make = \<lparr>io_stop = False, io_connected = True, io_reader_sem = 1, io_writer_sem = 0, io_rbuf = [],
     io_msgs = [], io_rop = None, io_wop = None, io_wqueue = [], io_bodies = [], io_sent = [], io_req = Req_Wait, io_rep = Rep_Wait\<rparr>"

definition is_alive :: "instance_osx \<Rightarrow> bool" where
  "is_alive i = (if \<not> io_connected i then False else if io_stop i then False else True)"

text \<open>
  The destructor up to the joins: the flag, and the dummy frame of one byte that is to wake the reader.
\<close>

definition instance_osx_destroy :: "instance_osx \<Rightarrow> (instance_osx \<times> buffer) result" where
  "instance_osx_destroy i = rbind (make_sendable ''1'') (\<lambda>frame. Inr (i\<lparr>io_stop := True\<rparr>, frame))"

text \<open>
  \<open>read_callback_msg\<close>: a message that does not decode is logged and dropped; its semaphore is not posted.
\<close>

definition instance_osx_read_msg :: "(nat \<Rightarrow> u64) \<Rightarrow> u64 \<Rightarrow> instance_osx \<Rightarrow> instance_osx result" where
  "instance_osx_read_msg junk u i =
     (case function_call_deserialize junk (function_call_init u u) (io_rbuf i) 0 of
        Inl Bad_Access \<Rightarrow> Inl Bad_Access
      | Inl Abort \<Rightarrow> Inl Abort
      | Inl (Exception _) \<Rightarrow> Inr i
      | Inr (fnc_call_msg, _) \<Rightarrow>
          Inr (i\<lparr>io_rbuf := [], io_msgs := io_msgs i @ [fnc_call_msg], io_writer_sem := io_writer_sem i + 1,
            io_bodies := io_bodies i @ [io_rbuf i]\<rparr>))"

text \<open>
  \<open>read_callback_init\<close>: \<open>body\<close> is what the second read leaves in the resized buffer; its code is not used.
\<close>

definition instance_osx_read_init ::
  "(nat \<Rightarrow> u64) \<Rightarrow> u64 \<Rightarrow> os_error \<Rightarrow> (nat \<Rightarrow> buffer) \<Rightarrow> instance_osx \<Rightarrow> instance_osx result"
where
  "instance_osx_read_init junk u ec body i =
     (if ec = E_Success \<or> ec = E_MoreData then
        rbind (read_size (io_rbuf i)) (\<lambda>n_size.
        if 1 < n_size then instance_osx_read_msg junk u (i\<lparr>io_rbuf := resize_bytes n_size (body n_size)\<rparr>)
        else Inr (i\<lparr>io_writer_sem := io_writer_sem i + 1\<rparr>))
      else Inr i)"

text \<open>\<open>read_callback_msg_write\<close> and \<open>write_callback\<close>; a method of a null pointer is undefined.\<close>

definition instance_osx_msg_write :: "buffer \<Rightarrow> instance_osx \<Rightarrow> instance_osx result" where
  "instance_osx_msg_write write_buffer i =
     (if length write_buffer \<noteq> 0 then
        if io_wop i \<noteq> Some True \<and> length (io_wqueue i) = 0
        then rbind (make_sendable write_buffer) (\<lambda>frame. Inr (i\<lparr>io_sent := io_sent i @ [frame]\<rparr>))
        else Inr (i\<lparr>io_wqueue := io_wqueue i @ [write_buffer]\<rparr>)
      else
        (case io_rop i of
           None \<Rightarrow> Inl Bad_Access
         | Some _ \<Rightarrow> Inr (i\<lparr>io_rop := Some False\<rparr>)))"

definition instance_osx_write_callback :: "instance_osx \<Rightarrow> instance_osx result" where
  "instance_osx_write_callback i =
     (if io_wop i = None \<or> io_rop i = None then Inl Bad_Access
      else Inr (i\<lparr>io_wop := Some False, io_rop := Some False\<rparr>))"

text \<open>
  The body of the loop of \<open>worker_rep\<close> after the semaphore. \<open>front\<close> and \<open>pop\<close> of an empty queue are
  undefined. The value says whether the thread goes on.
\<close>

definition instance_osx_serve ::
  "u64 \<Rightarrow> 'w heap \<Rightarrow> 'w server \<Rightarrow> u64 \<Rightarrow> instance_osx \<times> 'w \<Rightarrow> (bool \<times> instance_osx \<times> 'w) result"
where
  "instance_osx_serve u h s client_id = (\<lambda>(i, w).
     case io_msgs i of
       [] \<Rightarrow> Inl Bad_Access
     | fnc_call_msg # msgs \<Rightarrow>
         let i = i\<lparr>io_msgs := msgs\<rparr> in
         rbind (execute_request h s client_id u fnc_call_msg w) (\<lambda>(reply, w).
         case function_reply_serialize reply (replicate (function_reply_size reply + 8) (CHR 0x00)) 8 of
           Inl Bad_Access \<Rightarrow> Inl Bad_Access
         | Inl Abort \<Rightarrow> Inl Abort
         | Inl (Exception _) \<Rightarrow> Inr (False, i, w)
         | Inr (write_buffer, _) \<Rightarrow>
             rbind (instance_osx_msg_write write_buffer i) (\<lambda>i.
             Inr (True, i\<lparr>io_reader_sem := io_reader_sem i + 1\<rparr>, w))))"

section \<open>The two threads\<close>

text \<open>
  The steps, between which the other thread may run: taking a semaphore, and what follows until the
  next wait. \<open>short\<close> says whether the client may send frames of a body of at most one byte. A reply counts as
  sent when \<open>write\<close> was called for it: the code of that call is ignored, so it may have failed.
\<close>

definition goes_on :: "instance_osx \<Rightarrow> bool" where
  "goes_on i \<longleftrightarrow> \<not> io_stop i \<and> io_connected i"

inductive io_step ::
  "bool \<Rightarrow> (nat \<Rightarrow> u64) \<Rightarrow> u64 \<Rightarrow> 'w heap \<Rightarrow> 'w server \<Rightarrow> instance_osx \<times> 'w \<Rightarrow> instance_osx \<times> 'w \<Rightarrow> bool"
  for short junk u h s
where
  req_wait: "io_req i = Req_Wait \<Longrightarrow> 0 < io_reader_sem i \<Longrightarrow>
    io_step short junk u h s (i, w) (i\<lparr>io_reader_sem := io_reader_sem i - 1, io_req := Req_Read\<rparr>, w)"
| req_read: "io_req i = Req_Read \<Longrightarrow> length hdr = 8 \<Longrightarrow> short \<or> (\<exists>n. read_size hdr = Inr n \<and> 1 < n) \<Longrightarrow>
    instance_osx_read_init junk u ec body (i\<lparr>io_rbuf := hdr\<rparr>) = Inr i' \<Longrightarrow>
    io_step short junk u h s (i, w) (i'\<lparr>io_req := (if goes_on i' then Req_Wait else Req_Exit)\<rparr>, w)"
| rep_wait: "io_rep i = Rep_Wait \<Longrightarrow> 0 < io_writer_sem i \<Longrightarrow>
    io_step short junk u h s (i, w)
      (i\<lparr>io_writer_sem := io_writer_sem i - 1, io_rep := (if io_stop i then Rep_Exit else Rep_Serve)\<rparr>, w)"
| rep_serve: "io_rep i = Rep_Serve \<Longrightarrow> instance_osx_serve u h s 0 (i, w) = Inr (b, i', w') \<Longrightarrow>
    io_step short junk u h s (i, w) (i'\<lparr>io_rep := (if b \<and> goes_on i' then Rep_Wait else Rep_Exit)\<rparr>, w')"
| stop: "io_step short junk u h s (i, w) (i\<lparr>io_stop := True\<rparr>, w)"

text \<open>The turn: at most one of the semaphores and the two busy threads has it.\<close>

definition turns :: "instance_osx \<Rightarrow> nat" where
  "turns i = io_reader_sem i + io_writer_sem i + (if io_req i = Req_Read then 1 else 0)
     + (if io_rep i = Rep_Serve then 1 else 0)"

lemma io_read_init_cases:
  assumes "instance_osx_read_init junk u ec body i = Inr i'"
  obtains (none) r where "i' = i\<lparr>io_rbuf := r\<rparr>"
  | (short) n where "i' = i\<lparr>io_writer_sem := io_writer_sem i + 1\<rparr>" "read_size (io_rbuf i) = Inr n" "n \<le> 1"
  | (message) m k bs where "i' = i\<lparr>io_rbuf := [], io_msgs := io_msgs i @ [m], io_writer_sem := io_writer_sem i + 1,
        io_bodies := io_bodies i @ [bs]\<rparr>" "function_call_deserialize junk (function_call_init u u) bs 0 = Inr (m, k)"
proof (cases "ec = E_Success \<or> ec = E_MoreData")
  case True
  then obtain n where n: "read_size (io_rbuf i) = Inr n"
      "(if 1 < n then instance_osx_read_msg junk u (i\<lparr>io_rbuf := resize_bytes n (body n)\<rparr>)
        else Inr (i\<lparr>io_writer_sem := io_writer_sem i + 1\<rparr>)) = Inr i'"
    using assms by (auto simp: instance_osx_read_init_def rbind_eq_Inr_iff)
  show thesis
  proof (cases "1 < n")
    case True
    with n(2) show thesis
      using none [of "resize_bytes n (body n)"] message
      by (auto simp: instance_osx_read_msg_def split: sum.splits fault.splits)
  qed (use n short in auto)
next
  case False
  then show thesis using assms none [of "io_rbuf i"] by (auto simp: instance_osx_read_init_def)
qed

text \<open>The request objects stay null pointers and the write queue empty.\<close>

definition no_requests :: "instance_osx \<Rightarrow> bool" where
  "no_requests i \<longleftrightarrow> io_rop i = None \<and> io_wop i = None \<and> io_wqueue i = []"

lemma msg_write_cases:
  assumes "instance_osx_msg_write buf i = Inr i'" and "8 \<le> length buf"
  obtains (sent) f where "make_sendable buf = Inr f" "i' = i\<lparr>io_sent := io_sent i @ [f]\<rparr>"
  | (queued) "\<not> no_requests i" "i' = i\<lparr>io_wqueue := io_wqueue i @ [buf]\<rparr>"
proof -
  have "length buf \<noteq> 0" using assms(2) by linarith
  with assms(1) sent queued show thesis
    by (auto simp: instance_osx_msg_write_def no_requests_def rbind_eq_Inr_iff split: if_splits)
qed

lemma serve_cases:
  assumes "instance_osx_serve u h s cid (i, w) = Inr (b, i', w')"
  obtains (served) m msgs reply f where "io_msgs i = m # msgs" "b"
      "i' = i\<lparr>io_msgs := msgs, io_sent := io_sent i @ [f], io_reader_sem := io_reader_sem i + 1\<rparr>"
      "execute_request h s cid u m w = Inr (reply, w')"
      "pack_frame function_reply_size function_reply_serialize reply = Inr f"
  | (queued) m msgs buf where "io_msgs i = m # msgs" "b" "\<not> no_requests i"
      "i' = i\<lparr>io_msgs := msgs, io_wqueue := io_wqueue i @ [buf], io_reader_sem := io_reader_sem i + 1\<rparr>"
  | (failed) m msgs where "io_msgs i = m # msgs" "\<not> b" "i' = i\<lparr>io_msgs := msgs\<rparr>"
proof (cases "io_msgs i")
  case Nil
  then show thesis using assms by (simp add: instance_osx_serve_def)
next
  case (Cons m msgs)
  let ?i = "i\<lparr>io_msgs := msgs\<rparr>"
  obtain reply w1 where reply: "execute_request h s cid u m w = Inr (reply, w1)"
      "(case function_reply_serialize reply (replicate (function_reply_size reply + 8) (CHR 0x00)) 8 of
         Inl Bad_Access \<Rightarrow> Inl Bad_Access | Inl Abort \<Rightarrow> Inl Abort | Inl (Exception _) \<Rightarrow> Inr (False, ?i, w1)
       | Inr (write_buffer, _) \<Rightarrow> rbind (instance_osx_msg_write write_buffer ?i) (\<lambda>i.
           Inr (True, i\<lparr>io_reader_sem := io_reader_sem i + 1\<rparr>, w1))) = Inr (b, i', w')"
    using assms by (auto simp: instance_osx_serve_def Cons Let_def rbind_eq_Inr_iff)
  show thesis
  proof (cases "function_reply_serialize reply (replicate (function_reply_size reply + 8) (CHR 0x00)) 8")
    case (Inl e)
    then show thesis using reply(2) failed [OF Cons] by (auto split: fault.splits)
  next
    case (Inr bn)
    then obtain buf n where buf: "function_reply_serialize reply (replicate (function_reply_size reply + 8) (CHR 0x00)) 8 = Inr (buf, n)"
      by (cases bn) auto
    then obtain i2 where i2: "instance_osx_msg_write buf ?i = Inr i2" "b" "w' = w1"
        "i' = i2\<lparr>io_reader_sem := io_reader_sem i2 + 1\<rparr>"
      using reply(2) by (auto simp: rbind_eq_Inr_iff)
    from i2(1) serialized_length [OF buf] show thesis
    proof (cases rule: msg_write_cases)
      case (sent f)
      then show thesis using served [OF Cons i2(2), of f reply] reply(1) i2(3,4) buf by (simp add: pack_frame_def)
    next
      case queued
      then show thesis using that(2) [OF Cons i2(2), of buf] i2(4) by (simp add: no_requests_def)
    qed
  qed
qed

section \<open>Invariants\<close>

text \<open>One turn at most, whatever the client sends.\<close>

lemma turns_step:
  "io_step short junk u h s c c' \<Longrightarrow> turns (fst c) \<le> 1 \<Longrightarrow> turns (fst c') \<le> 1"
proof (induction rule: io_step.induct)
  case (req_read i hdr ec body i' w)
  from req_read(4) show ?case
    by (cases rule: io_read_init_cases) (use req_read(1,5) in \<open>auto simp: turns_def split: if_splits\<close>)
next
  case (rep_serve i w b i' w')
  from rep_serve(2) show ?case
    by (cases rule: serve_cases) (use rep_serve(1,3) in \<open>auto simp: turns_def split: if_splits\<close>)
qed (auto simp: turns_def split: if_splits)

text \<open>
  With frames of a proper length only: there is a message whenever the writer has the turn, and never
  more than one; one may be left over when the turn has been lost.
\<close>

definition queue_inv :: "instance_osx \<times> 'w \<Rightarrow> bool" where
  "queue_inv = (\<lambda>(i, w). turns i \<le> 1 \<and>
     (io_rep i = Rep_Serve \<or> 0 < io_writer_sem i \<longrightarrow> io_msgs i \<noteq> []) \<and>
     (io_msgs i \<noteq> [] \<longrightarrow> io_rep i = Rep_Serve \<or> 0 < io_writer_sem i \<or> turns i = 0) \<and>
     length (io_msgs i) \<le> 1)"

lemma queue_inv_step: "io_step False junk u h s c c' \<Longrightarrow> queue_inv c \<Longrightarrow> queue_inv c'"
proof (induction rule: io_step.induct)
  case (req_read i hdr ec body i' w)
  have idle: "io_reader_sem i = 0" "io_writer_sem i = 0" "io_rep i \<noteq> Rep_Serve"
    using req_read(1,5) by (auto simp: queue_inv_def turns_def split: if_splits)
  from req_read(4) show ?case
  proof (cases rule: io_read_init_cases)
    case (message m k bs)
    then show ?thesis using req_read(1,5) idle by (auto simp: queue_inv_def turns_def split: if_splits)
  next
    case (none r)
    then show ?thesis using req_read(1,5) idle by (auto simp: queue_inv_def turns_def split: if_splits)
  next
    case (short n)
    then show ?thesis using req_read(3) by auto
  qed
next
  case (rep_serve i w b i' w')
  from rep_serve(2) show ?case
    by (cases rule: serve_cases) (use rep_serve(1,3) in \<open>auto simp: queue_inv_def turns_def split: if_splits\<close>)
qed (auto simp: queue_inv_def turns_def split: if_splits)

text \<open>Without the turn no thread moves any more.\<close>

lemma stuck_step:
  "io_step short junk u h s c c' \<Longrightarrow> turns (fst c) = 0 \<and> io_sent (fst c) = sent \<Longrightarrow>
   turns (fst c') = 0 \<and> io_sent (fst c') = sent"
  by (induction rule: io_step.induct) (auto simp: turns_def split: if_splits)

definition osx_start :: "'w \<Rightarrow> instance_osx \<times> 'w \<Rightarrow> bool" where
  "osx_start w0 c \<longleftrightarrow> c = (instance_osx_make, w0)"

interpretation turn: state_machine "osx_start w0" "io_step short junk u h s" "\<lambda>c. turns (fst c) \<le> 1"
  for w0 short junk u h s
  by unfold_locales (auto simp: osx_start_def turns_def instance_osx_make_def dest: turns_step)

interpretation queue: state_machine "osx_start w0" "io_step False junk u h s" queue_inv
  for w0 junk u h s
  by unfold_locales (auto simp: osx_start_def queue_inv_def turns_def instance_osx_make_def dest: queue_inv_step)

interpretation stuck: state_machine "\<lambda>c. turns (fst c) = 0 \<and> io_sent (fst c) = sent" "io_step short junk u h s"
  "\<lambda>c. turns (fst c) = 0 \<and> io_sent (fst c) = sent"
  for sent short junk u h s
  by unfold_locales (assumption, erule stuck_step)

section \<open>Properties\<close>

text \<open>Turn taking on macOS. In every state a server instance reaches while all frames have a body of
  more than one byte, whatever the bytes and however the two threads interleave: the reading and the
  writing thread never work at the same time, at most one message is queued, and the writing thread
  never takes a message from an empty queue.\<close>

theorem osx_instance_turns:
  assumes "(io_step False junk u h s)\<^sup>*\<^sup>* (instance_osx_make, w0) (i, w)"
  shows "\<not> (io_req i = Req_Read \<and> io_rep i = Rep_Serve) \<and> length (io_msgs i) \<le> 1 \<and>
    (io_rep i = Rep_Serve \<longrightarrow> io_msgs i \<noteq> [])"
  using queue.reachable_inv [OF _ assms, of w0]
  by (auto simp: osx_start_def queue_inv_def turns_def)

theorem osx_instance_turns_witness:
  "length (io_msgs (instance_osx_make\<lparr>io_reader_sem := 0, io_req := Req_Read\<rparr>)) \<le> 1"
proof -
  have "io_step False (\<lambda>_. 0) 0 (\<lambda>_. None) server_make (instance_osx_make, 7 :: nat)
      (instance_osx_make\<lparr>io_reader_sem := io_reader_sem instance_osx_make - 1, io_req := Req_Read\<rparr>, 7)"
    by (rule io_step.req_wait) (simp_all add: instance_osx_make_def)
  then have "(io_step False (\<lambda>_. 0) 0 (\<lambda>_. None) server_make)\<^sup>*\<^sup>* (instance_osx_make, 7 :: nat)
      (instance_osx_make\<lparr>io_reader_sem := io_reader_sem instance_osx_make - 1, io_req := Req_Read\<rparr>, 7)"
    by (rule r_into_rtranclp)
  from osx_instance_turns [OF this] show ?thesis by (simp add: instance_osx_make_def)
qed

text \<open>C31. A client can make a running macOS instance access an empty queue: from the start, one frame whose
  header announces a body of no bytes leads to a state in which the instance has not been stopped and its
  writing thread takes the front of a queue that is empty.\<close>

theorem osx_short_frame_crash:
  "\<exists>i. (io_step True junk u h s)\<^sup>*\<^sup>* (instance_osx_make, w0) (i, w0) \<and> \<not> io_stop i \<and> io_rep i = Rep_Serve \<and>
     instance_osx_serve u h s 0 (i, w0) = Inl Bad_Access"
proof -
  let ?hdr = "replicate 8 (CHR 0x00)"
  let ?i1 = "instance_osx_make\<lparr>io_reader_sem := io_reader_sem instance_osx_make - 1, io_req := Req_Read\<rparr>"
  let ?i2 = "?i1\<lparr>io_rbuf := ?hdr, io_writer_sem := 1\<rparr>"
  let ?i3 = "?i2\<lparr>io_req := Req_Wait\<rparr>"
  let ?i4 = "?i3\<lparr>io_writer_sem := 0, io_rep := Rep_Serve\<rparr>"
  have size: "read_size ?hdr = Inr 0"
    by (simp add: read_size_def peek_def u32_of_bytes_def numeral_eq_Suc)
  have "io_step True junk u h s (instance_osx_make, w0) (?i1, w0)"
    by (rule io_step.req_wait) (simp_all add: instance_osx_make_def)
  moreover have "io_step True junk u h s (?i1, w0) (?i2\<lparr>io_req := (if goes_on ?i2 then Req_Wait else Req_Exit)\<rparr>, w0)"
    by (rule io_step.req_read [where hdr = ?hdr and ec = E_Success and body = "\<lambda>_. []"])
      (simp_all add: instance_osx_read_init_def size instance_osx_make_def)
  then have "io_step True junk u h s (?i1, w0) (?i3, w0)"
    by (simp add: goes_on_def instance_osx_make_def)
  moreover have "io_step True junk u h s (?i3, w0)
      (?i3\<lparr>io_writer_sem := io_writer_sem ?i3 - 1, io_rep := (if io_stop ?i3 then Rep_Exit else Rep_Serve)\<rparr>, w0)"
    by (rule io_step.rep_wait) (simp_all add: instance_osx_make_def)
  then have "io_step True junk u h s (?i3, w0) (?i4, w0)" by (simp add: instance_osx_make_def)
  ultimately have "(io_step True junk u h s)\<^sup>*\<^sup>* (instance_osx_make, w0) (?i4, w0)"
    by (meson rtranclp.rtrancl_into_rtrancl rtranclp.rtrancl_refl)
  then show ?thesis
    by (intro exI [of _ ?i4]) (simp add: instance_osx_serve_def instance_osx_make_def)
qed

text \<open>C32. One failed read stops a macOS instance for good: when the read of a header in a reachable state
  reports anything but success or more data, the turn is lost, and from the next state on, whatever
  happens, no reply is written any more and neither thread ever runs again past its semaphore.\<close>

theorem osx_failed_read_stuck:
  assumes "(io_step short junk u h s)\<^sup>*\<^sup>* (instance_osx_make, w0) (i, w)" and "io_req i = Req_Read"
    and "ec \<noteq> E_Success" and "ec \<noteq> E_MoreData" and "length hdr = 8" and "short \<or> (\<exists>n. read_size hdr = Inr n \<and> 1 < n)"
  shows "\<exists>i'. instance_osx_read_init junk u ec body (i\<lparr>io_rbuf := hdr\<rparr>) = Inr (i\<lparr>io_rbuf := hdr\<rparr>) \<and>
    io_step short junk u h s (i, w) (i', w) \<and>
    (\<forall>i'' w''. (io_step short junk u h s)\<^sup>*\<^sup>* (i', w) (i'', w'') \<longrightarrow>
       io_sent i'' = io_sent i \<and> io_reader_sem i'' = 0 \<and> io_writer_sem i'' = 0 \<and>
       io_req i'' \<noteq> Req_Read \<and> io_rep i'' \<noteq> Rep_Serve)"
proof -
  let ?i = "i\<lparr>io_rbuf := hdr\<rparr>"
  let ?i' = "?i\<lparr>io_req := (if goes_on ?i then Req_Wait else Req_Exit)\<rparr>"
  have read: "instance_osx_read_init junk u ec body ?i = Inr ?i"
    using assms(3,4) by (simp add: instance_osx_read_init_def)
  have "turns i \<le> 1" using turn.reachable_inv [OF _ assms(1), of w0] by (simp add: osx_start_def)
  then have stuck: "turns ?i' = 0 \<and> io_sent ?i' = io_sent i"
    using assms(2) by (auto simp: turns_def split: if_splits)
  have "io_step short junk u h s (i, w) (?i', w)"
    by (rule io_step.req_read [where hdr = hdr and ec = ec and body = body]) (use assms(2,5,6) read in auto)
  moreover have "io_sent i'' = io_sent i \<and> io_reader_sem i'' = 0 \<and> io_writer_sem i'' = 0 \<and>
       io_req i'' \<noteq> Req_Read \<and> io_rep i'' \<noteq> Rep_Serve"
    if "(io_step short junk u h s)\<^sup>*\<^sup>* (?i', w) (i'', w'')" for i'' w''
    using stuck.inv_steps [OF that, of "io_sent i"] stuck by (auto simp: turns_def split: if_splits)
  ultimately show ?thesis using read by blast
qed

theorem osx_failed_read_stuck_witness:
  "\<exists>i'. io_step True (\<lambda>_. 0) 0 (\<lambda>_. None) (server_make :: nat server)
      (instance_osx_make\<lparr>io_reader_sem := 0, io_req := Req_Read\<rparr>, 7) (i', 7) \<and>
    (\<forall>i'' w''. (io_step True (\<lambda>_. 0) 0 (\<lambda>_. None) (server_make :: nat server))\<^sup>*\<^sup>* (i', 7) (i'', w'') \<longrightarrow> io_sent i'' = [])"
proof -
  let ?i = "instance_osx_make\<lparr>io_reader_sem := 0, io_req := Req_Read\<rparr>"
  have "io_step True (\<lambda>_. 0) 0 (\<lambda>_. None) (server_make :: nat server) (instance_osx_make, 7)
      (instance_osx_make\<lparr>io_reader_sem := io_reader_sem instance_osx_make - 1, io_req := Req_Read\<rparr>, 7)"
    by (rule io_step.req_wait) (simp_all add: instance_osx_make_def)
  then have 1: "(io_step True (\<lambda>_. 0) 0 (\<lambda>_. None) (server_make :: nat server))\<^sup>*\<^sup>* (instance_osx_make, 7) (?i, 7)"
    by (simp add: instance_osx_make_def r_into_rtranclp)
  have 2: "io_req ?i = Req_Read" "E_Error \<noteq> E_Success" "E_Error \<noteq> E_MoreData" "length (replicate 8 (CHR 0x00)) = 8"
    "True \<or> (\<exists>n. read_size (replicate 8 (CHR 0x00)) = Inr n \<and> 1 < n)"
    by simp_all
  from osx_failed_read_stuck [OF 1 2, of "\<lambda>_. []"] show ?thesis by (auto simp: instance_osx_make_def)
qed

text \<open>C33. A request of fewer than eight bytes, or whose first eight bytes, read as a size, are more than it has, ends
  the server's process: the callback of its read does not throw the exception the loop would catch but aborts,
  in every state of the instance.\<close>

theorem osx_malformed_request_aborts:
  assumes "length (io_rbuf i) < 2 ^ 64"
    and "length (io_rbuf i) < 8 \<or> length (io_rbuf i) < unat (u64_of_bytes (take 8 (io_rbuf i)))"
  shows "instance_osx_read_msg junk u i = Inl Abort"
proof (cases "length (io_rbuf i) < 8")
  case True
  then show ?thesis
    using assms(1) by (simp add: instance_osx_read_msg_def function_call_deserialize_def size_sub_le)
next
  case False
  then show ?thesis
    using assms by (simp add: instance_osx_read_msg_def function_call_deserialize_def size_sub_le peek_def)
qed

theorem osx_malformed_request_aborts_witness:
  "instance_osx_read_msg (\<lambda>_. 0) 0 (instance_osx_make\<lparr>io_rbuf := ''ab''\<rparr>) = Inl Abort"
  by (rule osx_malformed_request_aborts) simp_all

text \<open>Destroying a macOS instance writes past the end of the one-byte buffer of its wake-up frame.\<close>

theorem osx_destructor_overflow: "instance_osx_destroy i = Inl Bad_Access"
  by (simp add: instance_osx_destroy_def make_sendable_short)

end
