(* ===== verification/Serial_Osx.thy ===== *)
theory Serial_Osx
  imports Instance_Osx
begin

text \<open>
  The macOS server instance refines the serial server of \<open>Serial_Server\<close>: its two threads, the queue and
  the semaphores between them answer the requests one after the other.
\<close>

section \<open>The instance is a serial server\<close>

text \<open>
  The requests served are the first ones read, as many as there are answers. The messages in the queue are
  those of the bodies that follow, until the writing thread has left its loop.
\<close>

definition waiting_for :: "(nat \<Rightarrow> u64) \<Rightarrow> u64 \<Rightarrow> buffer list \<Rightarrow> function_call list \<Rightarrow> bool" where
  "waiting_for junk u = list_all2 (\<lambda>bs m. \<exists>k. function_call_deserialize junk (function_call_init u u) bs 0 = Inr (m, k))"

definition serial_inv :: "(nat \<Rightarrow> u64) \<Rightarrow> u64 \<Rightarrow> instance_osx \<times> 'w \<Rightarrow> bool" where
  "serial_inv junk u = (\<lambda>(i, w). no_requests i \<and> length (io_sent i) \<le> length (io_bodies i) \<and>
     (io_rep i \<noteq> Rep_Exit \<longrightarrow> waiting_for junk u (drop (length (io_sent i)) (io_bodies i)) (io_msgs i)))"

definition io_served :: "instance_osx \<times> 'w \<Rightarrow> buffer list" where
  "io_served = (\<lambda>(i, w). take (length (io_sent i)) (io_bodies i))"

lemma waiting_snoc:
  "waiting_for junk u bss ms \<Longrightarrow> function_call_deserialize junk (function_call_init u u) bs 0 = Inr (m, k) \<Longrightarrow>
   waiting_for junk u (bss @ [bs]) (ms @ [m])"
  by (auto simp: waiting_for_def intro: list_all2_appendI)

text \<open>Reading does not touch the answers; a message that was read waits for its turn.\<close>

lemma serial_read:
  assumes "instance_osx_read_init junk u ec body i = Inr i'" and "serial_inv junk u (i, w)"
  shows "serial_inv junk u (i', w)" and "io_sent i' = io_sent i" and "io_rep i' = io_rep i"
    and "io_served (i', w) = io_served (i, w)"
proof -
  have "serial_inv junk u (i', w) \<and> io_sent i' = io_sent i \<and> io_rep i' = io_rep i \<and> io_served (i', w) = io_served (i, w)"
    using assms(1)
  proof (cases rule: io_read_init_cases)
    case (message m k bs)
    then show ?thesis
      using assms(2) waiting_snoc [OF _ message(2)] by (auto simp: serial_inv_def io_served_def no_requests_def)
  qed (use assms(2) in \<open>auto simp: serial_inv_def io_served_def no_requests_def\<close>)
  then show "serial_inv junk u (i', w)" "io_sent i' = io_sent i" "io_rep i' = io_rep i"
    "io_served (i', w) = io_served (i, w)"
    by blast+
qed

text \<open>Serving answers the next request.\<close>

lemma serial_serve:
  assumes "instance_osx_serve u h s 0 (i, w) = Inr (b, i', w')" and "serial_inv junk u (i, w)" and "io_rep i = Rep_Serve"
  obtains (served) body f where "b" and "serve_body junk u h s 0 body w = Inr (f, w')"
      and "io_served (i', w') = io_served (i, w) @ [body]" and "io_sent i' = io_sent i @ [f]"
      and "serial_inv junk u (i', w')" and "io_rep i' = io_rep i"
  | (failed) "\<not> b" and "io_served (i', w') = io_served (i, w)" and "io_sent i' = io_sent i"
      and "no_requests i'" and "io_bodies i' = io_bodies i"
  using assms(1)
proof (cases rule: serve_cases)
  case (served m msgs reply f)
  let ?n = "length (io_sent i)"
  have "waiting_for junk u (drop ?n (io_bodies i)) (m # msgs)"
    using assms(2,3) served(1) by (simp add: serial_inv_def)
  then obtain body rest k where d: "drop ?n (io_bodies i) = body # rest" "waiting_for junk u rest msgs"
      "function_call_deserialize junk (function_call_init u u) body 0 = Inr (m, k)"
    by (auto simp: waiting_for_def list_all2_Cons2)
  then have n: "?n < length (io_bodies i)" by (metis drop_all list.simps(3) not_less)
  have "io_bodies i ! ?n = body" "drop (Suc ?n) (io_bodies i) = rest"
    using d(1) n by (metis Cons_nth_drop_Suc list.inject, metis drop_Suc list.sel(3) tl_drop)
  then show thesis
    using that(1) [of body f] served d(2,3) n assms(2)
    by (auto simp: serve_body_def io_served_def serial_inv_def no_requests_def take_Suc_conv_app_nth)
next
  case (queued m msgs buf)
  then show thesis using assms(2) by (simp add: serial_inv_def)
next
  case (failed m msgs)
  then show thesis using that(2) assms(2) by (simp add: serial_inv_def io_served_def no_requests_def)
qed

lemma serial_inv_step: "io_step short junk u h s c c' \<Longrightarrow> serial_inv junk u c \<Longrightarrow> serial_inv junk u c'"
proof (induction rule: io_step.induct)
  case (req_read i hdr ec body i' w)
  then have "serial_inv junk u (i\<lparr>io_rbuf := hdr\<rparr>, w)" by (simp add: serial_inv_def no_requests_def)
  from serial_read(1) [OF req_read(4) this] show ?case by (simp add: serial_inv_def no_requests_def)
next
  case (rep_serve i w b i' w')
  from rep_serve(2,3,1) show ?case
    by (cases rule: serial_serve) (use rep_serve(1,3) in \<open>auto simp: serial_inv_def no_requests_def\<close>)
qed (auto simp: serial_inv_def no_requests_def)

lemma serial_step:
  "io_step short junk u h s c c' \<Longrightarrow> serial_inv junk u c \<Longrightarrow>
   io_served c' = io_served c \<and> io_sent (fst c') = io_sent (fst c) \<and>
     (io_rep (fst c') \<noteq> Rep_Exit \<longrightarrow> io_rep (fst c) \<noteq> Rep_Exit \<and> snd c' = snd c) \<or>
   io_rep (fst c) \<noteq> Rep_Exit \<and> (\<exists>body frame. serve_body junk u h s 0 body (snd c) = Inr (frame, snd c') \<and>
     io_served c' = io_served c @ [body] \<and> io_sent (fst c') = io_sent (fst c) @ [frame])"
proof (induction rule: io_step.induct)
  case (req_read i hdr ec body i' w)
  then have "serial_inv junk u (i\<lparr>io_rbuf := hdr\<rparr>, w)" by (simp add: serial_inv_def no_requests_def)
  from serial_read [OF req_read(4) this] show ?case by (simp add: io_served_def)
next
  case (rep_serve i w b i' w')
  from rep_serve(2,3,1) show ?case
    by (cases rule: serial_serve) (use rep_serve(1) in \<open>auto simp: io_served_def\<close>)
qed (auto simp: io_served_def)

interpretation io_serial: serial_server "osx_start w0" "io_step short junk u h s" "serial_inv junk u"
  "serve_body junk u h s 0" io_served "\<lambda>c. io_sent (fst c)" snd "\<lambda>c. io_rep (fst c) \<noteq> Rep_Exit" w0
  for w0 short junk u h s
proof
  fix c c' :: "instance_osx \<times> 'a"
  show "osx_start w0 c \<Longrightarrow> serial_inv junk u c"
    by (simp add: osx_start_def serial_inv_def no_requests_def waiting_for_def instance_osx_make_def)
  show "osx_start w0 c \<Longrightarrow> io_served c = [] \<and> io_sent (fst c) = [] \<and> snd c = w0"
    by (simp add: osx_start_def io_served_def instance_osx_make_def)
qed (fact serial_inv_step serial_step)+

section \<open>Getting through requests\<close>

text \<open>The state between two requests, and the four steps that lead from one such state to the next.\<close>

definition io_ready :: "instance_osx \<Rightarrow> bool" where
  "io_ready i \<longleftrightarrow> goes_on i \<and> no_requests i \<and> io_req i = Req_Wait \<and> io_rep i = Rep_Wait \<and>
     io_reader_sem i = 1 \<and> io_writer_sem i = 0 \<and> io_msgs i = []"

text \<open>Steps in which every header that is read is followed by a message.\<close>

definition gets_message :: "instance_osx \<Rightarrow> instance_osx \<Rightarrow> bool" where
  "gets_message i i' \<longleftrightarrow> (io_req i = Req_Read \<and> io_req i' \<noteq> Req_Read \<longrightarrow> io_bodies i' \<noteq> io_bodies i)"

definition io_fed ::
  "bool \<Rightarrow> (nat \<Rightarrow> u64) \<Rightarrow> u64 \<Rightarrow> 'w heap \<Rightarrow> 'w server \<Rightarrow> instance_osx \<times> 'w \<Rightarrow> instance_osx \<times> 'w \<Rightarrow> bool"
where
  "io_fed short junk u h s k k' \<longleftrightarrow> io_step short junk u h s k k' \<and> gets_message (fst k) (fst k')"

lemma io_fed_run: "(io_fed short junk u h s)\<^sup>*\<^sup>* k k' \<Longrightarrow> (io_step short junk u h s)\<^sup>*\<^sup>* k k'"
  by (erule mono_rtranclp [rule_format, rotated]) (simp add: io_fed_def)

lemma io_reads_one:
  assumes "io_ready i" and "frame_cut hdr body" and "length hdr = 8" and "1 < length body"
    and "function_call_deserialize junk (function_call_init u u) body 0 = Inr (m, k)"
  shows "(io_fed short junk u h s)\<^sup>*\<^sup>* (i, w) (i\<lparr>io_reader_sem := 0, io_rbuf := [], io_msgs := [m],
    io_bodies := io_bodies i @ [body], io_rep := Rep_Serve\<rparr>, w)"
proof -
  let ?i1 = "i\<lparr>io_reader_sem := io_reader_sem i - 1, io_req := Req_Read\<rparr>"
  let ?i2 = "?i1\<lparr>io_rbuf := [], io_msgs := [m], io_writer_sem := 1, io_bodies := io_bodies i @ [body]\<rparr>"
  have 1: "io_step short junk u h s (i, w) (?i1, w)"
    by (rule io_step.req_wait) (use assms(1) in \<open>simp_all add: io_ready_def\<close>)
  have read: "instance_osx_read_init junk u E_Success (\<lambda>_. body) (?i1\<lparr>io_rbuf := hdr\<rparr>) = Inr ?i2"
    using assms by (simp add: instance_osx_read_init_def frame_cut_def instance_osx_read_msg_def io_ready_def resize_bytes_def)
  have 2: "io_step short junk u h s (?i1, w) (?i2\<lparr>io_req := (if goes_on ?i2 then Req_Wait else Req_Exit)\<rparr>, w)"
    by (rule io_step.req_read [OF _ assms(3) _ read]) (use assms(2,4) in \<open>simp_all add: frame_cut_def\<close>)
  let ?i3 = "?i2\<lparr>io_req := (if goes_on ?i2 then Req_Wait else Req_Exit)\<rparr>"
  have 3: "io_step short junk u h s (?i3, w)
      (?i3\<lparr>io_writer_sem := io_writer_sem ?i3 - 1, io_rep := (if io_stop ?i3 then Rep_Exit else Rep_Serve)\<rparr>, w)"
    by (rule io_step.rep_wait) (use assms(1) in \<open>simp_all add: io_ready_def\<close>)
  have "?i3\<lparr>io_writer_sem := io_writer_sem ?i3 - 1, io_rep := (if io_stop ?i3 then Rep_Exit else Rep_Serve)\<rparr> =
      i\<lparr>io_reader_sem := 0, io_rbuf := [], io_msgs := [m], io_bodies := io_bodies i @ [body], io_rep := Rep_Serve\<rparr>"
    using assms(1) by (simp add: io_ready_def goes_on_def)
  moreover have "io_fed short junk u h s (i, w) (?i1, w)" "io_fed short junk u h s (?i1, w) (?i3, w)"
    using 1 2 by (simp_all add: io_fed_def gets_message_def)
  moreover have "io_fed short junk u h s (?i3, w)
      (?i3\<lparr>io_writer_sem := io_writer_sem ?i3 - 1, io_rep := (if io_stop ?i3 then Rep_Exit else Rep_Serve)\<rparr>, w)"
    using 3 by (simp add: io_fed_def gets_message_def)
  ultimately show ?thesis by (metis (no_types, lifting) rtranclp.rtrancl_into_rtrancl r_into_rtranclp)
qed

lemma io_serves_one:
  assumes "io_ready i" and "frame_cut hdr body" and "length hdr = 8" and "1 < length body"
    and "serve_body junk u h s 0 body w = Inr (f, w')"
  shows "\<exists>i'. (io_fed short junk u h s)\<^sup>*\<^sup>* (i, w) (i', w') \<and> io_ready i' \<and>
    io_bodies i' = io_bodies i @ [body] \<and> io_sent i' = io_sent i @ [f]"
proof -
  obtain m k reply buf n where m: "function_call_deserialize junk (function_call_init u u) body 0 = Inr (m, k)"
      "execute_request h s 0 u m w = Inr (reply, w')"
      "function_reply_serialize reply (replicate (function_reply_size reply + 8) (CHR 0x00)) 8 = Inr (buf, n)"
      "make_sendable buf = Inr f"
    using assms(5) by (auto simp: serve_body_def pack_frame_def rbind_eq_Inr_iff)
  let ?i = "i\<lparr>io_reader_sem := 0, io_rbuf := [], io_msgs := [m], io_bodies := io_bodies i @ [body], io_rep := Rep_Serve\<rparr>"
  let ?i' = "?i\<lparr>io_msgs := [], io_sent := io_sent i @ [f], io_reader_sem := 1\<rparr>"
  have "buf \<noteq> []" using serialized_length [OF m(3)] by auto
  then have "instance_osx_serve u h s 0 (?i, w) = Inr (True, ?i', w')"
    using m assms(1) by (simp add: instance_osx_serve_def instance_osx_msg_write_def io_ready_def no_requests_def)
  from io_step.rep_serve [OF _ this, of short junk]
  have "io_fed short junk u h s (?i, w) (?i'\<lparr>io_rep := Rep_Wait\<rparr>, w')"
    using assms(1) by (simp add: io_ready_def goes_on_def io_fed_def gets_message_def)
  with io_reads_one [OF assms(1-4) m(1), of short h s w]
  have "(io_fed short junk u h s)\<^sup>*\<^sup>* (i, w) (?i'\<lparr>io_rep := Rep_Wait\<rparr>, w')"
    by (rule rtranclp.rtrancl_into_rtrancl)
  moreover have "io_ready (?i'\<lparr>io_rep := Rep_Wait\<rparr>)"
    using assms(1) by (simp add: io_ready_def goes_on_def no_requests_def)
  ultimately show ?thesis by (intro exI [of _ "?i'\<lparr>io_rep := Rep_Wait\<rparr>"]) simp
qed

lemma io_serves_all:
  assumes "io_ready i" and "list_all (\<lambda>body. 1 < length body \<and> (\<exists>hdr. frame_cut hdr body \<and> length hdr = 8)) bodies"
    and "serve_all (serve_body junk u h s 0) bodies w = Inr (frames, w')"
  shows "\<exists>i'. (io_step short junk u h s)\<^sup>*\<^sup>* (i, w) (i', w') \<and> io_ready i' \<and>
    io_bodies i' = io_bodies i @ bodies \<and> io_sent i' = io_sent i @ frames"
  using assms
proof (induction bodies arbitrary: i w frames)
  case (Cons body bodies)
  obtain hdr f w1 fs where f: "frame_cut hdr body" "length hdr = 8" "1 < length body"
      "serve_body junk u h s 0 body w = Inr (f, w1)"
      "serve_all (serve_body junk u h s 0) bodies w1 = Inr (fs, w')" "frames = f # fs"
    using Cons.prems(2,3) by (auto simp: rbind_eq_Inr_iff)
  obtain i1 where i1: "(io_step short junk u h s)\<^sup>*\<^sup>* (i, w) (i1, w1)" "io_ready i1"
      "io_bodies i1 = io_bodies i @ [body]" "io_sent i1 = io_sent i @ [f]"
    using io_serves_one [OF Cons.prems(1) f(1-4)] io_fed_run by blast
  obtain i2 where "(io_step short junk u h s)\<^sup>*\<^sup>* (i1, w1) (i2, w')" "io_ready i2"
      "io_bodies i2 = io_bodies i1 @ bodies" "io_sent i2 = io_sent i1 @ fs"
    using Cons.IH [OF i1(2) _ f(5)] Cons.prems(2) by auto
  then show ?case using i1 f(6) rtranclp_trans [OF i1(1)] by auto
qed auto

lemma io_call_bodies:
  assumes "list_all proper_call ms"
  shows "list_all (\<lambda>body. 1 < length body \<and> (\<exists>hdr. frame_cut hdr body \<and> length hdr = 8)) (map call_wire ms)"
proof -
  have "1 < length (call_wire m) \<and> (\<exists>hdr. frame_cut hdr (call_wire m) \<and> length hdr = 8)" if "proper_call m" for m
    by (intro conjI exI, simp add: length_call_wire function_call_size_def, rule frame_cut_call [OF that])
      (simp add: frame_image_def)
  then show ?thesis using assms by (auto simp: list_all_iff)
qed

lemma osx_instance_run:
  assumes "list_all proper_call ms"
    and "serve_all (serve_body junk u h s 0) (map call_wire ms) w0 = Inr (frames, w')"
  shows "\<exists>i. (io_step short junk u h s)\<^sup>*\<^sup>* (instance_osx_make, w0) (i, w') \<and> io_ready i \<and>
    io_bodies i = map call_wire ms \<and> io_sent i = frames"
proof -
  have "io_ready instance_osx_make"
    by (simp add: io_ready_def goes_on_def no_requests_def instance_osx_make_def)
  from io_serves_all [OF this io_call_bodies [OF assms(1)] assms(2)] show ?thesis
    by (simp add: instance_osx_make_def)
qed

lemma counting_run_osx:
  "\<exists>i. (io_step False (\<lambda>_. 0) 0 [0 \<mapsto> counting_collection] counting_server)\<^sup>*\<^sup>* (instance_osx_make, 5) (i, 6) \<and>
    io_ready i \<and> io_bodies i = map call_wire [counting_call 1] \<and> length (io_sent i) = 1"
proof -
  obtain frames where "serve_all (serve_body (\<lambda>_. 0) 0 [0 \<mapsto> counting_collection] counting_server 0)
      (map call_wire [counting_call 1]) 5 = Inr (frames, 6)"
    using counting_served by blast
  with osx_instance_run [OF counting_proper_list this] serve_all_length [OF this] show ?thesis by auto
qed

section \<open>Properties\<close>

text \<open>C7. A macOS instance is a serial server. In every state its two threads can reach, with any answers of the
  pipes and any bytes from the client: the frames written are exactly those a loop computes that decodes,
  executes, encodes and frames one request after the other, in the order the messages were read, and
  the state of the application is the one the loop leaves, as long as the writing thread is in its loop. No
  reply ever waits in the write queue.\<close>

theorem osx_instance_refines_serial:
  assumes "(io_step short junk u h s)\<^sup>*\<^sup>* (instance_osx_make, w0) (i, w)"
  shows "\<exists>w1. serve_all (serve_body junk u h s 0) (take (length (io_sent i)) (io_bodies i)) w0 = Inr (io_sent i, w1) \<and>
    (io_rep i \<noteq> Rep_Exit \<longrightarrow> w1 = w \<and> length (io_bodies i) = length (io_sent i) + length (io_msgs i)) \<and> io_wqueue i = []"
proof -
  have start: "osx_start w0 (instance_osx_make, w0)" by (simp add: osx_start_def)
  have "serial_inv junk u (i, w)" by (rule io_serial.reachable_inv [OF start assms])
  then have inv: "length (io_sent i) \<le> length (io_bodies i)" "io_wqueue i = []"
    "io_rep i \<noteq> Rep_Exit \<longrightarrow> length (io_bodies i) - length (io_sent i) = length (io_msgs i)"
    by (auto simp: serial_inv_def no_requests_def waiting_for_def dest: list_all2_lengthD)
  with io_serial.serial_steps [OF assms start] show ?thesis by (auto simp: io_served_def)
qed

theorem osx_instance_refines_serial_witness:
  "\<exists>frames. serve_all (serve_body (\<lambda>_. 0) 0 [0 \<mapsto> counting_collection] counting_server 0)
     [call_wire (counting_call 1)] 5 = Inr (frames, 6)"
proof -
  obtain i where i: "(io_step False (\<lambda>_. 0) 0 [0 \<mapsto> counting_collection] counting_server)\<^sup>*\<^sup>* (instance_osx_make, 5) (i, 6)"
    "io_ready i" "io_bodies i = map call_wire [counting_call 1]" "length (io_sent i) = 1"
    using counting_run_osx by blast
  from osx_instance_refines_serial [OF i(1)] i(2-4) show ?thesis by (auto simp: io_ready_def)
qed

text \<open>A macOS instance gets through any sequence of calls: from the start there is a run of the two threads
  that executes the calls in their order on the table and writes the frames of all their replies, those the
  table asks for, and after which the instance is ready for the next request.\<close>

theorem osx_instance_serves_calls:
  assumes "classes_ok h s" and "heap_ok h" and "list_all proper_call ms" and "replies_fit h s 0 u ms"
  shows "\<exists>i ms' replies. (io_step short junk u h s)\<^sup>*\<^sup>* (instance_osx_make, w0)
      (i, snd (run_calls (table_answer h s 0) ms' w0)) \<and> io_ready i \<and> io_bodies i = map call_wire ms \<and>
    map call_content ms' = map call_content ms \<and>
    replies_asked ms (fst (run_calls (table_answer h s 0) ms' w0)) replies \<and>
    io_sent i = map (\<lambda>r. frame_image (reply_wire r)) replies"
proof -
  obtain replies where r: "serve_all (serve_body junk u h s 0) (map call_wire ms) w0 =
      Inr (map (\<lambda>r. frame_image (reply_wire r)) replies, snd (run_calls (table_answer h s 0) (map (decoded junk u) ms) w0))"
    "replies_asked ms (fst (run_calls (table_answer h s 0) (map (decoded junk u) ms) w0)) replies"
    by (rule serve_all_answers [OF assms, of junk w0])
  show ?thesis
    using osx_instance_run [OF assms(3) r(1), of short] r(2) decoded_contents [OF assms(3), of junk u] by blast
qed

theorem osx_instance_serves_calls_witness:
  "\<exists>i w. (io_step False (\<lambda>_. 0) 0 [0 \<mapsto> counting_collection] counting_server)\<^sup>*\<^sup>* (instance_osx_make, 5) (i, w) \<and>
     length (io_sent i) = 1"
proof -
  obtain i ms' replies where i: "(io_step False (\<lambda>_. 0) 0 [0 \<mapsto> counting_collection] counting_server)\<^sup>*\<^sup>* (instance_osx_make, 5)
      (i, snd (run_calls (table_answer [0 \<mapsto> counting_collection] counting_server 0) ms' 5))"
    "map call_content ms' = map call_content [counting_call 1]"
    "replies_asked [counting_call 1]
      (fst (run_calls (table_answer [0 \<mapsto> counting_collection] counting_server 0) ms' 5)) replies"
    "io_sent i = map (\<lambda>r. frame_image (reply_wire r)) replies"
    using osx_instance_serves_calls [OF counting_ok counting_proper_list counting_replies_fit, of False "\<lambda>_. 0" 5] by blast
  from counting_reply [OF i(2,3)] i(1,4) show ?thesis by auto
qed

end
