(* ===== verification/System_Osx.thy ===== *)
theory System_Osx
  imports Client_Osx Serial_Osx Call_Answer
begin

text \<open>
  A whole call on macOS: the client's frame, the two threads of the instance, and the reply the client
  reads. The pipes deliver what was written.
\<close>

section \<open>Properties\<close>

text \<open>A synchronous call on macOS returns what the server's handler computes. With the client's semaphore free
  and the instance waiting for a request, for any storable call: the frame the client makes is one that the
  two threads of the instance read, execute and answer in a run that leaves them waiting for the next; with
  that answer the helper returns the values a caller must see for the outcome of the call on the table in
  the present state of the application, which is left as that outcome leaves it; the semaphore, the table of
  callbacks and the stack are as before.\<close>

theorem osx_call_returns:
  assumes "classes_ok h s" and "heap_ok h" and "io_ready i"
    and "co_socket c" and "0 < co_writer_sem c" and "\<not> co_shutting_down c"
    and "map_ok (co_cb c)" and "map_find (co_cb c) (callback_key (timestamp + 1)) = None" and "st data = None"
    and "first_not_error writes = Some e" and "ec = E_Success \<or> ec = E_MoreData"
    and "m = build_call (timestamp + 1) cu cname fname args" and "proper_call m" and "replies_fit h s 0 u [m]"
  shows "\<exists>frame cbid c1 m' oc i' answer vals c'.
    client_osx_begin cu cname fname args (Some sync_callback) data 0 timestamp c = Inr (frame, cbid, timestamp + 1, c1) \<and>
    call_content m' = call_content m \<and> oc = table_answer h s 0 m' w \<and>
    (io_step short junk u h s)\<^sup>*\<^sup>* (i, w) (i', outcome_world w oc) \<and> io_ready i' \<and>
    io_bodies i' = io_bodies i @ [drop 8 frame] \<and> io_sent i' = io_sent i @ [answer] \<and>
    client_osx_sync True cj cu writes ec (take 8 answer) (\<lambda>_. drop 8 answer) cname fname args data timestamp (c, Some st) =
      Some (Inr (vals, timestamp + 1, c', Some st)) \<and>
    outcome_seen cname fname oc vals \<and> co_writer_sem c' = co_writer_sem c \<and> map_find (co_cb c') = map_find (co_cb c)"
proof -
  let ?oc = "table_answer h s 0 (decoded junk u m) w"
  obtain r err where serve: "serve_body junk u h s 0 (call_wire m) w = Inr (frame_image (reply_wire r), outcome_world w ?oc)"
    and err: "reply_for r (timestamp + 1) err" and size: "function_reply_size r < 2 ^ 32"
    and seen: "\<forall>vs. carries r err vs \<longrightarrow> outcome_seen cname fname ?oc vs"
    by (rule call_answered [OF assms(1,2,12-14) refl, of junk w])
  note frame = proper_frame [OF assms(13) [unfolded assms(12)]]
  obtain vals c' where client: "client_osx_sync True cj cu writes ec (reply_frame r) (\<lambda>_. reply_wire r) cname fname args data
      timestamp (c, Some st) = Some (Inr (vals, timestamp + 1, c', Some st))" "carries r err vals"
    "co_writer_sem c' = co_writer_sem c" "map_find (co_cb c') = map_find (co_cb c)"
    using osx_sync_call_round [where h = st and data = data, OF frame assms(4-11) err size, of cj] by blast
  have body: "1 < length (call_wire m)" "length (take 8 (frame_image (call_wire m))) = 8"
    by (simp_all add: length_call_wire function_call_size_def frame_image_def)
  obtain i' where run: "(io_step short junk u h s)\<^sup>*\<^sup>* (i, w) (i', outcome_world w ?oc)" "io_ready i'"
    "io_bodies i' = io_bodies i @ [call_wire m]" "io_sent i' = io_sent i @ [frame_image (reply_wire r)]"
    using io_serves_one [OF assms(3) frame_cut_call [OF assms(13)] body(2,1) serve] io_fed_run by blast
  have sync: "client_osx_sync True cj cu writes ec (take 8 (frame_image (reply_wire r))) (\<lambda>_. drop 8 (frame_image (reply_wire r)))
      cname fname args data timestamp (c, Some st) = Some (Inr (vals, timestamp + 1, c', Some st))"
    using client(1) by (simp add: reply_frame_def)
  have "outcome_seen cname fname ?oc vals" using seen client(2) by blast
  note rest = this client(3,4)
  show ?thesis
    by (intro exI conjI, rule client_osx_begin_frame [OF frame], rule decoded_call(2) [OF assms(13), of junk u], rule refl,
        rule run(1), rule run(2), (simp add: run(3) flip: assms(12)), rule run(4), rule sync, (rule rest)+)
qed

theorem osx_call_returns_witness:
  "\<exists>i' answer vals c'. (io_step False (\<lambda>_. 0) 0 [0 \<mapsto> counting_collection] counting_server)\<^sup>*\<^sup>* (instance_osx_make, 5) (i', 6) \<and>
    io_sent i' = [answer] \<and>
    client_osx_sync True (\<lambda>_. 0) 0 [E_Success] E_Success (take 8 answer) (\<lambda>_. drop 8 answer) ''C'' ''f'' [] 8 0
      (client_osx_make, Some (\<lambda>_. None)) = Some (Inr (vals, 1, c', Some (\<lambda>_. None))) \<and>
    map value_content vals = [Content64 TUInt64 7]"
proof -
  have 1: "co_socket client_osx_make" "0 < co_writer_sem client_osx_make" "\<not> co_shutting_down client_osx_make"
    "map_ok (co_cb client_osx_make)" "map_find (co_cb client_osx_make) (callback_key (0 + 1)) = None"
    "(\<lambda>_. None) 8 = None" "first_not_error [E_Success] = Some E_Success" "E_Success = E_Success \<or> E_Success = E_MoreData"
    by (simp_all add: client_osx_make_def map_ok_def map_find_def)
  have m: "counting_call 1 = build_call (0 + 1) 0 ''C'' ''f'' []" by (simp add: counting_call_def)
  have ready: "io_ready instance_osx_make"
    by (simp add: io_ready_def goes_on_def no_requests_def instance_osx_make_def)
  from osx_call_returns [where st = "\<lambda>_. None" and data = 8 and short = False and junk = "\<lambda>_. 0" and w = 5 and cj = "\<lambda>_. 0",
      OF counting_ok ready 1 m counting_proper counting_replies_fit]
  obtain m' i' answer vals c' where r: "call_content m' = call_content (counting_call 1)"
    "(io_step False (\<lambda>_. 0) 0 [0 \<mapsto> counting_collection] counting_server)\<^sup>*\<^sup>* (instance_osx_make, 5)
      (i', outcome_world 5 (table_answer [0 \<mapsto> counting_collection] counting_server 0 m' 5))"
    "io_sent i' = io_sent instance_osx_make @ [answer]"
    "client_osx_sync True (\<lambda>_. 0) 0 [E_Success] E_Success (take 8 answer) (\<lambda>_. drop 8 answer) ''C'' ''f'' [] 8 0
      (client_osx_make, Some (\<lambda>_. None)) = Some (Inr (vals, 0 + 1, c', Some (\<lambda>_. None)))"
    "outcome_seen ''C'' ''f'' (table_answer [0 \<mapsto> counting_collection] counting_server 0 m' 5) vals"
    by blast
  from r(2-5) show ?thesis unfolding counting_answer [OF r(1)]
    by (intro exI [of _ i'] exI [of _ answer] exI [of _ vals] exI [of _ c']) (simp add: outcome_seen_def instance_osx_make_def)
qed

end
