(* ===== verification/Client_Sync_Osx.thy ===== *)
theory Client_Sync_Osx
  imports Client_Osx Sync_Callers
begin

text \<open>
  Several threads that use one macOS client at once. A call registers its callback under \<open>m_lock\<close>, then
  takes the semaphore \<open>m_writer_sem\<close>, writes its frame and reads a reply; the semaphore is given back by the
  helper of the synchronous call that was answered, or by the reader of a reply nobody waits for. Other
  threads may run before and after each of these steps. \<open>stop\<close> posts the semaphore too, and closes it and the
  socket: what threads do with those afterwards is undefined, so only the steps that use neither are left.
\<close>

section \<open>The parts of a call\<close>

text \<open>\<open>client_osx_finish\<close> is the wait for the semaphore and what follows the write.\<close>

definition client_osx_take :: "'w client_osx \<Rightarrow> 'w client_osx option" where
  "client_osx_take c =
     (if co_writer_sem c = 0 then None else Some (c\<lparr>co_writer_sem := co_writer_sem c - 1\<rparr>))"

definition client_osx_receive ::
  "(nat \<Rightarrow> u64) \<Rightarrow> u64 \<Rightarrow> os_error \<Rightarrow> buffer \<Rightarrow> (nat \<Rightarrow> buffer) \<Rightarrow> 'w client_osx \<times> 'w \<Rightarrow> ('w client_osx \<times> 'w) result"
where
  "client_osx_receive junk u ec hdr body = (\<lambda>(c, w).
     if co_shutting_down c then Inr (c, w)
     else client_osx_read_init junk u ec body (c\<lparr>co_buf := resize_bytes 8 hdr\<rparr>, w))"

text \<open>The end of the helper, after the call.\<close>

definition client_osx_sync_end ::
  "int \<Rightarrow> ptr \<Rightarrow> call_world client_osx \<times> call_world \<Rightarrow> (ipc_value list \<times> call_world client_osx \<times> call_world) result option"
where
  "client_osx_sync_end cbid data = (\<lambda>(c, w).
     case Option.bind w (\<lambda>h. h data) of
       None \<Rightarrow> Some (Inl Bad_Access)
     | Some cd \<Rightarrow>
         if cd_sgn cd = 0 then None
         else if \<not> cd_called cd then Some (Inr ([], snd (client_osx_cancel cbid c), stack_free data w))
         else Some (Inr (cd_values cd, c\<lparr>co_writer_sem := co_writer_sem c + 1\<rparr>, stack_free data w)))"

text \<open>The helper is the composition of its parts.\<close>

lemma client_osx_finish_parts:
  "client_osx_finish junk u writes ec hdr body (c, w) =
     (case client_osx_take c of
        None \<Rightarrow> None
      | Some c \<Rightarrow> (case first_not_error writes of
          None \<Rightarrow> None
        | Some _ \<Rightarrow> Some (client_osx_receive junk u ec hdr body (c, w))))"
  by (simp add: client_osx_finish_def client_osx_take_def client_osx_receive_def Let_def split: option.split)

lemma client_osx_sync_parts:
  assumes "co_socket c"
  shows "client_osx_sync True junk u writes ec hdr body cname fname args data timestamp (c, w) =
    (case client_osx_begin u cname fname args (Some sync_callback) data 0 timestamp c of
       Inl e \<Rightarrow> Some (Inl e)
     | Inr (frame, cbid, timestamp, c) \<Rightarrow>
         (case client_osx_finish junk u writes ec hdr body (c, stack_alloc data w) of
            None \<Rightarrow> None
          | Some (Inl e) \<Rightarrow> Some (Inl e)
          | Some (Inr (c, w)) \<Rightarrow>
              map_option (\<lambda>r. rbind r (\<lambda>(vals, c, w). Inr (vals, timestamp, c, w))) (client_osx_sync_end cbid data (c, w))))"
  using assms
  by (simp add: client_osx_sync_def client_osx_call_def client_osx_sync_end_def split: sum.split option.split prod.split)

section \<open>The threads as a state machine\<close>

text \<open>\<open>oc_busy\<close> is the number of threads that have taken the semaphore and not read their reply yet.\<close>

record osx_callers =
  oc_client :: "call_world client_osx"
  oc_stack :: call_world
  oc_time :: u64
  oc_callers :: "(ptr \<times> int) set"
  oc_busy :: nat

definition osx_callers_init :: osx_callers where
  "osx_callers_init = \<lparr>oc_client = client_osx_make, oc_stack = Some (\<lambda>_. None), oc_time = 0, oc_callers = {}, oc_busy = 0\<rparr>"

text \<open>
  The steps: a thread enters the helper; a call is registered without a callback, or with one of the application;
  a thread takes the semaphore; it reads what comes, whatever that is; a caller whose semaphore was posted
  leaves; an id is cancelled; the application sets \<open>m_shutting_down\<close>, or stops the client. \<open>call\<close> returns at once
  without a socket, and a read needs one.
\<close>

inductive osx_client_step :: "osx_callers \<Rightarrow> osx_callers \<Rightarrow> bool" where
  enters: "client_osx_begin u cname fname args (Some sync_callback) data 0 (oc_time y) (oc_client y) = Inr (frame, cbid, t, c) \<Longrightarrow>
    oc_stack y = Some h \<Longrightarrow> h data = None \<Longrightarrow> oc_time y + 1 \<noteq> 0 \<Longrightarrow> co_socket (oc_client y) \<Longrightarrow>
    osx_client_step y (y\<lparr>oc_client := c, oc_stack := stack_alloc data (Some h), oc_time := t,
      oc_callers := insert (data, cbid) (oc_callers y)\<rparr>)"
| plain: "client_osx_begin u cname fname args None data cbid (oc_time y) (oc_client y) = Inr (frame, cbid', t, c) \<Longrightarrow>
    oc_time y + 1 \<noteq> 0 \<Longrightarrow> co_socket (oc_client y) \<Longrightarrow> osx_client_step y (y\<lparr>oc_client := c, oc_time := t\<rparr>)"
| async: "client_osx_begin u cname fname args (Some app_callback) data cbid (oc_time y) (oc_client y) = Inr (frame, cbid', t, c) \<Longrightarrow>
    oc_time y + 1 \<noteq> 0 \<Longrightarrow> co_socket (oc_client y) \<Longrightarrow> osx_client_step y (y\<lparr>oc_client := c, oc_time := t\<rparr>)"
| takes: "client_osx_take (oc_client y) = Some c \<Longrightarrow>
    osx_client_step y (y\<lparr>oc_client := c, oc_busy := oc_busy y + 1\<rparr>)"
| receives: "0 < oc_busy y \<Longrightarrow> client_osx_receive junk u ec hdr body (oc_client y, oc_stack y) = Inr (c, w) \<Longrightarrow>
    co_socket (oc_client y) \<Longrightarrow> osx_client_step y (y\<lparr>oc_client := c, oc_stack := w, oc_busy := oc_busy y - 1\<rparr>)"
| leaves: "(data, cbid) \<in> oc_callers y \<Longrightarrow>
    client_osx_sync_end cbid data (oc_client y, oc_stack y) = Some (Inr (vals, c, w)) \<Longrightarrow>
    osx_client_step y (y\<lparr>oc_client := c, oc_stack := w, oc_callers := oc_callers y - {(data, cbid)}\<rparr>)"
| cancels: "osx_client_step y (y\<lparr>oc_client := snd (client_osx_cancel cid (oc_client y))\<rparr>)"
| shuts: "osx_client_step y (y\<lparr>oc_client := (oc_client y)\<lparr>co_shutting_down := b\<rparr>\<rparr>)"
| stops: "osx_client_step y (y\<lparr>oc_client := client_osx_stop (oc_client y)\<rparr>)"

text \<open>The callers that have been called and have not left.\<close>

definition called :: "(ptr \<times> int) set \<Rightarrow> (ptr \<Rightarrow> call_data option) \<Rightarrow> (ptr \<times> int) set" where
  "called callers h = {e \<in> callers. \<exists>cd. h (fst e) = Some cd \<and> cd_called cd}"

definition posted_ok :: "(ptr \<times> int) set \<Rightarrow> (ptr \<Rightarrow> call_data option) \<Rightarrow> bool" where
  "posted_ok callers h \<longleftrightarrow> (\<forall>d k cd. (d, k) \<in> callers \<longrightarrow> h d = Some cd \<longrightarrow> (cd_sgn cd \<noteq> 0 \<longleftrightarrow> cd_called cd))"

text \<open>
  Until the client is stopped, the value of the semaphore, the threads that have taken it and the callers that
  are to give it back are \<open>n\<close> at most: 1 in a new client, and 0 once it is lost.
\<close>

definition osx_client_inv :: "nat \<Rightarrow> osx_callers \<Rightarrow> bool" where
  "osx_client_inv n y \<longleftrightarrow> finite (oc_callers y) \<and>
     (\<exists>h. oc_stack y = Some h \<and> callers_ok (oc_callers y) (oc_time y) h \<and>
        shared_ok (co_cb (oc_client y)) (oc_callers y) (oc_time y) h \<and> posted_ok (oc_callers y) h \<and>
        (co_socket (oc_client y) \<longrightarrow> co_writer_sem (oc_client y) + oc_busy y + card (called (oc_callers y) h) \<le> n))"

lemma osx_client_invE:
  assumes "osx_client_inv n y"
  obtains h where "oc_stack y = Some h" and "callers_ok (oc_callers y) (oc_time y) h"
    and "shared_ok (co_cb (oc_client y)) (oc_callers y) (oc_time y) h" and "posted_ok (oc_callers y) h"
    and "co_socket (oc_client y) \<Longrightarrow> co_writer_sem (oc_client y) + oc_busy y + card (called (oc_callers y) h) \<le> n"
    and "finite (oc_callers y)"
  using assms by (auto simp: osx_client_inv_def)

lemma osx_begin_cases:
  assumes "client_osx_begin u cname fname args fn data cbid timestamp c = Inr (frame, cbid', timestamp', c')"
  shows "timestamp' = timestamp + 1" and "cbid' = new_cbid fn cbid (timestamp + 1)"
    and "c' = c\<lparr>co_cb := registered fn data (timestamp + 1) (co_cb c)\<rparr>"
proof -
  obtain cb where b: "begin_call u cname fname args fn data cbid timestamp (co_cb c) = Inr (frame, cbid', timestamp', cb)"
      and c: "c' = c\<lparr>co_cb := cb\<rparr>"
    using assms by (auto simp: client_osx_begin_def rbind_eq_Inr_iff)
  show "timestamp' = timestamp + 1" "cbid' = new_cbid fn cbid (timestamp + 1)"
    "c' = c\<lparr>co_cb := registered fn data (timestamp + 1) (co_cb c)\<rparr>"
    using begin_call_cases [OF b] c by simp_all
qed

lemma osx_read_msg_cases:
  assumes "client_osx_read_msg junk u (c, w) = Inr (c', w')"
  obtains (unknown) "c' = c\<lparr>co_writer_sem := co_writer_sem c + 1\<rparr>" "w' = w"
  | (known) key f data vals where "map_find (co_cb c) key = Some (f, data)" "w' = f data vals w"
      "c' = c\<lparr>co_cb := map_erase key (co_cb c)\<rparr>"
proof -
  obtain reply n where r: "function_reply_deserialize junk (function_reply_init u) (co_buf c) 0 = Inr (reply, n)"
    using assms by (auto simp: client_osx_read_msg_def rbind_eq_Inr_iff)
  let ?key = "callback_key (value_union (reply_uid reply))"
  show thesis
  proof (cases "map_find (co_cb c) ?key")
    case None
    then show thesis using assms r unknown by (simp add: client_osx_read_msg_def Let_def)
  next
    case (Some fd)
    then obtain f d where "map_find (co_cb c) ?key = Some (f, d)" by (cases fd) auto
    then show thesis using assms r
      by (intro known [of ?key f d "delivered_values junk reply"]) (simp_all add: client_osx_read_msg_def Let_def)
  qed
qed

lemma osx_read_init_cases:
  assumes "client_osx_read_init junk u ec body (c, w) = Inr (c', w')"
  obtains (nothing) "c' = c" "w' = w" | (message) buf where "client_osx_read_msg junk u (c\<lparr>co_buf := buf\<rparr>, w) = Inr (c', w')"
proof (cases "ec = E_Success \<or> ec = E_MoreData")
  case True
  then obtain n where n: "read_size (co_buf c) = Inr n"
    using assms by (auto simp: client_osx_read_init_def rbind_eq_Inr_iff)
  show thesis
  proof (cases "n = 0")
    case True
    then have "c' = c" "w' = w"
      using assms n \<open>ec = E_Success \<or> ec = E_MoreData\<close> by (simp_all add: client_osx_read_init_def)
    then show thesis by (rule nothing)
  next
    case False
    then show thesis using assms n \<open>ec = E_Success \<or> ec = E_MoreData\<close>
      by (intro message [of "resize_bytes n (body n)"]) (simp add: client_osx_read_init_def)
  qed
next
  case False
  then have "c' = c" "w' = w" using assms by (simp_all add: client_osx_read_init_def)
  then show thesis by (rule nothing)
qed

lemma receive_cases:
  assumes "client_osx_receive junk u ec hdr body (c, w) = Inr (c', w')"
  obtains (receive_nothing) "co_cb c' = co_cb c" "co_writer_sem c' = co_writer_sem c" "w' = w"
  | (receive_unknown) "co_cb c' = co_cb c" "co_writer_sem c' = co_writer_sem c + 1" "w' = w"
  | (receive_known) key f data vals where "map_find (co_cb c) key = Some (f, data)" "co_cb c' = map_erase key (co_cb c)"
      "co_writer_sem c' = co_writer_sem c" "w' = f data vals w"
proof (cases "co_shutting_down c")
  case True
  then have "c' = c" "w' = w" using assms by (simp_all add: client_osx_receive_def)
  then show thesis by (intro receive_nothing) simp_all
next
  case False
  then have "client_osx_read_init junk u ec body (c\<lparr>co_buf := resize_bytes 8 hdr\<rparr>, w) = Inr (c', w')"
    using assms by (simp add: client_osx_receive_def)
  then show thesis
  proof (cases rule: osx_read_init_cases)
    case (message buf)
    then show thesis
    proof (cases rule: osx_read_msg_cases)
      case unknown
      then show thesis by (intro receive_unknown) simp_all
    next
      case (known key f d vals)
      then show thesis by (intro receive_known [of key f d vals]) simp_all
    qed
  next
    case nothing
    then show thesis by (intro receive_nothing) simp_all
  qed
qed

lemma receive_socket:
  assumes "client_osx_receive junk u ec hdr body (c, w) = Inr (c', w')"
  shows "co_socket c' = co_socket c"
  using assms
  by (auto simp: client_osx_receive_def client_osx_read_init_def client_osx_read_msg_def Let_def rbind_eq_Inr_iff
      split: if_splits option.splits)

text \<open>One lemma for each thing that happens to the callers that were called.\<close>

lemma called_enters:
  "(\<And>k. (data, k) \<notin> callers) \<Longrightarrow> called (insert (data, cbid) callers) (h(data \<mapsto> call_data_init)) = called callers h"
  by (auto simp: called_def call_data_init_def)

lemma called_leaves:
  "(\<And>k'. (d, k') \<in> callers \<Longrightarrow> k' = k) \<Longrightarrow> called (callers - {(d, k)}) (h(d := None)) = called callers h - {(d, k)}"
  by (auto simp: called_def split: if_splits)

lemma called_runs:
  assumes "(d, k) \<in> callers" and "\<And>k'. (d, k') \<in> callers \<Longrightarrow> k' = k" and "cd_called cd"
  shows "called callers (h(d \<mapsto> cd)) = insert (d, k) (called callers h)"
proof -
  have "(d, k') \<in> callers \<longleftrightarrow> k' = k" for k' using assms(1,2) by blast
  then show ?thesis using assms(3) by (auto simp: called_def split: if_splits)
qed

lemma finite_called: "finite callers \<Longrightarrow> finite (called callers h)"
  by (simp add: called_def)

lemma osx_inv_enters:
  assumes "client_osx_begin u cname fname args (Some sync_callback) data 0 (oc_time y) (oc_client y) = Inr (frame, cbid, t, c)"
    and "oc_stack y = Some h" and "h data = None" and "oc_time y + 1 \<noteq> 0" and "osx_client_inv n y"
  shows "osx_client_inv n (y\<lparr>oc_client := c, oc_stack := stack_alloc data (Some h), oc_time := t,
      oc_callers := insert (data, cbid) (oc_callers y)\<rparr>)"
proof -
  let ?k = "callback_key (oc_time y + 1)"
  have b: "t = oc_time y + 1" "cbid = ?k" "c = (oc_client y)\<lparr>co_cb := map_insert ?k (sync_callback, data) (co_cb (oc_client y))\<rparr>"
    using osx_begin_cases [OF assms(1)] by simp_all
  have ok: "callers_ok (oc_callers y) (oc_time y) h" "shared_ok (co_cb (oc_client y)) (oc_callers y) (oc_time y) h"
    "posted_ok (oc_callers y) h" "finite (oc_callers y)"
    "co_socket (oc_client y) \<Longrightarrow> co_writer_sem (oc_client y) + oc_busy y + card (called (oc_callers y) h) \<le> n"
    using assms(2) by (auto intro: osx_client_invE [OF assms(5)])
  note new = caller_enters(2) [OF ok(1) assms(4,3)]
  have "callers_ok (insert (data, ?k) (oc_callers y)) (oc_time y + 1) (h(data \<mapsto> call_data_init))"
    by (rule caller_enters(1) [OF ok(1) assms(4,3)])
  moreover have "shared_ok (co_cb c) (insert (data, ?k) (oc_callers y)) (oc_time y + 1) (h(data \<mapsto> call_data_init))"
    using shared_enters [OF ok(1,2) assms(4,3)] by (simp add: b(3))
  moreover have "posted_ok (insert (data, ?k) (oc_callers y)) (h(data \<mapsto> call_data_init))"
    using ok(3) by (auto simp: posted_ok_def call_data_init_def)
  moreover have "called (insert (data, ?k) (oc_callers y)) (h(data \<mapsto> call_data_init)) = called (oc_callers y) h"
    by (rule called_enters) (use new in auto)
  ultimately show ?thesis
    using ok(4,5) b by (simp add: osx_client_inv_def stack_alloc_def)
qed

lemma osx_inv_registers:
  assumes "client_osx_begin u cname fname args (Some app_callback) data cbid (oc_time y) (oc_client y) = Inr (frame, cbid', t, c)"
    and "oc_time y + 1 \<noteq> 0" and "osx_client_inv n y"
  shows "osx_client_inv n (y\<lparr>oc_client := c, oc_time := t\<rparr>)"
proof -
  have b: "t = oc_time y + 1" "c = (oc_client y)\<lparr>co_cb := map_insert (callback_key (oc_time y + 1)) (app_callback, data) (co_cb (oc_client y))\<rparr>"
    using osx_begin_cases [OF assms(1)] by simp_all
  from assms(3) show ?thesis
    using callers_ok_later [OF _ assms(2)] shared_registers [OF _ _ assms(2)] by (auto simp: osx_client_inv_def b)
qed

lemma posted_ok_called:
  "posted_ok callers h \<Longrightarrow> cd_sgn cd \<noteq> 0 \<Longrightarrow> cd_called cd \<Longrightarrow> posted_ok callers (h(d \<mapsto> cd))"
  by (auto simp: posted_ok_def)

lemma osx_inv_receives:
  assumes "0 < oc_busy y" and "client_osx_receive junk u ec hdr body (oc_client y, oc_stack y) = Inr (c, w)"
    and "osx_client_inv n y"
  shows "osx_client_inv n (y\<lparr>oc_client := c, oc_stack := w, oc_busy := oc_busy y - 1\<rparr>)"
proof -
  obtain h where h: "oc_stack y = Some h" "callers_ok (oc_callers y) (oc_time y) h"
    "shared_ok (co_cb (oc_client y)) (oc_callers y) (oc_time y) h" "posted_ok (oc_callers y) h" "finite (oc_callers y)"
    "co_socket (oc_client y) \<Longrightarrow> co_writer_sem (oc_client y) + oc_busy y + card (called (oc_callers y) h) \<le> n"
    using assms(3) by (rule osx_client_invE) blast
  have socket: "co_socket c = co_socket (oc_client y)" by (rule receive_socket [OF assms(2)])
  from assms(2) show ?thesis
  proof (cases rule: receive_cases)
    case (receive_known key f d vals)
    from h(3) receive_known(1) show ?thesis
    proof (cases rule: shared_cases)
      case (helper cd)
      let ?cd = "cd\<lparr>cd_values := cd_values cd @ vals, cd_called := True, cd_sgn := cd_sgn cd + 1\<rparr>"
      have w: "w = Some (h(d \<mapsto> ?cd))" using receive_known(4) helper h(1) by (simp add: sync_callback_live)
      have "called (oc_callers y) (h(d \<mapsto> ?cd)) = insert (d, key) (called (oc_callers y) h)"
        by (rule called_runs) (use helper(2) h(2) in \<open>auto simp: callers_ok_def\<close>)
      moreover have "(d, key) \<notin> called (oc_callers y) h" using helper by (simp add: called_def)
      ultimately have "card (called (oc_callers y) (h(d \<mapsto> ?cd))) = Suc (card (called (oc_callers y) h))"
        using finite_called [OF h(5)] by simp
      moreover have "posted_ok (oc_callers y) (h(d \<mapsto> ?cd))" by (rule posted_ok_called [OF h(4)]) simp_all
      moreover note callers_ok_write [OF h(2)] shared_called [OF h(2,3) receive_known(1) [unfolded helper(1)]]
      ultimately show ?thesis
        using h(5,6) assms(1) socket w receive_known(2,3) by (simp add: osx_client_inv_def)
    next
      case (application t)
      then have "w = oc_stack y" using receive_known(4) by (simp add: app_callback_def)
      then show ?thesis
        using h assms(1) socket receive_known(2,3) shared_erase [OF h(3)] by (auto simp: osx_client_inv_def)
    qed
  qed (use h assms(1) socket in \<open>auto simp: osx_client_inv_def\<close>)
qed

lemma osx_inv_leaves:
  assumes "(data, cbid) \<in> oc_callers y"
    and "client_osx_sync_end cbid data (oc_client y, oc_stack y) = Some (Inr (vals, c, w))" and "osx_client_inv n y"
  shows "osx_client_inv n (y\<lparr>oc_client := c, oc_stack := w, oc_callers := oc_callers y - {(data, cbid)}\<rparr>)"
proof -
  obtain h where h: "oc_stack y = Some h" "callers_ok (oc_callers y) (oc_time y) h"
    "shared_ok (co_cb (oc_client y)) (oc_callers y) (oc_time y) h" "posted_ok (oc_callers y) h" "finite (oc_callers y)"
    "co_socket (oc_client y) \<Longrightarrow> co_writer_sem (oc_client y) + oc_busy y + card (called (oc_callers y) h) \<le> n"
    using assms(3) by (rule osx_client_invE) blast
  obtain cd where cd: "h data = Some cd" using assms(1) h(2) unfolding callers_ok_def by blast
  then have "cd_called cd"
    using assms(1,2) h(1,4) unfolding posted_ok_def by (auto simp: client_osx_sync_end_def split: if_splits)
  then have end_eq: "c = (oc_client y)\<lparr>co_writer_sem := co_writer_sem (oc_client y) + 1\<rparr>" "w = Some (h(data := None))"
    using assms(2) h(1) cd by (auto simp: client_osx_sync_end_def stack_free_def split: if_splits)
  have "map_find (co_cb (oc_client y)) cbid = None"
    by (rule shared_called_none [OF h(2,3) assms(1) cd \<open>cd_called cd\<close>])
  note left = callers_ok_leaves [OF h(2) assms(1)] shared_leaves [OF h(2,3) assms(1) this]
  have "called (oc_callers y - {(data, cbid)}) (h(data := None)) = called (oc_callers y) h - {(data, cbid)}"
    by (rule called_leaves) (use assms(1) h(2) in \<open>unfold callers_ok_def, blast\<close>)
  moreover have "(data, cbid) \<in> called (oc_callers y) h" using assms(1) cd \<open>cd_called cd\<close> by (simp add: called_def)
  ultimately have "card (called (oc_callers y) h) = Suc (card (called (oc_callers y - {(data, cbid)}) (h(data := None))))"
    using card_Suc_Diff1 [OF finite_called [OF h(5)]] by metis
  moreover have "posted_ok (oc_callers y - {(data, cbid)}) (h(data := None))" using h(4) by (auto simp: posted_ok_def)
  ultimately show ?thesis using h(5,6) left end_eq by (simp add: osx_client_inv_def)
qed

lemma osx_client_step_inv:
  assumes "osx_client_step y y'" and "osx_client_inv n y"
  shows "osx_client_inv n y'"
  using assms
proof (cases rule: osx_client_step.cases)
  case (enters u cname fname args data frame cbid t c h)
  show ?thesis unfolding enters(1) by (rule osx_inv_enters [OF enters(2-5) assms(2)])
next
  case (plain u cname fname args data cbid frame cbid' t c)
  then show ?thesis
    using osx_begin_cases [OF plain(2)] assms(2) callers_ok_later shared_later
    by (auto simp: osx_client_inv_def)
next
  case (async u cname fname args data cbid frame cbid' t c)
  show ?thesis unfolding async(1) by (rule osx_inv_registers [OF async(2,3) assms(2)])
next
  case (takes c)
  then show ?thesis using assms(2) by (auto simp: client_osx_take_def osx_client_inv_def split: if_splits)
next
  case (receives junk u ec hdr body c w)
  show ?thesis unfolding receives(1) by (rule osx_inv_receives [OF receives(2,3) assms(2)])
next
  case (leaves data cbid vals c w)
  show ?thesis unfolding leaves(1) by (rule osx_inv_leaves [OF leaves(2,3) assms(2)])
next
  case (cancels cid)
  then show ?thesis using assms(2) shared_erase by (auto simp: client_osx_cancel_def osx_client_inv_def)
next
  case (shuts b)
  then show ?thesis using assms(2) by (simp add: osx_client_inv_def)
next
  case stops
  then show ?thesis using assms(2) by (auto simp: client_osx_stop_def osx_client_inv_def)
qed

lemma client_osx_make_socket: "co_socket client_osx_make"
  by (simp add: client_osx_make_def)

lemma osx_client_inv_init: "osx_client_inv 1 osx_callers_init"
  by (simp add: osx_client_inv_def osx_callers_init_def client_osx_make_def callers_ok_def shared_ok_def posted_ok_def
      called_def map_ok_def map_find_def)

interpretation osx_client: state_machine "osx_client_inv n" osx_client_step "osx_client_inv n"
  by unfold_locales (auto intro: osx_client_step_inv)

lemma osx_client_inv_alone:
  assumes "osx_client_inv n y" and "n \<le> 1" and "co_socket (oc_client y)" and "0 < co_writer_sem (oc_client y) + oc_busy y"
    and "oc_stack y = Some h" and "(d, k) \<in> oc_callers y" and "h d = Some cd"
  shows "\<not> cd_called cd"
proof
  assume "cd_called cd"
  then have "(d, k) \<in> called (oc_callers y) h" using assms(6,7) by (simp add: called_def)
  moreover have "finite (called (oc_callers y) h)"
    "co_writer_sem (oc_client y) + oc_busy y + card (called (oc_callers y) h) \<le> n"
    using assms(1,3,5) finite_called by (auto elim!: osx_client_invE)
  ultimately show False using assms(2,4) by (auto simp: card_gt_0_iff dest: card_0_eq)
qed

section \<open>Properties\<close>

text \<open>C18. Threads that share a macOS client exclude one another: in every order of calls of the helper, calls without
  a callback or with one of the application, reads of anything, cancellations, \<open>m_shutting_down\<close> and \<open>stop\<close>. As long
  as the client is not stopped, at most one thread has taken the semaphore and not read its reply, the semaphore
  is free for none meanwhile, and while it is free or taken by a reader no caller's callback has been called. Always,
  a callback in the table is one of the application, which belongs to no caller, or the one of a caller inside the
  helper that has not been called and whose data is on its stack.\<close>

theorem osx_client_exclusive:
  assumes "osx_client_step\<^sup>*\<^sup>* osx_callers_init y"
  shows "\<exists>h. oc_stack y = Some h \<and>
    (co_socket (oc_client y) \<longrightarrow> co_writer_sem (oc_client y) + oc_busy y \<le> 1) \<and>
    (\<forall>k f d. map_find (co_cb (oc_client y)) k = Some (f, d) \<longrightarrow>
       f = sync_callback \<and> (d, k) \<in> oc_callers y \<and> (\<exists>cd. h d = Some cd \<and> \<not> cd_called cd) \<or>
       f = app_callback \<and> (\<forall>d'. (d', k) \<notin> oc_callers y)) \<and>
    (co_socket (oc_client y) \<longrightarrow> 0 < co_writer_sem (oc_client y) + oc_busy y \<longrightarrow>
       (\<forall>(d, k) \<in> oc_callers y. \<exists>cd. h d = Some cd \<and> \<not> cd_called cd))"
proof -
  have inv: "osx_client_inv 1 y" by (rule osx_client.reachable_inv [OF osx_client_inv_init assms])
  then obtain h where h: "oc_stack y = Some h" "callers_ok (oc_callers y) (oc_time y) h"
    "shared_ok (co_cb (oc_client y)) (oc_callers y) (oc_time y) h"
    "co_socket (oc_client y) \<Longrightarrow> co_writer_sem (oc_client y) + oc_busy y + card (called (oc_callers y) h) \<le> 1"
    by (rule osx_client_invE) blast
  have "\<exists>cd. h d = Some cd \<and> \<not> cd_called cd"
    if live: "co_socket (oc_client y)" and free: "0 < co_writer_sem (oc_client y) + oc_busy y" and caller: "(d, k) \<in> oc_callers y" for d k
  proof -
    obtain cd where cd: "h d = Some cd" using caller h(2) unfolding callers_ok_def by blast
    show ?thesis using osx_client_inv_alone [OF inv order_refl live free h(1) caller cd] cd by blast
  qed
  then have "co_socket (oc_client y) \<longrightarrow> 0 < co_writer_sem (oc_client y) + oc_busy y \<longrightarrow>
      (\<forall>(d, k) \<in> oc_callers y. \<exists>cd. h d = Some cd \<and> \<not> cd_called cd)"
    by (simp add: split_paired_all)
  moreover have "co_socket (oc_client y) \<longrightarrow> co_writer_sem (oc_client y) + oc_busy y \<le> 1" using h(4) by linarith
  moreover have "\<forall>k f d. map_find (co_cb (oc_client y)) k = Some (f, d) \<longrightarrow>
      f = sync_callback \<and> (d, k) \<in> oc_callers y \<and> (\<exists>cd. h d = Some cd \<and> \<not> cd_called cd) \<or>
      f = app_callback \<and> (\<forall>d'. (d', k) \<notin> oc_callers y)"
    using h(3) unfolding shared_ok_def by blast
  moreover note h(1)
  ultimately show ?thesis by (intro exI [of _ h] conjI)
qed

theorem osx_client_exclusive_witness:
  "\<exists>y h. osx_client_step\<^sup>*\<^sup>* osx_callers_init y \<and> oc_busy y = 1 \<and> co_writer_sem (oc_client y) = 0 \<and>
     oc_stack y = Some h \<and> oc_callers y = {(8, 1)} \<and>
     map_find (co_cb (oc_client y)) 1 = Some (sync_callback, 8) \<and> (\<exists>cd. h 8 = Some cd \<and> \<not> cd_called cd)"
proof -
  let ?c = "client_osx_make\<lparr>co_cb := map_insert (callback_key (0 + 1)) (sync_callback, 8) (co_cb client_osx_make)\<rparr>"
  let ?y1 = "osx_callers_init\<lparr>oc_client := ?c, oc_stack := stack_alloc 8 (Some (\<lambda>_. None)), oc_time := 1,
    oc_callers := insert (8, 1) (oc_callers osx_callers_init)\<rparr>"
  let ?y2 = "?y1\<lparr>oc_client := (oc_client ?y1)\<lparr>co_writer_sem := co_writer_sem (oc_client ?y1) - 1\<rparr>, oc_busy := oc_busy ?y1 + 1\<rparr>"
  have b: "client_osx_begin 0 ''C'' ''f'' [] (Some sync_callback) 8 0 (oc_time osx_callers_init) (oc_client osx_callers_init) =
      Inr (frame_image (call_wire (build_call (0 + 1) 0 ''C'' ''f'' [])), 1, 1, ?c)"
    using client_osx_begin_frame [OF small_call, of "Some sync_callback" 8 0 "client_osx_make"]
    by (simp add: osx_callers_init_def)
  have 1: "osx_client_step osx_callers_init ?y1"
    by (rule osx_client_step.enters [OF b]) (simp_all add: osx_callers_init_def client_osx_make_socket)
  have 2: "osx_client_step ?y1 ?y2"
    by (rule osx_client_step.takes) (simp add: client_osx_take_def client_osx_make_def)
  have y: "osx_client_step\<^sup>*\<^sup>* osx_callers_init ?y2" using 1 2 by (meson converse_rtranclp_into_rtranclp rtranclp.rtrancl_refl)
  have entry: "map_find (co_cb (oc_client ?y2)) 1 = Some (sync_callback, 8)"
    by (simp add: client_osx_make_def map_find_def)
  obtain h where h: "oc_stack ?y2 = Some h"
    "co_socket (oc_client ?y2) \<longrightarrow> co_writer_sem (oc_client ?y2) + oc_busy ?y2 \<le> 1"
    "\<forall>k f d. map_find (co_cb (oc_client ?y2)) k = Some (f, d) \<longrightarrow>
       f = sync_callback \<and> (d, k) \<in> oc_callers ?y2 \<and> (\<exists>cd. h d = Some cd \<and> \<not> cd_called cd) \<or>
       f = app_callback \<and> (\<forall>d'. (d', k) \<notin> oc_callers ?y2)"
    using osx_client_exclusive [OF y] by (elim exE conjE)
  have "\<exists>cd. h 8 = Some cd \<and> \<not> cd_called cd"
    using h(3) [rule_format, OF entry] app_not_sync [symmetric] by blast
  moreover have "oc_busy ?y2 = 1" "oc_callers ?y2 = {(8, 1)}" "co_socket (oc_client ?y2)"
    by (simp_all add: osx_callers_init_def client_osx_make_socket)
  moreover have "co_writer_sem (oc_client ?y2) = 0" using h(2) calculation(2,4) by simp
  ultimately show ?thesis using y entry h(1) by blast
qed

text \<open>C30. A semaphore that is lost stays lost until the client is stopped: once the semaphore of a macOS client is 0,
  no thread is reading and no caller is still to give it back, then after any further calls of the helper, calls
  without a callback or with one of the application, takes, reads, ends of callers, cancellations and settings of
  \<open>m_shutting_down\<close>, by any threads and in any order, it is 0 still, unless \<open>stop\<close> was among them, so that the wait
  of every later call blocks, and a call that is made in such a state never returns.\<close>

theorem osx_lost_semaphore:
  assumes "osx_client_step\<^sup>*\<^sup>* osx_callers_init y" and "co_writer_sem (oc_client y) = 0" and "oc_busy y = 0"
    and "\<And>d k h cd. (d, k) \<in> oc_callers y \<Longrightarrow> oc_stack y = Some h \<Longrightarrow> h d = Some cd \<Longrightarrow> \<not> cd_called cd"
    and "osx_client_step\<^sup>*\<^sup>* y y'"
    and "function_call_size (build_call (timestamp + 1) u cname fname args) + 8 < 2 ^ 64" and "co_socket (oc_client y')"
  shows "client_osx_take (oc_client y') = None \<and>
    client_osx_call junk u writes ec hdr body cname fname args fn data cbid timestamp (oc_client y', w) = None"
proof -
  obtain h where h: "oc_stack y = Some h" "callers_ok (oc_callers y) (oc_time y) h"
    "shared_ok (co_cb (oc_client y)) (oc_callers y) (oc_time y) h" "posted_ok (oc_callers y) h" "finite (oc_callers y)"
    using osx_client.reachable_inv [OF osx_client_inv_init assms(1)] by (rule osx_client_invE)
  have "called (oc_callers y) h = {}" using assms(4) h(1) by (auto simp: called_def)
  then have "osx_client_inv 0 y" using h assms(2,3) by (simp add: osx_client_inv_def)
  from osx_client.reachable_inv [OF this assms(5)] have "co_writer_sem (oc_client y') = 0"
    using assms(7) by (auto simp: osx_client_inv_def)
  then show ?thesis using client_osx_blocked [OF assms(6,7)] by (simp add: client_osx_take_def)
qed

theorem osx_lost_semaphore_witness:
  "\<exists>y y'. osx_client_step\<^sup>*\<^sup>* osx_callers_init y \<and> osx_client_step\<^sup>*\<^sup>* y y' \<and>
     client_osx_call (\<lambda>_. 0) 0 [E_Success] E_Success [] (\<lambda>_. []) ''C'' ''f'' [] None 0 0 0 (oc_client y', None) = None"
proof -
  let ?y1 = "osx_callers_init\<lparr>oc_client := (oc_client osx_callers_init)\<lparr>co_writer_sem := co_writer_sem (oc_client osx_callers_init) - 1\<rparr>,
    oc_busy := oc_busy osx_callers_init + 1\<rparr>"
  let ?c = "(oc_client ?y1)\<lparr>co_buf := resize_bytes 8 []\<rparr>"
  let ?y2 = "?y1\<lparr>oc_client := ?c, oc_stack := oc_stack ?y1, oc_busy := oc_busy ?y1 - 1\<rparr>"
  have 1: "osx_client_step osx_callers_init ?y1"
    by (rule osx_client_step.takes) (simp add: client_osx_take_def client_osx_make_def osx_callers_init_def)
  have 2: "osx_client_step ?y1 ?y2"
    by (rule osx_client_step.receives [where junk = "\<lambda>_. 0" and u = 0 and ec = E_Error and hdr = "[]" and body = "\<lambda>_. []"])
      (simp_all add: client_osx_receive_def client_osx_read_init_def client_osx_make_def osx_callers_init_def)
  have 3: "osx_client_step ?y2 (?y2\<lparr>oc_client := snd (client_osx_cancel 5 (oc_client ?y2))\<rparr>)"
    by (rule osx_client_step.cancels)
  have y: "osx_client_step\<^sup>*\<^sup>* osx_callers_init ?y2" using 1 2 by (meson converse_rtranclp_into_rtranclp rtranclp.rtrancl_refl)
  have "co_writer_sem (oc_client ?y2) = 0" "oc_busy ?y2 = 0" "oc_callers ?y2 = {}"
    "co_socket (oc_client (?y2\<lparr>oc_client := snd (client_osx_cancel 5 (oc_client ?y2))\<rparr>))"
    by (simp_all add: osx_callers_init_def client_osx_make_def client_osx_cancel_def)
  from osx_lost_semaphore [OF y this(1,2) _ r_into_rtranclp [of osx_client_step, OF 3] small_call this(4)] this(3)
  show ?thesis using y 3 by blast
qed

end
