(* ===== verification/System_Callers_Osx.thy ===== *)
theory System_Callers_Osx
  imports Client_Sync_Osx Serial_Osx Call_Answer
begin

text \<open>
  The specification of a macOS connection whose pipes deliver whole frames: one client that any number of threads
  use, the two pipes, and the server instance with its two threads. Here the reads of \<open>socket_osx\<close> are taken to
  deliver what was written, whole and in order; a read may fail instead, and then leaves the reply for the
  next one. \<open>Wired_Osx\<close> puts the code's reads and writes in their place and shows for which frames and which
  answers of the system its steps are steps of this specification.
\<close>

section \<open>The system\<close>

text \<open>
  The threads are those of \<open>Client_Sync_Osx\<close>. A call is registered (\<open>yo_unsent\<close>), its thread takes the
  semaphore (\<open>yo_held\<close>), writes the frame (\<open>yo_sent\<close>, in this order) and reads (\<open>yo_reading\<close>); \<open>yo_read\<close> is the
  number of replies read. What the instance has executed and written is in \<open>yo_server\<close>.
\<close>

record 'w osx_system =
  yo_threads :: osx_callers
  yo_unsent :: "(function_call \<times> buffer) list"
  yo_held :: "(function_call \<times> buffer) list"
  yo_sent :: "(function_call \<times> buffer) list"
  yo_reading :: "(function_call \<times> buffer) list"
  yo_read :: nat
  yo_server :: "instance_osx \<times> 'w"

definition osx_system_init :: "'w \<Rightarrow> 'w osx_system" where
  "osx_system_init w0 = \<lparr>yo_threads = osx_callers_init, yo_unsent = [], yo_held = [], yo_sent = [], yo_reading = [],
     yo_read = 0, yo_server = (instance_osx_make, w0)\<rparr>"

text \<open>
  The steps: a thread enters the helper; a call is registered without a callback or with one of the application; a
  thread takes the semaphore, writes its frame, and reads the next reply, or reads nothing (a failed read, or
  \<open>m_shutting_down\<close>); a caller leaves; an id is cancelled; the application sets \<open>m_shutting_down\<close>, or stops the client,
  after which no thread can use the socket; the instance makes a step, and what it reads is what was written.
\<close>

inductive osx_system_step ::
  "bool \<Rightarrow> (nat \<Rightarrow> u64) \<Rightarrow> u64 \<Rightarrow> 'w heap \<Rightarrow> 'w server \<Rightarrow> 'w osx_system \<Rightarrow> 'w osx_system \<Rightarrow> bool"
  for short junk u h s
where
  enters: "x = yo_threads y \<Longrightarrow>
    client_osx_begin cu cname fname args (Some sync_callback) data 0 (oc_time x) (oc_client x) = Inr (frame, cbid, t, c) \<Longrightarrow>
    oc_stack x = Some st \<Longrightarrow> st data = None \<Longrightarrow> oc_time x + 1 \<noteq> 0 \<Longrightarrow> co_socket (oc_client x) \<Longrightarrow>
    m = build_call (oc_time x + 1) cu cname fname args \<Longrightarrow> proper_call m \<Longrightarrow> replies_fit h s 0 u [m] \<Longrightarrow>
    osx_system_step short junk u h s y (y\<lparr>yo_threads := x\<lparr>oc_client := c, oc_stack := stack_alloc data (Some st), oc_time := t,
        oc_callers := insert (data, cbid) (oc_callers x)\<rparr>, yo_unsent := (m, frame) # yo_unsent y\<rparr>)"
| registers: "x = yo_threads y \<Longrightarrow>
    client_osx_begin cu cname fname args fn data cbid (oc_time x) (oc_client x) = Inr (frame, cbid', t, c) \<Longrightarrow>
    fn = None \<or> fn = Some app_callback \<Longrightarrow> oc_time x + 1 \<noteq> 0 \<Longrightarrow> co_socket (oc_client x) \<Longrightarrow>
    m = build_call (oc_time x + 1) cu cname fname args \<Longrightarrow> proper_call m \<Longrightarrow> replies_fit h s 0 u [m] \<Longrightarrow>
    osx_system_step short junk u h s y (y\<lparr>yo_threads := x\<lparr>oc_client := c, oc_time := t\<rparr>, yo_unsent := (m, frame) # yo_unsent y\<rparr>)"
| takes: "x = yo_threads y \<Longrightarrow> e \<in> set (yo_unsent y) \<Longrightarrow> client_osx_take (oc_client x) = Some c \<Longrightarrow>
    osx_system_step short junk u h s y (y\<lparr>yo_threads := x\<lparr>oc_client := c, oc_busy := oc_busy x + 1\<rparr>,
      yo_unsent := remove1 e (yo_unsent y), yo_held := e # yo_held y\<rparr>)"
| writes: "e \<in> set (yo_held y) \<Longrightarrow> co_socket (oc_client (yo_threads y)) \<Longrightarrow>
    osx_system_step short junk u h s y (y\<lparr>yo_held := remove1 e (yo_held y), yo_sent := yo_sent y @ [e],
      yo_reading := e # yo_reading y\<rparr>)"
| serves: "io_step short junk u h s (yo_server y) k \<Longrightarrow>
    io_bodies (fst k) = take n (map (\<lambda>(m, frame). drop 8 frame) (yo_sent y)) \<Longrightarrow>
    osx_system_step short junk u h s y (y\<lparr>yo_server := k\<rparr>)"
| reads: "x = yo_threads y \<Longrightarrow> e \<in> set (yo_reading y) \<Longrightarrow> co_socket (oc_client x) \<Longrightarrow> \<not> co_shutting_down (oc_client x) \<Longrightarrow>
    ec = E_Success \<or> ec = E_MoreData \<Longrightarrow> yo_read y < length (io_sent (fst (yo_server y))) \<Longrightarrow>
    f = io_sent (fst (yo_server y)) ! yo_read y \<Longrightarrow>
    client_osx_receive cj cu ec (take 8 f) (\<lambda>_. drop 8 f) (oc_client x, oc_stack x) = Inr (c, w) \<Longrightarrow>
    osx_system_step short junk u h s y (y\<lparr>yo_threads := x\<lparr>oc_client := c, oc_stack := w, oc_busy := oc_busy x - 1\<rparr>,
      yo_reading := remove1 e (yo_reading y), yo_read := Suc (yo_read y)\<rparr>)"
| misses: "x = yo_threads y \<Longrightarrow> e \<in> set (yo_reading y) \<Longrightarrow> co_socket (oc_client x) \<Longrightarrow>
    co_shutting_down (oc_client x) \<or> (ec \<noteq> E_Success \<and> ec \<noteq> E_MoreData) \<Longrightarrow>
    client_osx_receive cj cu ec hdr body (oc_client x, oc_stack x) = Inr (c, w) \<Longrightarrow>
    osx_system_step short junk u h s y (y\<lparr>yo_threads := x\<lparr>oc_client := c, oc_stack := w, oc_busy := oc_busy x - 1\<rparr>,
      yo_reading := remove1 e (yo_reading y)\<rparr>)"
| leaves: "x = yo_threads y \<Longrightarrow> (data, cbid) \<in> oc_callers x \<Longrightarrow>
    client_osx_sync_end cbid data (oc_client x, oc_stack x) = Some (Inr (vals, c, w)) \<Longrightarrow>
    osx_system_step short junk u h s y (y\<lparr>yo_threads := x\<lparr>oc_client := c, oc_stack := w,
        oc_callers := oc_callers x - {(data, cbid)}\<rparr>\<rparr>)"
| cancels: "x = yo_threads y \<Longrightarrow>
    osx_system_step short junk u h s y (y\<lparr>yo_threads := x\<lparr>oc_client := snd (client_osx_cancel cid (oc_client x))\<rparr>\<rparr>)"
| shuts: "x = yo_threads y \<Longrightarrow>
    osx_system_step short junk u h s y (y\<lparr>yo_threads := x\<lparr>oc_client := (oc_client x)\<lparr>co_shutting_down := b\<rparr>\<rparr>\<rparr>)"
| stops: "x = yo_threads y \<Longrightarrow>
    osx_system_step short junk u h s y (y\<lparr>yo_threads := x\<lparr>oc_client := client_osx_stop (oc_client x)\<rparr>\<rparr>)"

section \<open>The two sides\<close>

text \<open>A thread that holds the semaphore or reads is one of those that \<open>oc_busy\<close> counts.\<close>

definition busy_ok :: "'w osx_system \<Rightarrow> bool" where
  "busy_ok y \<longleftrightarrow> oc_busy (yo_threads y) = length (yo_held y) + length (yo_reading y)"

lemma busy_reads:
  "busy_ok y \<Longrightarrow> e \<in> set (yo_reading y) \<Longrightarrow> 0 < oc_busy (yo_threads y)"
  by (auto simp: busy_ok_def dest: length_pos_if_in_set)

lemma one_less: "e \<in> set es \<Longrightarrow> n + length es - Suc 0 = n + length (remove1 e es)"
  by (metis Nat.add_diff_assoc One_nat_def Suc_leI length_pos_if_in_set length_remove1)

lemma busy_ok_step: "osx_system_step short junk u h s y y' \<Longrightarrow> busy_ok y \<Longrightarrow> busy_ok y'"
proof (induction rule: osx_system_step.induct)
  case (writes e y)
  then show ?case using one_less [of e "yo_held y" "Suc (length (yo_reading y))"] by (simp add: busy_ok_def)
next
  case (reads x y e ec f cj cu c w)
  then show ?case using one_less [OF reads(2), of "length (yo_held y)"] by (simp add: busy_ok_def)
next
  case (misses x y e ec cj cu hdr body c w)
  then show ?case using one_less [OF misses(2), of "length (yo_held y)"] by (simp add: busy_ok_def)
qed (simp_all add: busy_ok_def)

text \<open>Seen from the client, the system makes steps of \<open>osx_client_step\<close>, or none; seen from the server, its own.\<close>

lemma threads_step:
  assumes "osx_system_step short junk u h s y y'" and "busy_ok y"
  shows "osx_client_step\<^sup>=\<^sup>= (yo_threads y) (yo_threads y')"
  using assms
proof (induction rule: osx_system_step.induct)
  case (enters x y cu cname fname args data frame cbid t c st m)
  then show ?case using osx_client_step.enters [OF enters(2-6)] by simp
next
  case (registers x y cu cname fname args fn data cbid frame cbid' t c m)
  from registers(3) show ?case
  proof
    assume "fn = None"
    then show ?thesis using registers(1) osx_client_step.plain [OF _ registers(4,5)] registers(2) by simp
  next
    assume "fn = Some app_callback"
    then show ?thesis using registers(1) osx_client_step.async [OF _ registers(4,5)] registers(2) by simp
  qed
next
  case (takes x y e c)
  then show ?case using osx_client_step.takes [OF takes(3)] by simp
next
  case (reads x y e ec f cj cu c w)
  then show ?case using osx_client_step.receives [OF _ reads(8,3)] busy_reads [OF reads(9,2)] by simp
next
  case (misses x y e ec cj cu hdr body c w)
  then show ?case using osx_client_step.receives [OF _ misses(5,3)] busy_reads [OF misses(6,2)] by simp
next
  case (leaves x y data cbid vals c w)
  then show ?case using osx_client_step.leaves [OF leaves(2,3)] by simp
next
  case (cancels x y cid)
  then show ?case using osx_client_step.cancels [of x cid] by simp
next
  case (shuts x y b)
  then show ?case using osx_client_step.shuts [of x b] by simp
next
  case (stops x y)
  then show ?case using osx_client_step.stops [of x] by simp
qed simp_all

lemma server_step_osx:
  "osx_system_step short junk u h s y y' \<Longrightarrow> (io_step short junk u h s)\<^sup>*\<^sup>* (yo_server y) (yo_server y')"
  by (induction rule: osx_system_step.induct) auto

section \<open>The calls and their answers\<close>

definition osx_calls_ok :: "'w heap \<Rightarrow> 'w server \<Rightarrow> u64 \<Rightarrow> 'w osx_system \<Rightarrow> bool" where
  "osx_calls_ok h s u y \<longleftrightarrow> entries_ok h s u (oc_time (yo_threads y)) (yo_unsent y @ yo_held y @ yo_sent y) \<and>
     (\<exists>n \<le> length (yo_sent y). io_bodies (fst (yo_server y)) = take n (map call_wire (map fst (yo_sent y))))"

lemma osx_begin_frame:
  assumes "client_osx_begin cu cname fname args fn data cbid now c = Inr (frame, cbid', t, c')"
    and "m = build_call (now + 1) cu cname fname args" and "proper_call m"
  shows "frame = frame_image (call_wire m)" and "t = now + 1" and "cbid' = new_cbid fn cbid (call_time m)"
  using assms(1,2) client_osx_begin_frame [OF proper_frame [OF assms(3) [unfolded assms(2)]], of fn data cbid c]
    call_time_build [of "now + 1" cu cname fname args]
  by auto

lemma osx_calls_ok_moved:
  assumes "osx_calls_ok h s u y" and "oc_time (yo_threads y') = oc_time (yo_threads y)"
    and "mset (yo_unsent y' @ yo_held y' @ yo_sent y') = mset (yo_unsent y @ yo_held y @ yo_sent y)"
    and "yo_sent y' = yo_sent y @ es" and "yo_server y' = yo_server y"
  shows "osx_calls_ok h s u y'"
proof -
  obtain n where "n \<le> length (yo_sent y)" "io_bodies (fst (yo_server y)) = take n (map call_wire (map fst (yo_sent y)))"
    using assms(1) by (auto simp: osx_calls_ok_def)
  moreover have "entries_ok h s u (oc_time (yo_threads y')) (yo_unsent y' @ yo_held y' @ yo_sent y')"
    using assms(1) entries_ok_mset [OF assms(3)] unfolding osx_calls_ok_def assms(2) by blast
  ultimately show ?thesis using assms(4,5) unfolding osx_calls_ok_def by (intro conjI exI [of _ n]) simp_all
qed

lemma osx_calls_ok_new:
  assumes "osx_calls_ok h s u y" and "x = yo_threads y"
    and "client_osx_begin cu cname fname args fn data cbid (oc_time x) (oc_client x) = Inr (frame, cbid', t, c)"
    and "oc_time x + 1 \<noteq> 0" and "m = build_call (oc_time x + 1) cu cname fname args" and "proper_call m"
    and "replies_fit h s 0 u [m]" and "oc_time (yo_threads y') = t" and "yo_unsent y' = (m, frame) # yo_unsent y"
    and "yo_held y' = yo_held y" and "yo_sent y' = yo_sent y" and "yo_server y' = yo_server y"
  shows "osx_calls_ok h s u y'"
  using entries_ok_new [OF _ assms(4-7)] osx_begin_frame [OF assms(3,5,6)] assms(1,2,8-12) by (simp add: osx_calls_ok_def)

lemma osx_calls_ok_step: "osx_system_step short junk u h s y y' \<Longrightarrow> osx_calls_ok h s u y \<Longrightarrow> osx_calls_ok h s u y'"
proof (induction rule: osx_system_step.induct)
  case (enters x y cu cname fname args data frame cbid t c st m)
  show ?case by (rule osx_calls_ok_new [OF enters(10,1,2,5,7-9)]) simp_all
next
  case (registers x y cu cname fname args fn data cbid frame cbid' t c m)
  show ?case by (rule osx_calls_ok_new [OF registers(9,1,2,4,6-8)]) simp_all
next
  case (takes x y e c)
  then show ?case by (intro osx_calls_ok_moved [OF takes(4)]) simp_all
next
  case (writes e y)
  then show ?case by (intro osx_calls_ok_moved [OF writes(3)]) simp_all
next
  case (serves y k n)
  have "entries_ok h s u (oc_time (yo_threads y)) (yo_unsent y @ yo_held y @ yo_sent y)"
    using serves(3) by (simp add: osx_calls_ok_def)
  then have "io_bodies (fst k) = take n (map call_wire (map fst (yo_sent y)))"
    using serves(2) frames_of_entries [OF entries_ok_append [OF entries_ok_append]] by metis
  then have "io_bodies (fst k) = take (min n (length (yo_sent y))) (map call_wire (map fst (yo_sent y)))"
    by (simp add: min_def)
  then show ?case
    using serves(3) unfolding osx_calls_ok_def by (intro conjI exI [of _ "min n (length (yo_sent y))"]) simp_all
qed (simp_all add: osx_calls_ok_def)

text \<open>Every reply the instance has written is the one for the call at the same place.\<close>

lemma osx_reply_of_call:
  assumes "classes_ok h s" and "heap_ok h" and "osx_calls_ok h s u y"
    and "(io_step short junk u h s)\<^sup>*\<^sup>* (instance_osx_make, w0) (yo_server y)"
    and j: "j < length (io_sent (fst (yo_server y)))"
  obtains r where "io_sent (fst (yo_server y)) ! j = frame_image (reply_wire r)" and "j < length (yo_sent y)"
    and "answers_with (fst (yo_sent y ! j)) (outcomes junk u h s w0 (yo_sent y) ! j) r"
proof -
  let ?i = "fst (yo_server y)"
  have start: "osx_start w0 (instance_osx_make, w0)" by (simp add: osx_start_def)
  have "serial_inv junk u (yo_server y)" by (rule io_serial.reachable_inv [OF start assms(4)])
  then have len: "length (io_sent ?i) \<le> length (io_bodies ?i)" by (cases "yo_server y") (simp add: serial_inv_def)
  obtain w1 where w1: "serve_all (serve_body junk u h s 0) (io_served (yo_server y)) w0 = Inr (io_sent ?i, w1)"
    using io_serial.serial_steps [OF assms(4) start] by blast
  obtain n where n: "n \<le> length (yo_sent y)" "io_bodies ?i = map call_wire (map fst (take n (yo_sent y)))"
    using assms(3) by (auto simp: osx_calls_ok_def take_map)
  define l where "l = length (io_sent ?i)"
  have l: "l \<le> n" using len n arg_cong [OF n(2), of length] by (simp add: l_def)
  have served: "io_served (yo_server y) = map call_wire (map fst (take l (yo_sent y)))"
    using n(2) l by (cases "yo_server y") (simp add: io_served_def l_def take_map min_def)
  have "entries_ok h s u (oc_time (yo_threads y)) (take l (yo_sent y))"
    using assms(3) by (auto simp: osx_calls_ok_def entries_ok_def list_all_iff simp flip: take_map dest: in_set_takeD)
  note ok = entries_calls [OF this]
  obtain replies where r: "serve_all (serve_body junk u h s 0) (map call_wire (map fst (take l (yo_sent y)))) w0 =
      Inr (map (\<lambda>r. frame_image (reply_wire r)) replies,
        snd (run_calls (table_answer h s 0) (map (decoded junk u) (map fst (take l (yo_sent y)))) w0))"
    "replies_asked (map fst (take l (yo_sent y))) (outcomes junk u h s w0 (take l (yo_sent y))) replies"
    unfolding outcomes_def by (rule serve_all_answers [OF assms(1,2) ok, of junk w0])
  have sent: "io_sent ?i = map (\<lambda>r. frame_image (reply_wire r)) replies" using r(1) w1 served by simp
  have j': "j < l" "j < length replies" using j sent by (simp_all add: l_def)
  have "answers_with (fst (yo_sent y ! j)) (outcomes junk u h s w0 (take l (yo_sent y)) ! j) (replies ! j)"
    using r(2) j' l n(1) by (simp add: replies_asked_nth)
  moreover have "outcomes junk u h s w0 (take l (yo_sent y)) ! j = outcomes junk u h s w0 (yo_sent y) ! j"
    using outcomes_append [of j "take l (yo_sent y)" junk u h s w0 "drop l (yo_sent y)"] j'(1) l n(1) by simp
  ultimately show thesis using that [of "replies ! j"] j' l n(1) sent by simp
qed

section \<open>The data of the callers\<close>

definition answered_ok ::
  "(nat \<Rightarrow> u64) \<Rightarrow> u64 \<Rightarrow> 'w heap \<Rightarrow> 'w server \<Rightarrow> 'w \<Rightarrow> (function_call \<times> buffer) list \<Rightarrow> int \<Rightarrow> call_data \<Rightarrow> bool"
where
  "answered_ok junk u h s w0 es k cd =
     (if cd_called cd then answer_from junk u h s w0 es k (cd_values cd) else cd_values cd = [])"

lemma answered_ok_later: "answered_ok junk u h s w0 es k cd \<Longrightarrow> answered_ok junk u h s w0 (es @ fs) k cd"
  by (simp add: answered_ok_def answer_from_later split: if_splits)

definition osx_data_ok ::
  "(nat \<Rightarrow> u64) \<Rightarrow> u64 \<Rightarrow> 'w heap \<Rightarrow> 'w server \<Rightarrow> 'w \<Rightarrow> 'w osx_system \<Rightarrow> bool"
where
  "osx_data_ok junk u h s w0 y \<longleftrightarrow>
     (\<forall>st d k cd. oc_stack (yo_threads y) = Some st \<longrightarrow> (d, k) \<in> oc_callers (yo_threads y) \<longrightarrow> st d = Some cd \<longrightarrow>
        answered_ok junk u h s w0 (yo_sent y) k cd)"

lemma osx_data_ok_same:
  "osx_data_ok junk u h s w0 y \<Longrightarrow> oc_stack (yo_threads y') = oc_stack (yo_threads y) \<Longrightarrow>
   oc_callers (yo_threads y') = oc_callers (yo_threads y) \<Longrightarrow> yo_sent y' = yo_sent y \<Longrightarrow> osx_data_ok junk u h s w0 y'"
  by (simp add: osx_data_ok_def)

text \<open>Reading a reply, as a part of a call.\<close>

lemma osx_receive_reply:
  assumes "reply_for m uid err" and "function_reply_size m < 2 ^ 32" and "\<not> co_shutting_down c"
    and "ec = E_Success \<or> ec = E_MoreData"
    and "client_osx_receive junk u ec (reply_frame m) (\<lambda>_. reply_wire m) (c, w) = Inr (c', w')"
  obtains vs where "carries m err vs"
    and "w' = (case map_find (co_cb c) (callback_key uid) of None \<Rightarrow> w | Some (f, data) \<Rightarrow> f data vs w)"
proof -
  let ?c = "c\<lparr>co_writer_sem := co_writer_sem c + 1\<rparr>"
  have "client_osx_finish junk u [E_Success] ec (reply_frame m) (\<lambda>_. reply_wire m) (?c, w) = Some (Inr (c', w'))"
    using assms(5) by (simp add: client_osx_finish_parts client_osx_take_def)
  moreover obtain vs where "carries m err vs"
    "client_osx_finish junk u [E_Success] ec (reply_frame m) (\<lambda>_. reply_wire m) (?c, w) = Some (Inr
      (case map_find (co_cb ?c) (callback_key uid) of
         None \<Rightarrow> (?c\<lparr>co_buf := reply_wire m\<rparr>, w)
       | Some (f, data) \<Rightarrow> (?c\<lparr>co_buf := reply_wire m, co_writer_sem := co_writer_sem ?c - 1,
            co_cb := map_erase (callback_key uid) (co_cb ?c)\<rparr>, f data vs w)))"
    by (rule client_osx_reply [OF assms(1,2) _ _ _ assms(4), where c = ?c and writes = "[E_Success]" and junk = junk and
          u = u and w = w and e = E_Success]) (use assms(3) in auto)
  ultimately show thesis using that by (auto split: option.splits)
qed

lemma osx_missed:
  assumes "client_osx_receive cj cu ec hdr body (c, w) = Inr (c', w')"
    and "co_shutting_down c \<or> (ec \<noteq> E_Success \<and> ec \<noteq> E_MoreData)"
  shows "w' = w"
  using assms by (auto simp: client_osx_receive_def client_osx_read_init_def split: if_splits)

text \<open>A reply reaches the caller whose call it answers, and no other.\<close>

lemma osx_data_ok_read:
  assumes "classes_ok h s" and "heap_ok h" and "osx_calls_ok h s u y"
    and "(io_step short junk u h s)\<^sup>*\<^sup>* (instance_osx_make, w0) (yo_server y)" and "osx_client_inv 1 (yo_threads y)"
    and "osx_data_ok junk u h s w0 y" and x: "x = yo_threads y" and "\<not> co_shutting_down (oc_client x)"
    and "ec = E_Success \<or> ec = E_MoreData" and j: "yo_read y < length (io_sent (fst (yo_server y)))"
    and f: "f = io_sent (fst (yo_server y)) ! yo_read y"
    and recv: "client_osx_receive cj cu ec (take 8 f) (\<lambda>_. drop 8 f) (oc_client x, oc_stack x) = Inr (c, w)"
    and y': "oc_stack (yo_threads y') = w" "oc_callers (yo_threads y') = oc_callers x" "yo_sent y' = yo_sent y"
  shows "osx_data_ok junk u h s w0 y'"
proof -
  let ?m = "fst (yo_sent y ! yo_read y)"
  obtain r where r: "f = frame_image (reply_wire r)" "yo_read y < length (yo_sent y)"
    "answers_with ?m (outcomes junk u h s w0 (yo_sent y) ! yo_read y) r"
    unfolding f by (rule osx_reply_of_call [OF assms(1-4) j])
  have "entry_ok h s u (oc_time x) (yo_sent y ! yo_read y)"
    using assms(3) r(2) x by (simp add: osx_calls_ok_def entries_ok_def list_all_iff)
  then have uid: "value_content (call_uid ?m) = Content64 TUInt64 (call_time ?m)"
    by (auto simp: entry_ok_def split: prod.splits)
  obtain err where err: "reply_for r (call_time ?m) err"
    "\<forall>vs. carries r err vs \<longrightarrow> own_answer ?m (outcomes junk u h s w0 (yo_sent y) ! yo_read y) vs"
    by (rule reply_understood [OF r(3) uid])
  obtain st where st: "oc_stack x = Some st" "callers_ok (oc_callers x) (oc_time x) st"
    "shared_ok (co_cb (oc_client x)) (oc_callers x) (oc_time x) st"
    using assms(5) unfolding x by (rule osx_client_invE)
  have size: "function_reply_size r < 2 ^ 32" using r(3) by (simp add: answers_with_def)
  have recv': "client_osx_receive cj cu ec (reply_frame r) (\<lambda>_. reply_wire r) (oc_client x, oc_stack x) = Inr (c, w)"
    using recv r(1) by (simp add: reply_frame_def)
  let ?k = "callback_key (call_time ?m)"
  obtain vs where vs: "carries r err vs" and
    w: "w = (case map_find (co_cb (oc_client x)) ?k of None \<Rightarrow> oc_stack x | Some (f, data) \<Rightarrow> f data vs (oc_stack x))"
    by (rule osx_receive_reply [OF err(1) size assms(8,9) recv'])
  show ?thesis
  proof (cases "map_find (co_cb (oc_client x)) ?k")
    case None
    then show ?thesis using w y' x by (intro osx_data_ok_same [OF assms(6)]) simp_all
  next
    case (Some fd)
    then obtain g d where fd: "map_find (co_cb (oc_client x)) ?k = Some (g, d)" by (cases fd) auto
    from st(3) fd show ?thesis
    proof (cases rule: shared_cases)
      case (application t)
      then have "w = oc_stack x" using w fd by (simp add: app_callback_def)
      then show ?thesis using y' x by (intro osx_data_ok_same [OF assms(6)]) simp_all
    next
    case cd: (helper cd)
    have old: "answered_ok junk u h s w0 (yo_sent y) k' cd'"
      if "(d', k') \<in> oc_callers x" "st d' = Some cd'" for d' k' cd'
      using assms(6) st(1) that unfolding osx_data_ok_def x by blast
    have "cd_values cd = []" using old [OF cd(2,3)] cd(4) by (simp add: answered_ok_def)
    then have w': "w = Some (st(d \<mapsto> cd\<lparr>cd_values := vs, cd_called := True, cd_sgn := cd_sgn cd + 1\<rparr>))"
      using w fd cd st(1) by (simp add: sync_callback_live)
    have "answered_ok junk u h s w0 (yo_sent y) ?k (cd\<lparr>cd_values := vs, cd_called := True, cd_sgn := cd_sgn cd + 1\<rparr>)"
      using r(2) err(2) vs by (auto simp: answered_ok_def answer_from_def)
    moreover have "k' = ?k" if "(d, k') \<in> oc_callers x" for k'
      using that cd(2) st(2) unfolding callers_ok_def by blast
    ultimately show ?thesis using old y' w' unfolding osx_data_ok_def by auto
    qed
  qed
qed

section \<open>The invariant of the system\<close>

definition osx_system_inv ::
  "bool \<Rightarrow> (nat \<Rightarrow> u64) \<Rightarrow> u64 \<Rightarrow> 'w heap \<Rightarrow> 'w server \<Rightarrow> 'w \<Rightarrow> 'w osx_system \<Rightarrow> bool"
where
  "osx_system_inv short junk u h s w0 y \<longleftrightarrow>
     (io_step short junk u h s)\<^sup>*\<^sup>* (instance_osx_make, w0) (yo_server y) \<and> osx_client_inv 1 (yo_threads y) \<and> busy_ok y \<and>
     osx_calls_ok h s u y \<and> (classes_ok h s \<and> heap_ok h \<longrightarrow> osx_data_ok junk u h s w0 y)"

lemma osx_data_ok_enters:
  assumes "osx_data_ok junk u h s w0 y" and "x = yo_threads y" and "oc_stack x = Some st"
    and "oc_stack (yo_threads y') = stack_alloc data (Some st)" and "oc_callers (yo_threads y') = insert (data, cbid) (oc_callers x)"
    and "yo_sent y' = yo_sent y"
  shows "osx_data_ok junk u h s w0 y'"
  using assms unfolding osx_data_ok_def by (auto simp: stack_alloc_def call_data_init_def answered_ok_def)

lemma osx_sync_end_stack:
  "client_osx_sync_end cbid data (c, w) = Some (Inr (vals, c', w')) \<Longrightarrow> w' = stack_free data w"
  by (auto simp: client_osx_sync_end_def split: option.splits if_splits)

lemma osx_data_ok_step:
  assumes "osx_system_step short junk u h s y y'" and "osx_system_inv short junk u h s w0 y" and "classes_ok h s" and "heap_ok h"
  shows "osx_data_ok junk u h s w0 y'"
proof -
  have inv: "osx_calls_ok h s u y" "(io_step short junk u h s)\<^sup>*\<^sup>* (instance_osx_make, w0) (yo_server y)"
    "osx_client_inv 1 (yo_threads y)" "osx_data_ok junk u h s w0 y"
    using assms(2-4) by (auto simp: osx_system_inv_def)
  from assms(1) inv show ?thesis
  proof (induction rule: osx_system_step.induct)
    case (enters x y cu cname fname args data frame cbid t c st m)
    show ?case by (rule osx_data_ok_enters [OF enters(13,1,3)]) simp_all
  next
    case (registers x y cu cname fname args fn data cbid frame cbid' t c m)
    then show ?case by (auto intro: osx_data_ok_same)
  next
    case (takes x y e c)
    then show ?case by (auto intro: osx_data_ok_same)
  next
    case (writes e y)
    then show ?case by (auto simp: osx_data_ok_def answered_ok_later)
  next
    case (reads x y e ec f cj cu c w)
    show ?case by (rule osx_data_ok_read [OF assms(3,4) reads(9-12,1,4-8)]) simp_all
  next
    case (misses x y e ec cj cu hdr body c w)
    have "w = oc_stack x" by (rule osx_missed [OF misses(5,4)])
    then show ?case using misses(1) by (intro osx_data_ok_same [OF misses(9)]) simp_all
  next
    case (leaves x y data cbid vals c w)
    have w: "w = stack_free data (oc_stack x)" by (rule osx_sync_end_stack [OF leaves(3)])
    show ?case using leaves(7) unfolding osx_data_ok_def w leaves(1) stack_free_def by (auto split: if_splits)
  qed (auto intro: osx_data_ok_same)
qed

lemma osx_system_step_inv:
  assumes "osx_system_step short junk u h s y y'" and "osx_system_inv short junk u h s w0 y"
  shows "osx_system_inv short junk u h s w0 y'"
proof -
  have inv: "(io_step short junk u h s)\<^sup>*\<^sup>* (instance_osx_make, w0) (yo_server y)" "osx_client_inv 1 (yo_threads y)"
    "busy_ok y" "osx_calls_ok h s u y"
    using assms(2) by (simp_all add: osx_system_inv_def)
  have "(io_step short junk u h s)\<^sup>*\<^sup>* (instance_osx_make, w0) (yo_server y')"
    using inv(1) server_step_osx [OF assms(1)] by simp
  moreover have "osx_client_inv 1 (yo_threads y')"
    using threads_step [OF assms(1) inv(3)] inv(2) osx_client_step_inv by auto
  ultimately show ?thesis
    using osx_data_ok_step [OF assms] busy_ok_step [OF assms(1) inv(3)] osx_calls_ok_step [OF assms(1) inv(4)]
    by (simp add: osx_system_inv_def)
qed

interpretation osx_system: state_machine "\<lambda>y. y = osx_system_init w0" "osx_system_step short junk u h s"
  "osx_system_inv short junk u h s w0"
  for w0 short junk u h s
proof
  show "y = osx_system_init w0 \<Longrightarrow> osx_system_inv short junk u h s w0 y" for y
    using osx_client_inv_init
    by (simp add: osx_system_inv_def osx_system_init_def osx_callers_init_def busy_ok_def osx_calls_ok_def entries_ok_def
        osx_data_ok_def instance_osx_make_def)
qed (rule osx_system_step_inv)

section \<open>One call through the system\<close>

lemma io_bodies_grow: "io_step short junk u h s k k' \<Longrightarrow> \<exists>bs. io_bodies (fst k') = io_bodies (fst k) @ bs"
proof (induction rule: io_step.induct)
  case (req_read i hdr ec body i' w)
  from req_read(4) show ?case by (cases rule: io_read_init_cases) auto
next
  case (rep_serve i w b i' w')
  from rep_serve(2) show ?case by (cases rule: serve_cases) auto
qed auto

text \<open>The steps of the system in which every header that is read is followed by a message.\<close>

definition osx_fed ::
  "bool \<Rightarrow> (nat \<Rightarrow> u64) \<Rightarrow> u64 \<Rightarrow> 'w heap \<Rightarrow> 'w server \<Rightarrow> 'w osx_system \<Rightarrow> 'w osx_system \<Rightarrow> bool"
where
  "osx_fed short junk u h s y y' \<longleftrightarrow> osx_system_step short junk u h s y y' \<and>
     gets_message (fst (yo_server y)) (fst (yo_server y'))"

lemma osx_fed_run: "(osx_fed short junk u h s)\<^sup>*\<^sup>* y y' \<Longrightarrow> (osx_system_step short junk u h s)\<^sup>*\<^sup>* y y'"
  by (erule mono_rtranclp [rule_format, rotated]) (simp add: osx_fed_def)

lemma osx_fed_other: "osx_system_step short junk u h s y y' \<Longrightarrow> yo_server y' = yo_server y \<Longrightarrow> osx_fed short junk u h s y y'"
  by (simp add: osx_fed_def gets_message_def)

lemma osx_serves_run:
  assumes "(io_fed short junk u h s)\<^sup>*\<^sup>* (yo_server y) k"
    and "io_bodies (fst k) = take n (map (\<lambda>(m, frame). drop 8 frame) (yo_sent y))"
  shows "(osx_fed short junk u h s)\<^sup>*\<^sup>* y (y\<lparr>yo_server := k\<rparr>)"
  using assms
proof (induction arbitrary: n rule: rtranclp_induct)
  case (step k1 k2)
  have k1: "io_bodies (fst k1) =
      take (min (length (io_bodies (fst k1))) n) (map (\<lambda>(m, frame). drop 8 frame) (yo_sent y))"
    using io_bodies_grow step(2,4) unfolding io_fed_def by (metis append_eq_conv_conj take_take)
  have "osx_system_step short junk u h s (y\<lparr>yo_server := k1\<rparr>) (y\<lparr>yo_server := k1\<rparr>\<lparr>yo_server := k2\<rparr>)"
    by (rule osx_system_step.serves [where n = n]) (use step(2,4) in \<open>simp_all add: io_fed_def\<close>)
  then have "osx_fed short junk u h s (y\<lparr>yo_server := k1\<rparr>) (y\<lparr>yo_server := k2\<rparr>)"
    using step(2) by (simp add: osx_fed_def io_fed_def)
  with step(3) [OF k1] show ?case by simp
qed simp

text \<open>The client is not stopped, the semaphore is free, the instance waits for a request, has executed all calls, and all replies were read.\<close>

definition osx_system_quiet :: "'w osx_system \<Rightarrow> bool" where
  "osx_system_quiet y \<longleftrightarrow> co_socket (oc_client (yo_threads y)) \<and> 0 < co_writer_sem (oc_client (yo_threads y)) \<and> \<not> co_shutting_down (oc_client (yo_threads y)) \<and>
     io_ready (fst (yo_server y)) \<and> length (io_bodies (fst (yo_server y))) = length (yo_sent y) \<and>
     yo_read y = length (io_sent (fst (yo_server y)))"

lemma osx_quiet_serves:
  assumes "osx_system_inv short junk u h s w0 y" and "osx_system_quiet y" and "yo_server y2 = yo_server y"
    and "yo_sent y2 = yo_sent y @ [(m, frame_image (call_wire m))]" and "proper_call m"
    and "serve_body junk u h s 0 (call_wire m) (snd (yo_server y)) = Inr (f, w')"
  obtains i where "(osx_fed short junk u h s)\<^sup>*\<^sup>* y2 (y2\<lparr>yo_server := (i, w')\<rparr>)" and "io_ready i"
    and "length (io_bodies i) = length (yo_sent y2)" and "io_sent i = io_sent (fst (yo_server y)) @ [f]"
proof -
  obtain i0 w where k: "yo_server y = (i0, w)" by (cases "yo_server y")
  have calls: "osx_calls_ok h s u y" using assms(1) by (simp add: osx_system_inv_def)
  have body: "1 < length (call_wire m)" "length (take 8 (frame_image (call_wire m))) = 8"
    by (simp_all add: length_call_wire function_call_size_def frame_image_def)
  have ready: "io_ready i0" using assms(2) k by (simp add: osx_system_quiet_def)
  have serve: "serve_body junk u h s 0 (call_wire m) w = Inr (f, w')" using assms(6) k by simp
  obtain i where i: "(io_fed short junk u h s)\<^sup>*\<^sup>* (i0, w) (i, w')" "io_ready i"
    "io_bodies i = io_bodies i0 @ [call_wire m]" "io_sent i = io_sent i0 @ [f]"
    using io_serves_one [OF ready frame_cut_call [OF assms(5)] body(2,1) serve] by blast
  obtain n where "n \<le> length (yo_sent y)" "io_bodies i0 = take n (map call_wire (map fst (yo_sent y)))"
    using calls k by (auto simp: osx_calls_ok_def)
  then have "io_bodies i0 = map call_wire (map fst (yo_sent y))" using assms(2) k by (simp add: osx_system_quiet_def)
  moreover have "entries_ok h s u (oc_time (yo_threads y)) (yo_unsent y @ yo_held y @ yo_sent y)"
    using calls by (simp add: osx_calls_ok_def)
  then have "map (\<lambda>(m, frame). drop 8 frame) (yo_sent y) = map call_wire (map fst (yo_sent y))"
    by (rule frames_of_entries [OF entries_ok_append [OF entries_ok_append]])
  ultimately have "io_bodies i = map (\<lambda>(m, frame). drop 8 frame) (yo_sent y2)" using i(3) assms(4) by simp
  then have bodies: "io_bodies (fst (i, w')) = take (length (yo_sent y2)) (map (\<lambda>(m, frame). drop 8 frame) (yo_sent y2))"
    by simp
  have "(io_fed short junk u h s)\<^sup>*\<^sup>* (yo_server y2) (i, w')" using i(1) assms(3) k by simp
  from osx_serves_run [OF this bodies] have "(osx_fed short junk u h s)\<^sup>*\<^sup>* y2 (y2\<lparr>yo_server := (i, w')\<rparr>)" .
  moreover have "length (io_bodies i) = length (yo_sent y2)" using i(3) assms(2,4) k by (simp add: osx_system_quiet_def)
  ultimately show thesis using i(2,4) k that by simp
qed

lemma osx_fresh_key:
  assumes "osx_client_inv n x" and "oc_time x + 1 \<noteq> 0"
  shows "map_find (co_cb (oc_client x)) (callback_key (oc_time x + 1)) = None" and "map_ok (co_cb (oc_client x))"
proof -
  obtain st where st: "callers_ok (oc_callers x) (oc_time x) st" "shared_ok (co_cb (oc_client x)) (oc_callers x) (oc_time x) st"
    using assms(1) by (rule osx_client_invE)
  show "map_find (co_cb (oc_client x)) (callback_key (oc_time x + 1)) = None" by (rule shared_fresh(1) [OF st assms(2)])
  show "map_ok (co_cb (oc_client x))" using st(2) by (simp add: shared_ok_def)
qed

text \<open>What the thread of a call gets when it reads its own reply, and what the helper then returns.\<close>

lemma osx_own_reply:
  assumes "map_find (co_cb c) (callback_key uid) = Some (sync_callback, data)" and "reply_for r uid err"
    and "function_reply_size r < 2 ^ 32" and "\<not> co_shutting_down c"
  obtains vs c' where "carries r err vs" and "co_shutting_down c' = co_shutting_down c"
    and "co_writer_sem c' = co_writer_sem c"
    and "client_osx_receive cj cu E_Success (take 8 (frame_image (reply_wire r))) (\<lambda>_. drop 8 (frame_image (reply_wire r)))
      (c, stack_alloc data (Some st)) = Inr (c', Some (st(data \<mapsto> \<lparr>cd_sgn = 1, cd_called = True, cd_values = vs\<rparr>)))"
proof -
  let ?c = "c\<lparr>co_writer_sem := co_writer_sem c + 1\<rparr>"
  obtain vs where vs: "carries r err vs"
    "client_osx_finish cj cu [E_Success] E_Success (reply_frame r) (\<lambda>_. reply_wire r) (?c, stack_alloc data (Some st)) = Some (Inr
      (?c\<lparr>co_buf := reply_wire r, co_writer_sem := co_writer_sem ?c - 1, co_cb := map_erase (callback_key uid) (co_cb ?c)\<rparr>,
       sync_callback data vs (stack_alloc data (Some st))))"
    by (rule client_osx_reply [OF assms(2,3), where c = ?c and writes = "[E_Success]" and junk = cj and u = cu and
          w = "stack_alloc data (Some st)" and e = E_Success and ec = E_Success]) (use assms(1,4) in auto)
  have "sync_callback data vs (stack_alloc data (Some st)) =
      Some (st(data \<mapsto> \<lparr>cd_sgn = 1, cd_called = True, cd_values = vs\<rparr>))"
    by (simp add: stack_alloc_def sync_callback_def call_data_init_def)
  then have "client_osx_receive cj cu E_Success (reply_frame r) (\<lambda>_. reply_wire r) (c, stack_alloc data (Some st)) =
      Inr (?c\<lparr>co_buf := reply_wire r, co_writer_sem := co_writer_sem c, co_cb := map_erase (callback_key uid) (co_cb c)\<rparr>,
       Some (st(data \<mapsto> \<lparr>cd_sgn = 1, cd_called = True, cd_values = vs\<rparr>)))"
    using vs(2) by (simp add: client_osx_finish_parts client_osx_take_def)
  then show thesis using that vs(1) by (simp add: reply_frame_def)
qed

text \<open>The first three steps of a call: it is registered, takes the semaphore and writes its frame.\<close>

lemma osx_call_opens:
  assumes x: "x = yo_threads y" and "osx_client_inv n x" and "0 < co_writer_sem (oc_client x)" and socket: "co_socket (oc_client x)"
    and st: "oc_stack x = Some st" "st data = None" and time: "oc_time x + 1 \<noteq> 0"
    and m: "m = build_call (oc_time x + 1) cu cname fname args" "proper_call m" "replies_fit h s 0 u [m]"
  obtains c where "(osx_fed short junk u h s)\<^sup>*\<^sup>* y
      (y\<lparr>yo_threads := x\<lparr>oc_stack := stack_alloc data (Some st), oc_time := oc_time x + 1,
          oc_callers := insert (data, callback_key (oc_time x + 1)) (oc_callers x), oc_client := c, oc_busy := oc_busy x + 1\<rparr>,
        yo_sent := yo_sent y @ [(m, frame_image (call_wire m))], yo_reading := (m, frame_image (call_wire m)) # yo_reading y\<rparr>)"
    and "map_find (co_cb c) (callback_key (oc_time x + 1)) = Some (sync_callback, data)"
    and "co_writer_sem c = co_writer_sem (oc_client x) - 1" and "co_shutting_down c = co_shutting_down (oc_client x)"
    and "co_socket c"
proof -
  let ?k = "callback_key (oc_time x + 1)" and ?e = "(m, frame_image (call_wire m))"
  let ?c1 = "(oc_client x)\<lparr>co_cb := map_insert ?k (sync_callback, data) (co_cb (oc_client x))\<rparr>"
  let ?x1 = "x\<lparr>oc_client := ?c1, oc_stack := stack_alloc data (Some st), oc_time := oc_time x + 1,
    oc_callers := insert (data, ?k) (oc_callers x)\<rparr>"
  let ?y1 = "y\<lparr>yo_threads := ?x1, yo_unsent := ?e # yo_unsent y\<rparr>"
  let ?c2 = "?c1\<lparr>co_writer_sem := co_writer_sem ?c1 - 1\<rparr>"
  let ?y2 = "?y1\<lparr>yo_threads := ?x1\<lparr>oc_client := ?c2, oc_busy := oc_busy ?x1 + 1\<rparr>,
    yo_unsent := remove1 ?e (yo_unsent ?y1), yo_held := ?e # yo_held ?y1\<rparr>"
  let ?y3 = "?y2\<lparr>yo_held := remove1 ?e (yo_held ?y2), yo_sent := yo_sent ?y2 @ [?e], yo_reading := ?e # yo_reading ?y2\<rparr>"
  have b: "client_osx_begin cu cname fname args (Some sync_callback) data 0 (oc_time x) (oc_client x) =
      Inr (frame_image (call_wire m), ?k, oc_time x + 1, ?c1)"
    using client_osx_begin_frame [OF proper_frame [OF m(2) [unfolded m(1)]], of "Some sync_callback" data 0 "oc_client x"]
    by (simp add: m(1))
  have 1: "osx_system_step short junk u h s y ?y1" by (rule osx_system_step.enters [OF x b st time socket m])
  have take: "client_osx_take (oc_client ?x1) = Some ?c2" using assms(3) by (simp add: client_osx_take_def)
  have 2: "osx_system_step short junk u h s ?y1 ?y2" by (rule osx_system_step.takes [OF _ _ take]) simp_all
  have 3: "osx_system_step short junk u h s ?y2 ?y3" by (rule osx_system_step.writes) (use socket in simp_all)
  have "osx_fed short junk u h s y ?y1" "osx_fed short junk u h s ?y1 ?y2" "osx_fed short junk u h s ?y2 ?y3"
    by (rule osx_fed_other, fact 1 2 3, simp)+
  then have "(osx_fed short junk u h s)\<^sup>*\<^sup>* y ?y3"
    by (meson converse_rtranclp_into_rtranclp rtranclp.rtrancl_refl)
  then show thesis
    using that [of ?c2] osx_fresh_key [OF assms(2) time] socket by (simp add: om.find_insert)
qed

text \<open>Then the instance serves it, and its thread reads the reply.\<close>

lemma osx_system_call_run:
  assumes "classes_ok h s" and "heap_ok h" and inv: "osx_system_inv short junk u h s w0 y" and quiet: "osx_system_quiet y"
    and x: "x = yo_threads y" and st: "oc_stack x = Some st" "st data = None" and time: "oc_time x + 1 \<noteq> 0"
    and m: "m = build_call (oc_time x + 1) cu cname fname args" "proper_call m" "replies_fit h s 0 u [m]"
    and oc: "oc = table_answer h s 0 (decoded junk u m) (snd (yo_server y))"
  shows "\<exists>y' f vals c. (osx_fed short junk u h s)\<^sup>*\<^sup>* y y' \<and> yo_sent y' = yo_sent y @ [(m, frame_image (call_wire m))] \<and>
    io_sent (fst (yo_server y')) = io_sent (fst (yo_server y)) @ [f] \<and>
    serve_body junk u h s 0 (call_wire m) (snd (yo_server y)) = Inr (f, outcome_world (snd (yo_server y)) oc) \<and>
    (data, callback_key (oc_time x + 1)) \<in> oc_callers (yo_threads y') \<and>
    client_osx_sync_end (callback_key (oc_time x + 1)) data (oc_client (yo_threads y'), oc_stack (yo_threads y')) =
      Some (Inr (vals, c, Some st)) \<and>
    outcome_seen cname fname oc vals \<and> snd (yo_server y') = outcome_world (snd (yo_server y)) oc \<and>
    osx_system_quiet (y'\<lparr>yo_threads := (yo_threads y')\<lparr>oc_client := c\<rparr>\<rparr>)"
proof -
  have client: "osx_client_inv 1 x" using inv by (simp add: osx_system_inv_def x)
  have sem: "0 < co_writer_sem (oc_client x)" "\<not> co_shutting_down (oc_client x)" "co_socket (oc_client x)" using quiet by (simp_all add: osx_system_quiet_def x)
  let ?k = "callback_key (oc_time x + 1)" and ?e = "(m, frame_image (call_wire m))"
  obtain r err where serve: "serve_body junk u h s 0 (call_wire m) (snd (yo_server y)) =
      Inr (frame_image (reply_wire r), outcome_world (snd (yo_server y)) oc)"
    and err: "reply_for r (oc_time x + 1) err" "function_reply_size r < 2 ^ 32"
    and seen: "\<forall>vs. carries r err vs \<longrightarrow> outcome_seen cname fname oc vs"
    by (rule call_answered [OF assms(1,2) m oc])
  obtain c where open_run: "(osx_fed short junk u h s)\<^sup>*\<^sup>* y
      (y\<lparr>yo_threads := x\<lparr>oc_stack := stack_alloc data (Some st), oc_time := oc_time x + 1,
          oc_callers := insert (data, ?k) (oc_callers x), oc_client := c, oc_busy := oc_busy x + 1\<rparr>,
        yo_sent := yo_sent y @ [?e], yo_reading := ?e # yo_reading y\<rparr>)"
    (is "_\<^sup>*\<^sup>* y ?y3")
    and c: "map_find (co_cb c) ?k = Some (sync_callback, data)"
      "co_writer_sem c = co_writer_sem (oc_client x) - 1" "co_shutting_down c = co_shutting_down (oc_client x)" "co_socket c"
    by (rule osx_call_opens [OF x client sem(1,3) st time m, of short junk])
  have y3: "yo_server ?y3 = yo_server y" "yo_sent ?y3 = yo_sent y @ [?e]" by simp_all
  obtain i where serve_run: "(osx_fed short junk u h s)\<^sup>*\<^sup>* ?y3
      (?y3\<lparr>yo_server := (i, outcome_world (snd (yo_server y)) oc)\<rparr>)" (is "_\<^sup>*\<^sup>* _ ?y4")
    and i: "io_ready i" "length (io_bodies i) = length (yo_sent ?y3)" "io_sent i = io_sent (fst (yo_server y)) @ [frame_image (reply_wire r)]"
    by (rule osx_quiet_serves [OF inv quiet y3 m(2) serve])
  obtain vs c' where vs: "carries r err vs" "co_shutting_down c' = co_shutting_down c" "co_writer_sem c' = co_writer_sem c"
    "client_osx_receive junk cu E_Success (take 8 (frame_image (reply_wire r))) (\<lambda>_. drop 8 (frame_image (reply_wire r)))
      (c, stack_alloc data (Some st)) = Inr (c', Some (st(data \<mapsto> \<lparr>cd_sgn = 1, cd_called = True, cd_values = vs\<rparr>)))"
    by (rule osx_own_reply [OF c(1) err, where cj = junk and cu = cu and st = st]) (use sem(2) c(3) in simp_all)
  let ?w = "Some (st(data \<mapsto> \<lparr>cd_sgn = 1, cd_called = True, cd_values = vs\<rparr>))"
  let ?y5 = "?y4\<lparr>yo_threads := (yo_threads ?y4)\<lparr>oc_client := c', oc_stack := ?w, oc_busy := oc_busy (yo_threads ?y4) - 1\<rparr>,
      yo_reading := remove1 ?e (yo_reading ?y4), yo_read := Suc (yo_read ?y4)\<rparr>"
  have read: "yo_read y < length (io_sent i)" "frame_image (reply_wire r) = io_sent i ! yo_read y"
    using i(3) quiet by (simp_all add: osx_system_quiet_def)
  have "osx_system_step short junk u h s ?y4 ?y5"
    by (rule osx_system_step.reads [where ec = E_Success and cj = junk and cu = cu and f = "frame_image (reply_wire r)"])
      (use vs(4) sem(2) c(3,4) read in simp_all)
  then have "osx_fed short junk u h s ?y4 ?y5" by (rule osx_fed_other) simp
  with open_run serve_run have run: "(osx_fed short junk u h s)\<^sup>*\<^sup>* y ?y5"
    by (meson rtranclp_trans rtranclp.rtrancl_into_rtrancl)
  let ?c = "c'\<lparr>co_writer_sem := co_writer_sem c' + 1\<rparr>"
  have "st(data := None) = st" using st(2) by auto
  then have end_eq: "client_osx_sync_end ?k data (c', ?w) = Some (Inr (vs, ?c, Some st))"
    by (simp add: client_osx_sync_end_def stack_free_def)
  have "osx_system_quiet (?y5\<lparr>yo_threads := (yo_threads ?y5)\<lparr>oc_client := ?c\<rparr>\<rparr>)"
    using quiet i vs(2) c(3,4) sem(2) receive_socket [OF vs(4)] by (simp add: osx_system_quiet_def)
  moreover have "outcome_seen cname fname oc vs" using seen vs(1) by blast
  ultimately show ?thesis using run end_eq serve i(3)
    by (intro exI [of _ ?y5] exI [of _ "frame_image (reply_wire r)"] exI [of _ vs] exI [of _ ?c]) simp
qed

lemma osx_quiet_init: "osx_system_quiet (osx_system_init w0)"
  by (simp add: osx_system_quiet_def osx_system_init_def osx_callers_init_def client_osx_make_def instance_osx_make_def
      io_ready_def goes_on_def no_requests_def)

section \<open>The answers to the callers\<close>

text \<open>
  Over pipes that deliver whole frames, a caller that returns from the helper returns what a caller must see for
  the outcome of the call with its id, when all calls are run on the server's table one after the other in the
  order they were written. No two calls have the same id.
\<close>

lemma osx_system_own_answers:
  assumes "classes_ok h s" and "heap_ok h" and "(osx_system_step short junk u h s)\<^sup>*\<^sup>* (osx_system_init w0) y"
    and "(data, cbid) \<in> oc_callers (yo_threads y)"
    and "client_osx_sync_end cbid data (oc_client (yo_threads y), oc_stack (yo_threads y)) = Some (Inr (vals, c, w))"
  shows "(\<exists>j < length (yo_sent y). let m = fst (yo_sent y ! j) in cbid = callback_key (call_time m) \<and>
      outcome_seen (value_str (call_class_name m)) (value_str (call_function_name m))
        (outcomes junk u h s w0 (yo_sent y) ! j) vals) \<and>
    distinct (map (call_time \<circ> fst) (yo_unsent y @ yo_held y @ yo_sent y))"
proof -
  have inv: "osx_client_inv 1 (yo_threads y)" "osx_calls_ok h s u y" "osx_data_ok junk u h s w0 y"
    using osx_system.reachable_inv [OF refl assms(3)] assms(1,2) by (simp_all add: osx_system_inv_def)
  obtain st where st: "oc_stack (yo_threads y) = Some st" "posted_ok (oc_callers (yo_threads y)) st"
    using inv(1) by (rule osx_client_invE)
  obtain cd where cd: "st data = Some cd" "cd_sgn cd \<noteq> 0"
    using assms(5) st(1) by (auto simp: client_osx_sync_end_def split: option.splits if_splits)
  then have called: "cd_called cd" using st(2) assms(4) unfolding posted_ok_def by blast
  then have "vals = cd_values cd" using assms(5) st(1) cd by (simp add: client_osx_sync_end_def)
  moreover have "answered_ok junk u h s w0 (yo_sent y) cbid cd"
    using inv(3) st(1) cd(1) assms(4) by (auto simp: osx_data_ok_def)
  ultimately show ?thesis
    using called inv(2) by (auto simp: answered_ok_def answer_from_def own_answer_def Let_def osx_calls_ok_def entries_ok_def)
qed

lemma counting_osx:
  "oc_stack (yo_threads (osx_system_init w0)) = Some (\<lambda>_. None)" "snd (yo_server (osx_system_init w0)) = w0"
  "counting_call 1 = build_call (oc_time (yo_threads (osx_system_init w0)) + 1) 0 ''C'' ''f'' []"
  "oc_time (yo_threads (osx_system_init w0)) + 1 \<noteq> 0" "oc_time (yo_threads (osx_system_init w0)) = 0"
  "yo_sent (osx_system_init w0) = []"
  by (simp_all add: osx_system_init_def osx_callers_init_def counting_call_def)

end
