(* ===== verification/Pipe_Osx.thy ===== *)
theory Pipe_Osx
  imports Socket_Osx Serial_Server
begin

text \<open>
  The macOS socket on named pipes. \<open>Socket_Osx\<close> takes the answers of \<open>::read\<close> as they come; here they come
  from a FIFO, the bytes in it being the ones written and not yet read. What reaches the FIFO before each
  call of the reader is an argument (\<open>arrivals\<close>), so that every interleaving with the writers is covered.
\<close>

section \<open>A FIFO\<close>

text \<open>
  A read of \<open>n\<close> bytes gets what is there, at most \<open>n\<close>; from an empty FIFO a blocking read waits and the
  other one fails. The reader of \<open>Socket_Osx\<close> asks for its buffer's length first, and for a chunk in every
  later call.
\<close>

fun fifo_answers :: "bool \<Rightarrow> nat \<Rightarrow> buffer list \<Rightarrow> buffer \<Rightarrow> sys_read list" where
  "fifo_answers blocking n [] fifo = []"
| "fifo_answers blocking n (new # arrivals) fifo =
     (let fifo = fifo @ new in
      if fifo = [] then
        (if blocking then fifo_answers blocking n arrivals [] else Fail # fifo_answers blocking chunk_size arrivals [])
      else Got (take n fifo) # fifo_answers blocking chunk_size arrivals (drop n fifo))"

text \<open>The FIFO and the arrivals left when the read returns, which is after the first answer that does not go on.\<close>

fun fifo_after :: "bool \<Rightarrow> nat \<Rightarrow> buffer list \<Rightarrow> buffer \<Rightarrow> buffer \<times> buffer list" where
  "fifo_after blocking n [] fifo = (fifo, [])"
| "fifo_after blocking n (new # arrivals) fifo =
     (let fifo = fifo @ new in
      if fifo = [] then fifo_after blocking (if blocking then n else chunk_size) arrivals []
      else if inner_goes_on (int (length (take n fifo))) then fifo_after blocking chunk_size arrivals (drop n fifo)
      else (drop n fifo, arrivals))"

lemma chunk_pos [simp]: "0 < chunk_size"
  by (simp add: chunk_size_def)

lemma fails_go_on [simp]: "inner_goes_on (- 1)"
  by (simp add: inner_goes_on_def)

text \<open>\<open>fifo_after\<close> is where the loops of \<open>read\<close> stop: the answers they leave are those of this FIFO.\<close>

lemma fifo_after_answers:
  "0 < n \<Longrightarrow> osx_read_loop chunk (fifo_answers blocking n arrivals fifo) offset buf = Some (Inr (buf', rest)) \<Longrightarrow>
   rest = (case fifo_after blocking n arrivals fifo of (fifo, arrivals) \<Rightarrow> fifo_answers blocking chunk_size arrivals fifo)"
proof (induction blocking n arrivals fifo arbitrary: chunk offset buf rule: fifo_answers.induct)
  case (2 blocking n new arrivals fifo)
  show ?case
  proof (cases "fifo @ new = []")
    case True
    then show ?thesis using 2 by (cases blocking) (auto simp: Let_def)
  next
    case False
    then have "take n (fifo @ new) \<noteq> []" using 2(4) by (metis neq0_conv take_eq_Nil)
    then have "\<not> int (length (take n (fifo @ new))) \<le> 0" by (metis length_0_conv of_nat_le_0_iff)
    then show ?thesis
      using False 2(3) [OF refl False chunk_pos] 2(5) by (auto simp: Let_def split: sum.splits if_splits)
  qed
qed simp

section \<open>Reading frames\<close>

definition osx_fifo_read ::
  "int \<Rightarrow> buffer list \<Rightarrow> buffer \<Rightarrow> nat \<Rightarrow> bool \<Rightarrow> osx_socket \<Rightarrow> buffer
   \<Rightarrow> ((os_error \<times> osx_socket \<times> buffer) \<times> buffer \<times> buffer list) result option"
where
  "osx_fifo_read opened arrivals fifo len blocking s buf =
     map_option (\<lambda>r. rbind r (\<lambda>out.
         Inr (out, if opened < 0 then (fifo, arrivals) else fifo_after blocking len arrivals fifo)))
       (osx_read opened (fifo_answers blocking len arrivals fifo) len blocking s buf)"

text \<open>
  The two reads of a frame, as both \<open>worker_req\<close> with \<open>read_callback_init\<close> and \<open>call\<close> with its
  \<open>read_callback_init\<close> make them: a header of 8 bytes with a blocking read, and then the body of the
  announced length with one that does not block, in the same buffer and without a look at its code. A body
  shorter than \<open>least\<close> is not read: 2 in the instance, 1 in the client.
\<close>

definition osx_read_header ::
  "int \<Rightarrow> buffer list \<Rightarrow> buffer \<Rightarrow> osx_socket \<Rightarrow> buffer
   \<Rightarrow> ((os_error \<times> osx_socket \<times> buffer) \<times> buffer \<times> buffer list) result option"
where
  "osx_read_header opened arrivals fifo s buf = osx_fifo_read opened arrivals fifo 8 True s (resize_bytes 8 buf)"

definition osx_read_body ::
  "nat \<Rightarrow> int \<Rightarrow> buffer list \<Rightarrow> buffer \<Rightarrow> osx_socket \<Rightarrow> buffer \<Rightarrow> (buffer \<times> osx_socket \<times> buffer \<times> buffer list) result option"
where
  "osx_read_body least opened arrivals fifo s buf =
     (case read_size buf of
        Inl e \<Rightarrow> Some (Inl e)
      | Inr n_size \<Rightarrow>
          if least \<le> n_size then
            map_option (\<lambda>r. rbind r (\<lambda>((_, s, body), fifo, arrivals). Inr (body, s, fifo, arrivals)))
              (osx_fifo_read opened arrivals fifo n_size False s (resize_bytes n_size buf))
          else Some (Inr ([], s, fifo, arrivals)))"

definition osx_read_frame ::
  "nat \<Rightarrow> int \<Rightarrow> int \<Rightarrow> buffer list \<Rightarrow> buffer \<Rightarrow> osx_socket \<Rightarrow> buffer
   \<Rightarrow> (os_error \<times> buffer \<times> buffer \<times> osx_socket \<times> buffer \<times> buffer list) result option"
where
  "osx_read_frame least opened1 opened2 arrivals fifo s buf =
     (case osx_read_header opened1 arrivals fifo s buf of
        None \<Rightarrow> None
      | Some (Inl e) \<Rightarrow> Some (Inl e)
      | Some (Inr ((ec, s, hdr), fifo, arrivals)) \<Rightarrow>
          if ec = E_Success then
            map_option (\<lambda>r. rbind r (\<lambda>(body, s, fifo, arrivals). Inr (ec, hdr, body, s, fifo, arrivals)))
              (osx_read_body least opened2 arrivals fifo s hdr)
          else Some (Inr (ec, hdr, [], s, fifo, arrivals)))"

lemmas read_frame_defs = osx_read_frame_def osx_read_header_def osx_read_body_def

section \<open>What one call of a reader gets\<close>

text \<open>The socket with the descriptor a read has opened.\<close>

definition opened_for :: "bool \<Rightarrow> int \<Rightarrow> osx_socket \<Rightarrow> osx_socket" where
  "opened_for blocking fd s = (if blocking then s\<lparr>fd_read_b := fd\<rparr> else s\<lparr>fd_read_nb := fd\<rparr>)"

lemma fifo_read_once:
  assumes "fifo @ new \<noteq> []" and "0 < n" and "bs = take n (fifo @ new)" and "\<not> inner_goes_on (int (length bs))"
    and "length bs \<le> length buf" and "0 \<le> opened"
  shows "osx_fifo_read opened (new # arrivals) fifo n blocking s buf =
    Some (Inr ((E_Success, opened_for blocking opened s, bs @ drop (length bs) buf), drop n (fifo @ new), arrivals))"
proof -
  have "bs \<noteq> []" using assms(1-3) by (metis neq0_conv take_eq_Nil)
  then have "\<not> int (length bs) \<le> 0" by (metis length_0_conv of_nat_le_0_iff)
  then show ?thesis
    using assms
    by (auto simp: osx_fifo_read_def osx_read_def opened_for_def poke_def Let_def simp flip: assms(3))
qed

text \<open>After a long piece the loop asks for another chunk, and copies it behind the piece.\<close>

lemma fifo_read_long:
  assumes "fifo @ new \<noteq> []" and "bs = take n (fifo @ new)" and "inner_goes_on (int (length bs))"
    and "length bs \<le> length buf" and "0 \<le> opened"
    and "osx_read_loop True (fifo_answers blocking chunk_size arrivals (drop n (fifo @ new))) (length bs)
           (bs @ drop (length bs) buf) = Some (Inl e)"
  shows "osx_fifo_read opened (new # arrivals) fifo n blocking s buf = Some (Inl e)"
proof -
  have "fifo_answers blocking n (new # arrivals) fifo =
      Got bs # fifo_answers blocking chunk_size arrivals (drop n (fifo @ new))"
    using assms(1,2) by (auto simp: Let_def)
  then have "osx_read_loop False (fifo_answers blocking n (new # arrivals) fifo) 0 buf = Some (Inl e)"
    using assms(3,4,6) by (simp add: poke_def Let_def)
  then show ?thesis using assms(5) by (simp add: osx_fifo_read_def osx_read_def Let_def)
qed

text \<open>A wait before the bytes come: without effect on a blocking read, and a failed call on the other one.\<close>

lemma fifo_read_waits:
  "0 \<le> opened \<Longrightarrow> osx_fifo_read opened ([] # arrivals) [] n True s buf = osx_fifo_read opened arrivals [] n True s buf"
  by (simp add: osx_fifo_read_def)

lemma header_stops [simp]: "\<not> inner_goes_on 8"
  by (simp add: inner_goes_on_def chunk_size_def)

section \<open>A frame and what is behind it\<close>

text \<open>
  When the pipe holds a whole frame of less than a chunk, the two reads take exactly the frame, whatever
  is behind it and whatever comes meanwhile.
\<close>

lemma read_frame_first:
  assumes "fifo @ new = frame @ behind" and "8 < length frame" and "least + 8 \<le> length frame" and "length frame < chunk_size"
    and "read_size (take 8 frame) = Inr (length frame - 8)" and "0 \<le> opened1" and "0 \<le> opened2"
  shows "\<exists>s'. osx_read_frame least opened1 opened2 (new # new' # arrivals) fifo s buf =
    Some (Inr (E_Success, take 8 frame, drop 8 frame, s', behind @ new', arrivals))"
proof -
  let ?q = "frame @ behind" and ?n = "length frame - 8"
  have q: "?q \<noteq> []" "take 8 ?q = take 8 frame" "drop 8 ?q = drop 8 frame @ behind" using assms(2) by auto
  have 1: "osx_fifo_read opened1 (new # new' # arrivals) fifo 8 True s (resize_bytes 8 buf) =
      Some (Inr ((E_Success, opened_for True opened1 s, take 8 frame), drop 8 frame @ behind, new' # arrivals))"
    using fifo_read_once [of fifo new 8 "take 8 frame" "resize_bytes 8 buf" opened1 "new' # arrivals" True s] assms q
    by (simp add: min_def)
  have n: "\<not> inner_goes_on (int ?n)" "0 < ?n" using assms(2,4) by (auto simp: inner_goes_on_def chunk_size_def)
  have "osx_fifo_read opened2 (new' # arrivals) (drop 8 frame @ behind) ?n False (opened_for True opened1 s)
        (resize_bytes ?n (take 8 frame)) =
      Some (Inr ((E_Success, opened_for False opened2 (opened_for True opened1 s), drop 8 frame), behind @ new', arrivals))"
    using fifo_read_once [of "drop 8 frame @ behind" new' ?n "drop 8 frame" "resize_bytes ?n (take 8 frame)" opened2 arrivals
        False "opened_for True opened1 s"] n assms(2,7)
    by simp
  with 1 show ?thesis using assms(3,5) by (simp add: read_frame_defs)
qed

lemma read_frame_waits:
  assumes "0 \<le> opened1"
  shows "osx_read_frame least opened1 opened2 (replicate j [] @ arrivals) [] s buf = osx_read_frame least opened1 opened2 arrivals [] s buf"
  by (induction j) (simp_all add: read_frame_defs fifo_read_waits [OF assms])

text \<open>The header of a frame of which at least so much has come.\<close>

lemma read_header:
  assumes "8 \<le> length new" and "0 \<le> opened"
  shows "osx_fifo_read opened (new # arrivals) [] 8 True s (resize_bytes 8 buf) =
    Some (Inr ((E_Success, opened_for True opened s, take 8 new), drop 8 new, arrivals))"
proof -
  have "[] @ new \<noteq> []" "length (take 8 new) = 8" using assms(1) by auto
  then show ?thesis
    using fifo_read_once [of "[]" new 8 "take 8 new" "resize_bytes 8 buf" opened arrivals True s] assms(2) by simp
qed

section \<open>Properties\<close>

text \<open>C23. A frame of less than 8192 bytes gets through a named pipe on macOS, whatever the timing: written in one
  piece after any time the reader has waited, with anything behind it in the pipe and anything arriving between the
  two reads, it is received as its header and its body, and what is behind it stays for the next reads.\<close>

theorem osx_pipe_delivers:
  assumes "8 < length frame" and "least + 8 \<le> length frame" and "length frame < 8192" and "read_size (take 8 frame) = Inr (length frame - 8)"
    and "0 \<le> opened" and "0 \<le> opened1" and "0 \<le> opened2"
  shows "\<exists>sent s1 s2. osx_write opened (whole_writes opened (chunks_of frame)) frame s = Some (E_Success, sent, s1) \<and>
    osx_read_frame least opened1 opened2 (replicate j [] @ (concat sent @ behind) # new # arrivals) [] s' buf =
      Some (Inr (E_Success, take 8 frame, drop 8 frame, s2, behind @ new, arrivals))"
proof -
  obtain s1 where "osx_write opened (whole_writes opened (chunks_of frame)) frame s = Some (E_Success, chunks_of frame, s1)"
    using osx_write_whole [OF assms(5)] by blast
  moreover have "\<exists>s2. osx_read_frame least opened1 opened2 (replicate j [] @ (frame @ behind) # new # arrivals) [] s' buf =
      Some (Inr (E_Success, take 8 frame, drop 8 frame, s2, behind @ new, arrivals))"
    unfolding read_frame_waits [OF assms(6)] using assms
    by (intro read_frame_first) (simp_all add: chunk_size_def)
  ultimately show ?thesis by (auto simp: concat_chunks_of)
qed

theorem osx_pipe_delivers_witness:
  "\<exists>s2. osx_read_frame 2 3 4 ([] # (frame_image ''ab'' @ ''cd'') # ''e'' # []) [] (osx_socket_open ''p'') [] =
     Some (Inr (E_Success, take 8 (frame_image ''ab''), ''ab'', s2, ''cde'', []))"
proof -
  let ?f = "frame_image ''ab''"
  have "8 < length ?f" "2 + 8 \<le> length ?f" "length ?f < 8192" "(0 :: int) \<le> 3" "(0 :: int) \<le> 4" by (simp_all add: frame_image_def)
  moreover have "read_size (take 8 ?f) = Inr (length ?f - 8)"
    using read_size_header [of "''ab''" "[]"] by (simp add: frame_image_def)
  moreover have "chunks_of ?f = [?f]" by (subst chunks_of.simps) (simp add: chunk_size_def frame_image_def)
  ultimately show ?thesis
    using osx_pipe_delivers [of ?f 2 3 3 4 "osx_socket_open ''p''" 1 "''cd''" "''e''" "[]" "osx_socket_open ''p''" "[]"]
    by (auto simp: osx_write_def whole_writes_def received_def chunk_size_def frame_image_def)
qed

text \<open>C25. A frame whose bytes are not all in the pipe is cut. When \<open>p\<close> bytes of its body are there as the body is
  read, at least 8 and not 8184 or 8192, the read succeeds with them, and zeros for the rest of the body; the rest of
  the frame is what the next header is read from. So a frame of three chunks or more, written as the code writes it,
  is cut when its reader comes after the second chunk.\<close>

theorem osx_pipe_cuts:
  assumes "read_size (take 8 frame) = Inr (length frame - 8)" and "8 + p \<le> length frame" and "8 \<le> p" and "least \<le> 8"
    and "p \<noteq> 8184" and "p \<noteq> 8192" and "0 \<le> opened1" and "0 \<le> opened2"
  shows "\<exists>s'. osx_read_frame least opened1 opened2 (take (8 + p) frame # [] # arrivals) [] s buf =
    Some (Inr (E_Success, take 8 frame, take p (drop 8 frame) @ replicate (length frame - 8 - p) CHR 0x00, s', [], arrivals))"
proof -
  let ?new = "take (8 + p) frame" and ?n = "length frame - 8"
  have new: "8 \<le> length ?new" "take 8 ?new = take 8 frame" "drop 8 ?new = take p (drop 8 frame)"
    using assms(2,3) by (simp_all add: take_drop add.commute)
  have body: "length (take p (drop 8 frame)) = p" "take p (drop 8 frame) \<noteq> []" using assms(2,3) by auto
  have "\<not> inner_goes_on (int p)" using assms(5,6) by (simp add: inner_goes_on_def chunk_size_def)
  then have "osx_fifo_read opened2 ([] # arrivals) (take p (drop 8 frame)) ?n False (opened_for True opened1 s)
        (resize_bytes ?n (take 8 frame)) =
      Some (Inr ((E_Success, opened_for False opened2 (opened_for True opened1 s),
        take p (drop 8 frame) @ drop p (resize_bytes ?n (take 8 frame))), [], arrivals))"
    using fifo_read_once [of "take p (drop 8 frame)" "[]" ?n "take p (drop 8 frame)" "resize_bytes ?n (take 8 frame)" opened2
        arrivals False "opened_for True opened1 s"] body assms(2,3,8)
    by simp
  moreover have "drop p (resize_bytes ?n (take 8 frame)) = replicate (?n - p) CHR 0x00"
    using assms(2,3) by (simp add: resize_bytes_def)
  ultimately show ?thesis
    using read_header [OF new(1) assms(7)] assms(1-4) new(2,3) by (simp add: read_frame_defs)
qed

theorem osx_pipe_cuts_witness:
  "let frame = frame_image (replicate 20000 CHR ''a'') in
   \<exists>s'. osx_read_frame 2 3 4 [concat (take 2 (chunks_of frame)), [], concat (drop 2 (chunks_of frame))] [] (osx_socket_open ''p'') [] =
     Some (Inr (E_Success, take 8 frame, replicate 16376 CHR ''a'' @ replicate 3624 CHR 0x00, s', [],
       [replicate 3624 CHR ''a'']))"
proof -
  let ?b = "replicate 20000 CHR ''a''" let ?f = "frame_image ?b"
  have "?b \<noteq> []" by simp
  have 1: "read_size (take 8 ?f) = Inr (length ?f - 8)"
    using read_size_header [of ?b "[]"] by (simp add: frame_image_def)
  have 2: "8 + 16376 \<le> length ?f" by (simp add: frame_image_def)
  have cs: "chunks_of ?f = [take 8192 ?f, take 8192 (drop 8192 ?f), drop 16384 ?f]"
    using 2 by (subst chunks_of.simps, subst chunks_of.simps, subst chunks_of.simps) (simp add: chunk_size_def frame_image_def)
  have "take 16384 ?f = take 8192 ?f @ take 8192 (drop 8192 ?f)" using take_add [of 8192 8192 ?f] by simp
  moreover have "take 16376 (drop 8 ?f) = replicate 16376 CHR ''a''" "drop 16384 ?f = replicate 3624 CHR ''a''"
    "length ?f - 8 - 16376 = 3624"
    by (simp_all add: frame_image_def)
  ultimately show ?thesis
    using osx_pipe_cuts [OF 1 2, of 2 3 4 "[drop 16384 ?f]" "osx_socket_open ''p''" "[]"] by (simp add: Let_def cs)
qed

text \<open>C26. A pipe that cannot be opened for the body of a frame. When the header has been read and opening the pipe for
  the body fails, the read still succeeds, as its code is not looked at: the body is the header, cut or filled up
  with zeros to the announced length, and the real body stays in the pipe, where the next header is read from.\<close>

theorem osx_body_not_opened:
  assumes "8 < length frame" and "least + 8 \<le> length frame" and "read_size (take 8 frame) = Inr (length frame - 8)"
    and "0 \<le> opened1" and "opened2 < 0"
  shows "\<exists>s'. osx_read_frame least opened1 opened2 ((frame @ behind) # arrivals) [] s buf =
    Some (Inr (E_Success, take 8 frame, resize_bytes (length frame - 8) (take 8 frame), s', drop 8 frame @ behind, arrivals))"
proof -
  have new: "8 \<le> length (frame @ behind)" "take 8 (frame @ behind) = take 8 frame"
    "drop 8 (frame @ behind) = drop 8 frame @ behind"
    using assms(1) by simp_all
  have "osx_fifo_read opened2 arrivals fifo n False s1 b = Some (Inr ((E_Error, s1\<lparr>fd_read_nb := opened2\<rparr>, b), fifo, arrivals))"
    for fifo n s1 b
    using assms(5) by (simp add: osx_fifo_read_def osx_read_def Let_def)
  moreover have "least \<le> length frame - 8" using assms(2) by simp
  ultimately show ?thesis
    using read_header [OF new(1) assms(4), unfolded new(2,3)] assms(3) by (simp add: read_frame_defs)
qed

theorem osx_body_not_opened_witness:
  "\<exists>s'. osx_read_frame 2 3 (- 1) [frame_image ''0123456789''] [] (osx_socket_open ''p'') [] =
     Some (Inr (E_Success, take 8 (frame_image ''0123456789''),
       take 8 (frame_image ''0123456789'') @ [CHR 0x00, CHR 0x00], s', ''0123456789'', []))"
proof -
  let ?f = "frame_image ''0123456789''"
  have "8 < length ?f" "2 + 8 \<le> length ?f" "(0 :: int) \<le> 3" "(- 1 :: int) < 0" by (simp_all add: frame_image_def)
  moreover have "read_size (take 8 ?f) = Inr (length ?f - 8)"
    using read_size_header [of "''0123456789''" "[]"] by (simp add: frame_image_def)
  moreover have "resize_bytes (length ?f - 8) (take 8 ?f) = take 8 ?f @ [CHR 0x00, CHR 0x00]" "drop 8 ?f = ''0123456789''"
    by (simp_all add: frame_image_def resize_bytes_def numeral_2_eq_2)
  ultimately show ?thesis
    using osx_body_not_opened [of ?f 2 3 "- 1" "[]" "[]" "osx_socket_open ''p''" "[]"] by simp
qed

text \<open>C27. A frame of two chunks with another writer behind it is read past the end of the buffer: when the reader
  has taken the first chunk and finds the second one with bytes of the next frame behind it, within one chunk, the
  bytes that are not the frame's are copied behind the buffer too.\<close>

theorem osx_pipe_overruns:
  assumes "8192 < length frame" and "read_size (take 8 frame) = Inr (length frame - 8)" and "behind \<noteq> []"
    and "least \<le> 8" and "length frame - 8192 + length behind \<le> 8192" and "0 \<le> opened1" and "0 \<le> opened2"
  shows "osx_read_frame least opened1 opened2 (take 8192 frame # [] # (drop 8192 frame @ behind) # arrivals) [] s buf = Some (Inl Bad_Access)"
proof -
  let ?new = "take 8192 frame" and ?n = "length frame - 8"
  let ?bs = "take 8184 (drop 8 frame)" and ?c = "drop 8192 frame @ behind"
  have new: "8 \<le> length ?new" "take 8 ?new = take 8 frame" "drop 8 ?new = ?bs"
    using assms(1) by (simp_all add: take_drop min_def)
  have bs: "length ?bs = 8184" "?bs @ [] \<noteq> []" "?bs = take ?n (?bs @ [])" using assms(1) by auto
  have long: "inner_goes_on (int (length ?bs))" unfolding bs(1) by (simp add: inner_goes_on_def chunk_size_def)
  have "fifo_answers False chunk_size (?c # arrivals) [] = Got ?c # fifo_answers False chunk_size arrivals []"
    using assms(3,5) by (simp add: Let_def chunk_size_def)
  moreover have "poke (?bs @ drop (length ?bs) (resize_bytes ?n (take 8 frame))) (length ?bs) ?c = Inl Bad_Access"
    using assms(1,3) by (simp add: poke_def bs(1) flip: length_greater_0_conv)
  ultimately have "osx_fifo_read opened2 ([] # ?c # arrivals) ?bs ?n False (opened_for True opened1 s)
      (resize_bytes ?n (take 8 frame)) = Some (Inl Bad_Access)"
    using assms(1,7) bs(1) by (intro fifo_read_long [OF bs(2,3) long]) simp_all
  then show ?thesis
    using read_header [OF new(1) assms(6)] assms(1,2,4) new(2,3) by (simp add: read_frame_defs)
qed

theorem osx_pipe_overruns_witness:
  "osx_read_frame 2 3 4 [take 8192 (frame_image (replicate 9000 CHR ''a'')), [],
     drop 8192 (frame_image (replicate 9000 CHR ''a'')) @ frame_image ''ab''] [] (osx_socket_open ''p'') [] = Some (Inl Bad_Access)"
proof -
  let ?b = "replicate 9000 CHR ''a''" let ?f = "frame_image ?b"
  have "8192 < length ?f" "frame_image ''ab'' \<noteq> []" "length ?f - 8192 + length (frame_image ''ab'') \<le> 8192"
    "(0 :: int) \<le> 3" "(0 :: int) \<le> 4"
    by (simp_all add: frame_image_def)
  moreover have "read_size (take 8 ?f) = Inr (length ?f - 8)"
    using read_size_header [of ?b "[]"] by (simp add: frame_image_def)
  ultimately show ?thesis by (intro osx_pipe_overruns) simp_all
qed

end
