(* ===== verification/Wired_Osx.thy ===== *)
theory Wired_Osx
  imports Pipe_Osx System_Callers_Osx
begin

text \<open>
  The macOS connection of \<open>System_Callers_Osx\<close> with its two named pipes: the threads write and read frames with
  the reads and writes of \<open>Socket_Osx\<close> on the FIFOs of \<open>Pipe_Osx\<close>, so that the delivery of frames is no longer
  assumed but proved. Three things are assumed of the runs, as premises of the steps. Every frame that is written is
  shorter than 8192 bytes: longer ones are cut, lost or kept waiting for, as \<open>Socket_Osx\<close> and \<open>Pipe_Osx\<close> show. One
  call of \<open>::write\<close> puts all of it into the pipe, between the frames of other writers: the system promises this up
  to \<open>PIPE_BUF\<close>, 512 bytes on macOS. And opening a pipe succeeds, except that it may fail for a header: a failed
  one for a body leaves the body in the pipe, as \<open>Pipe_Osx\<close> shows, and the code of the write of a reply is ignored.
\<close>

section \<open>The system\<close>

text \<open>
  \<open>wo_req\<close> and \<open>wo_rep\<close> are the bytes in the two pipes. A step that writes or reads no pipe is one of
  \<open>osx_system_step\<close>; so is the rest of a step that does. The reads are those of \<open>osx_read_frame\<close>: an empty
  pipe blocks them. Nothing arrives between the two reads of a frame: \<open>Pipe_Osx\<close> shows that it would not
  matter. \<open>length frame < 8192\<close>, \<open>whole_writes\<close>, and \<open>0 \<le> fd\<close> for a write and \<open>0 \<le> fd'\<close> for a body are the premises
  above; a client's failed open for a header is the step \<open>misses\<close> of \<open>osx_system_step\<close>.
\<close>

record 'w wired_osx =
  wo_system :: "'w osx_system"
  wo_req :: buffer
  wo_rep :: buffer

definition wired_osx_init :: "'w \<Rightarrow> 'w wired_osx" where
  "wired_osx_init w0 = \<lparr>wo_system = osx_system_init w0, wo_req = [], wo_rep = []\<rparr>"

inductive wired_osx_step :: "(nat \<Rightarrow> u64) \<Rightarrow> u64 \<Rightarrow> 'w heap \<Rightarrow> 'w server \<Rightarrow> 'w wired_osx \<Rightarrow> 'w wired_osx \<Rightarrow> bool"
  for junk u h s
where
  others: "osx_system_step True junk u h s (wo_system z) y \<Longrightarrow> yo_sent y = yo_sent (wo_system z) \<Longrightarrow>
    yo_read y = yo_read (wo_system z) \<Longrightarrow> io_sent (fst (yo_server y)) = io_sent (fst (yo_server (wo_system z))) \<Longrightarrow>
    \<not> (io_req (fst (yo_server (wo_system z))) = Req_Read \<and> io_req (fst (yo_server y)) \<noteq> Req_Read) \<Longrightarrow>
    wired_osx_step junk u h s z (z\<lparr>wo_system := y\<rparr>)"
| sends: "osx_system_step True junk u h s (wo_system z) y \<Longrightarrow> yo_sent y = yo_sent (wo_system z) @ [(m, frame)] \<Longrightarrow>
    length frame < 8192 \<Longrightarrow> 0 \<le> fd \<Longrightarrow>
    osx_write fd (whole_writes fd (chunks_of frame)) frame sock = Some (E_Success, pieces, sock') \<Longrightarrow>
    wired_osx_step junk u h s z (z\<lparr>wo_system := y, wo_req := wo_req z @ concat pieces\<rparr>)"
| answers: "osx_system_step True junk u h s (wo_system z) y \<Longrightarrow>
    io_sent (fst (yo_server y)) = io_sent (fst (yo_server (wo_system z))) @ [frame] \<Longrightarrow> length frame < 8192 \<Longrightarrow> 0 \<le> fd \<Longrightarrow>
    osx_write fd (whole_writes fd (chunks_of frame)) frame sock = Some (E_Success, pieces, sock') \<Longrightarrow>
    wired_osx_step junk u h s z (z\<lparr>wo_system := y, wo_rep := wo_rep z @ concat pieces\<rparr>)"
| gets_request: "y = wo_system z \<Longrightarrow> yo_server y = (i, w) \<Longrightarrow> io_req i = Req_Read \<Longrightarrow> 0 \<le> fd' \<Longrightarrow>
    osx_read_frame 2 fd fd' [[], []] (wo_req z) sock (io_rbuf i) = Some (Inr (ec, hdr, body, sock', fifo, rest)) \<Longrightarrow>
    instance_osx_read_init junk u ec (\<lambda>_. body) (i\<lparr>io_rbuf := hdr\<rparr>) = Inr i' \<Longrightarrow>
    wired_osx_step junk u h s z (z\<lparr>wo_system := y\<lparr>yo_server :=
      (i'\<lparr>io_req := (if goes_on i' then Req_Wait else Req_Exit)\<rparr>, w)\<rparr>, wo_req := fifo\<rparr>)"
| gets_reply: "y = wo_system z \<Longrightarrow> x = yo_threads y \<Longrightarrow> e \<in> set (yo_reading y) \<Longrightarrow>
    co_socket (oc_client x) \<Longrightarrow> \<not> co_shutting_down (oc_client x) \<Longrightarrow> 0 \<le> fd \<Longrightarrow> 0 \<le> fd' \<Longrightarrow>
    osx_read_frame 1 fd fd' [[], []] (wo_rep z) sock (co_buf (oc_client x)) = Some (Inr (ec, hdr, body, sock', fifo, rest)) \<Longrightarrow>
    client_osx_receive cj cu ec hdr (\<lambda>_. body) (oc_client x, oc_stack x) = Inr (c, w) \<Longrightarrow>
    wired_osx_step junk u h s z (z\<lparr>wo_system := y\<lparr>yo_threads := x\<lparr>oc_client := c, oc_stack := w, oc_busy := oc_busy x - 1\<rparr>,
      yo_reading := remove1 e (yo_reading y), yo_read := Suc (yo_read y)\<rparr>, wo_rep := fifo\<rparr>)"

section \<open>What a step of the system does with the frames\<close>

lemma io_step_frames:
  assumes "io_step short junk u h s k k'"
  shows "(io_req (fst k) = Req_Read \<and> io_req (fst k') \<noteq> Req_Read \<longrightarrow> io_sent (fst k') = io_sent (fst k)) \<and>
    (\<not> (io_req (fst k) = Req_Read \<and> io_req (fst k') \<noteq> Req_Read) \<longrightarrow> io_bodies (fst k') = io_bodies (fst k)) \<and>
    (io_sent (fst k') = io_sent (fst k) \<or> (\<exists>f. io_sent (fst k') = io_sent (fst k) @ [f]))"
  using assms
proof (induction rule: io_step.induct)
  case (req_read i hdr ec body i' w)
  from req_read(4) have "io_sent i' = io_sent i" by (cases rule: io_read_init_cases) auto
  then show ?case using req_read(1) by simp
next
  case (rep_serve i w b i' w')
  from rep_serve(2) show ?case by (cases rule: serve_cases) auto
qed auto

lemma system_step_frames:
  assumes "osx_system_step short junk u h s y y'"
  obtains (sent) e where "yo_sent y' = yo_sent y @ [e]" and "yo_server y' = yo_server y" and "yo_read y' = yo_read y"
  | (read) "yo_sent y' = yo_sent y" and "yo_server y' = yo_server y" and "yo_read y' = Suc (yo_read y)"
  | (serves) "yo_sent y' = yo_sent y" and "yo_read y' = yo_read y" and "io_step short junk u h s (yo_server y) (yo_server y')"
  | (same) "yo_sent y' = yo_sent y" and "yo_server y' = yo_server y" and "yo_read y' = yo_read y"
  using assms by (cases rule: osx_system_step.cases) auto

section \<open>The invariant\<close>

text \<open>The frames written and not yet read, on either side.\<close>

definition unread_requests :: "'w osx_system \<Rightarrow> buffer list" where
  "unread_requests y = map snd (drop (length (io_bodies (fst (yo_server y)))) (yo_sent y))"

definition unread_replies :: "'w osx_system \<Rightarrow> buffer list" where
  "unread_replies y = drop (yo_read y) (io_sent (fst (yo_server y)))"

definition small_frames :: "'w osx_system \<Rightarrow> bool" where
  "small_frames y \<longleftrightarrow> (\<forall>e \<in> set (yo_sent y). length (snd e) < 8192) \<and>
     (\<forall>f \<in> set (io_sent (fst (yo_server y))). length f < 8192)"

definition wired_osx_inv :: "(nat \<Rightarrow> u64) \<Rightarrow> u64 \<Rightarrow> 'w heap \<Rightarrow> 'w server \<Rightarrow> 'w \<Rightarrow> 'w wired_osx \<Rightarrow> bool" where
  "wired_osx_inv junk u h s w0 z \<longleftrightarrow> (let y = wo_system z in
     (osx_system_step True junk u h s)\<^sup>*\<^sup>* (osx_system_init w0) y \<and> small_frames y \<and>
     yo_read y \<le> length (io_sent (fst (yo_server y))) \<and>
     wo_req z = concat (unread_requests y) \<and> wo_rep z = concat (unread_replies y))"

lemma reachable_calls:
  assumes "(osx_system_step short junk u h s)\<^sup>*\<^sup>* (osx_system_init w0) y"
  shows "entries_ok h s u (oc_time (yo_threads y)) (yo_sent y)"
    and "\<exists>n \<le> length (yo_sent y). io_bodies (fst (yo_server y)) = take n (map call_wire (map fst (yo_sent y)))"
proof -
  have "osx_calls_ok h s u y" using osx_system.reachable_inv [OF refl assms] by (simp add: osx_system_inv_def)
  then show "entries_ok h s u (oc_time (yo_threads y)) (yo_sent y)"
    "\<exists>n \<le> length (yo_sent y). io_bodies (fst (yo_server y)) = take n (map call_wire (map fst (yo_sent y)))"
    unfolding osx_calls_ok_def by (blast intro: entries_ok_append)+
qed

lemma frame_shape:
  assumes "body \<noteq> []" and "length body < 2 ^ 32"
  shows "8 < length (frame_image body)" and "read_size (take 8 (frame_image body)) = Inr (length (frame_image body) - 8)"
  using assms read_size_header [of body "[]"] by (simp_all add: frame_image_def)

text \<open>The next request in the pipe, and the next reply.\<close>

lemma next_request:
  assumes "(osx_system_step short junk u h s)\<^sup>*\<^sup>* (osx_system_init w0) y" and "unread_requests y \<noteq> []"
  obtains m frame rest where "unread_requests y = frame # rest"
    and "yo_sent y ! length (io_bodies (fst (yo_server y))) = (m, frame)" and "frame = frame_image (call_wire m)" and "proper_call m"
    and "(m, frame) \<in> set (yo_sent y)" and "10 \<le> length frame" and "read_size (take 8 frame) = Inr (length frame - 8)"
    and "rest = map snd (drop (Suc (length (io_bodies (fst (yo_server y))))) (yo_sent y))"
    and "io_bodies (fst (yo_server y)) @ [drop 8 frame] =
      take (Suc (length (io_bodies (fst (yo_server y))))) (map (\<lambda>(m, frame). drop 8 frame) (yo_sent y))"
proof -
  let ?n = "length (io_bodies (fst (yo_server y)))"
  have n: "?n < length (yo_sent y)" using assms(2) by (simp add: unread_requests_def not_le)
  obtain m frame where e: "yo_sent y ! ?n = (m, frame)" by fastforce
  note calls = reachable_calls [OF assms(1)]
  have mem: "(m, frame) \<in> set (yo_sent y)" using n e by (metis nth_mem)
  then have m: "frame = frame_image (call_wire m)" "proper_call m"
    using calls(1) by (auto simp: entries_ok_def list_all_iff entry_ok_def)
  have len: "length (call_wire m) = function_call_size m" by (rule length_call_wire)
  then have l: "2 \<le> length (call_wire m)" "length (call_wire m) < 2 ^ 32"
    using m(2) by (simp_all add: function_call_size_def proper_call_def)
  then have "call_wire m \<noteq> []" by auto
  note shape = frame_shape [OF this l(2)]
  have "unread_requests y = frame # map snd (drop (Suc ?n) (yo_sent y))"
    using Cons_nth_drop_Suc [OF n] e by (metis list.simps(9) snd_conv unread_requests_def)
  moreover have "10 \<le> length frame" using l(1) m(1) by (simp add: frame_image_def)
  moreover have "io_bodies (fst (yo_server y)) = take ?n (map (\<lambda>(m, frame). drop 8 frame) (yo_sent y))"
    using calls(2) unfolding frames_of_entries [OF calls(1)] by auto
  then have "io_bodies (fst (yo_server y)) @ [drop 8 frame] =
      take (Suc ?n) (map (\<lambda>(m, frame). drop 8 frame) (yo_sent y))"
    using n e by (simp add: take_Suc_conv_app_nth)
  ultimately show thesis using that m mem shape(2) e by blast
qed

lemma next_reply:
  assumes "classes_ok h s" and "heap_ok h" and "(osx_system_step short junk u h s)\<^sup>*\<^sup>* (osx_system_init w0) y"
    and "unread_replies y \<noteq> []"
  obtains frame rest where "unread_replies y = frame # rest" and "frame = io_sent (fst (yo_server y)) ! yo_read y"
    and "yo_read y < length (io_sent (fst (yo_server y)))" and "9 \<le> length frame"
    and "read_size (take 8 frame) = Inr (length frame - 8)" and "rest = drop (Suc (yo_read y)) (io_sent (fst (yo_server y)))"
proof -
  have n: "yo_read y < length (io_sent (fst (yo_server y)))" using assms(4) by (simp add: unread_replies_def not_le)
  have inv: "osx_calls_ok h s u y" "(io_step short junk u h s)\<^sup>*\<^sup>* (instance_osx_make, w0) (yo_server y)"
    using osx_system.reachable_inv [OF refl assms(3)] by (simp_all add: osx_system_inv_def)
  obtain r where r: "io_sent (fst (yo_server y)) ! yo_read y = frame_image (reply_wire r)"
    "answers_with (fst (yo_sent y ! yo_read y)) (outcomes junk u h s w0 (yo_sent y) ! yo_read y) r"
    by (rule osx_reply_of_call [OF assms(1,2) inv n])
  have "length (reply_wire r) = function_reply_size r" by (rule length_reply_wire)
  then have l: "1 \<le> length (reply_wire r)" "length (reply_wire r) < 2 ^ 32"
    using r(2) by (simp_all add: answers_with_def function_reply_size_def)
  then have "reply_wire r \<noteq> []" by auto
  note shape = frame_shape [OF this l(2)]
  have "9 \<le> length (frame_image (reply_wire r))" using l(1) by (simp add: frame_image_def)
  then show thesis
    using that Cons_nth_drop_Suc [OF n] r(1) shape(2) n by (simp add: unread_replies_def)
qed

text \<open>A frame below a chunk is read off the front of its pipe.\<close>

lemma read_front:
  assumes "fifo = frame @ behind" and "least + 8 \<le> length frame" and "9 \<le> length frame" and "length frame < 8192"
    and "read_size (take 8 frame) = Inr (length frame - 8)" and "0 \<le> fd" and "0 \<le> fd'"
  shows "\<exists>sock'. osx_read_frame least fd fd' [[], []] fifo sock buf =
    Some (Inr (E_Success, take 8 frame, drop 8 frame, sock', behind, []))"
  using read_frame_first [of fifo "[]" frame behind least fd fd' "[]" "[]" sock buf] assms by (simp add: chunk_size_def)

lemma read_empty: "0 \<le> fd \<Longrightarrow> osx_read_frame least fd fd' [[], []] [] sock buf = None"
  by (simp add: read_frame_defs osx_fifo_read_def osx_read_def)

lemma read_not_opened:
  "fd < 0 \<Longrightarrow> \<exists>sock'. osx_read_frame least fd fd' arrivals fifo sock buf =
    Some (Inr (E_Error, resize_bytes 8 buf, [], sock', fifo, arrivals))"
  by (simp add: read_frame_defs osx_fifo_read_def osx_read_def Let_def)

section \<open>Every step is one of the system whose pipes deliver\<close>

lemma written_pieces:
  assumes "osx_write fd (whole_writes fd (chunks_of frame)) frame sock = Some (E_Success, pieces, sock')" and "0 \<le> fd"
  shows "concat pieces = frame"
  using osx_write_whole [OF assms(2), of frame sock] assms(1) concat_chunks_of by auto

lemma read_init_proper:
  assumes "proper_call m" and "frame = frame_image (call_wire m)" and "ec = E_Success \<or> ec = E_MoreData"
  shows "instance_osx_read_init junk u ec (\<lambda>_. drop 8 frame) (i\<lparr>io_rbuf := take 8 frame\<rparr>) =
    Inr (i\<lparr>io_rbuf := [], io_msgs := io_msgs i @ [decoded junk u m], io_writer_sem := io_writer_sem i + 1,
      io_bodies := io_bodies i @ [drop 8 frame]\<rparr>)"
proof -
  have "length (call_wire m) = function_call_size m" "2 \<le> function_call_size m"
    by (simp_all add: length_call_wire function_call_size_def)
  then show ?thesis
    using assms(3) frame_cut_call [OF assms(1)] decoded_call(1) [OF assms(1), of junk u]
    by (auto simp: assms(2) instance_osx_read_init_def frame_cut_def instance_osx_read_msg_def resize_bytes_def)
qed

lemma unread_later:
  assumes "osx_system_step True junk u h s y y'" and "yo_sent y' = yo_sent y @ es" and "yo_read y' = yo_read y"
    and "io_bodies (fst (yo_server y')) = io_bodies (fst (yo_server y))"
    and "io_sent (fst (yo_server y')) = io_sent (fst (yo_server y)) @ fs"
    and "(osx_system_step True junk u h s)\<^sup>*\<^sup>* (osx_system_init w0) y" and "yo_read y \<le> length (io_sent (fst (yo_server y)))"
  shows "unread_requests y' = unread_requests y @ map snd es" and "unread_replies y' = unread_replies y @ fs"
proof -
  have "length (io_bodies (fst (yo_server y))) \<le> length (yo_sent y)" using reachable_calls(2) [OF assms(6)] by auto
  then show "unread_requests y' = unread_requests y @ map snd es" "unread_replies y' = unread_replies y @ fs"
    using assms by (simp_all add: unread_requests_def unread_replies_def)
qed

lemma wired_inv_step:
  assumes "osx_system_step True junk u h s (wo_system z) (wo_system z')" and "wired_osx_inv junk u h s w0 z"
    and "small_frames (wo_system z')" and "yo_read (wo_system z') \<le> length (io_sent (fst (yo_server (wo_system z'))))"
    and "wo_req z' = concat (unread_requests (wo_system z'))" and "wo_rep z' = concat (unread_replies (wo_system z'))"
  shows "wired_osx_inv junk u h s w0 z'"
  using assms unfolding wired_osx_inv_def Let_def by (meson rtranclp.rtrancl_into_rtrancl)

lemma wired_inv_grows:
  assumes "osx_system_step True junk u h s y y'" and "wired_osx_inv junk u h s w0 z" and "y = wo_system z"
    and "yo_sent y' = yo_sent y @ es" and "yo_read y' = yo_read y"
    and "io_bodies (fst (yo_server y')) = io_bodies (fst (yo_server y))"
    and "io_sent (fst (yo_server y')) = io_sent (fst (yo_server y)) @ fs"
    and "\<forall>f \<in> snd ` set es \<union> set fs. length f < 8192"
    and "wo_req z' = wo_req z @ concat (map snd es)" and "wo_rep z' = wo_rep z @ concat fs" and "wo_system z' = y'"
  shows "wired_osx_inv junk u h s w0 z'"
proof -
  have inv: "(osx_system_step True junk u h s)\<^sup>*\<^sup>* (osx_system_init w0) y" "small_frames y"
    "yo_read y \<le> length (io_sent (fst (yo_server y)))" "wo_req z = concat (unread_requests y)" "wo_rep z = concat (unread_replies y)"
    using assms(2,3) by (simp_all add: wired_osx_inv_def Let_def)
  note unread = unread_later [OF assms(1,4-7) inv(1,3)]
  have "small_frames y'" using inv(2) assms(4,7,8) by (auto simp: small_frames_def)
  then show ?thesis
    using assms unread inv by (intro wired_inv_step [OF _ assms(2)]) simp_all
qed

lemma wired_others:
  assumes "osx_system_step True junk u h s (wo_system z) y" and "yo_sent y = yo_sent (wo_system z)"
    and "yo_read y = yo_read (wo_system z)" and "io_sent (fst (yo_server y)) = io_sent (fst (yo_server (wo_system z)))"
    and "\<not> (io_req (fst (yo_server (wo_system z))) = Req_Read \<and> io_req (fst (yo_server y)) \<noteq> Req_Read)"
    and "wired_osx_inv junk u h s w0 z"
  shows "wired_osx_inv junk u h s w0 (z\<lparr>wo_system := y\<rparr>)"
proof -
  have "io_bodies (fst (yo_server y)) = io_bodies (fst (yo_server (wo_system z)))"
    using assms(1) by (cases rule: system_step_frames) (use io_step_frames assms(5) in \<open>auto dest: io_step_frames\<close>)
  then show ?thesis
    using assms(2-4) by (intro wired_inv_grows [OF assms(1,6) refl, where es = "[]" and fs = "[]"]) simp_all
qed

lemma wired_sends:
  assumes "osx_system_step True junk u h s (wo_system z) y" and "yo_sent y = yo_sent (wo_system z) @ [(m, frame)]"
    and "length frame < 8192" and "wired_osx_inv junk u h s w0 z"
  shows "wired_osx_inv junk u h s w0 (z\<lparr>wo_system := y, wo_req := wo_req z @ frame\<rparr>)"
proof -
  have "yo_server y = yo_server (wo_system z)" "yo_read y = yo_read (wo_system z)"
    using assms(1) by (cases rule: system_step_frames; use assms(2) in simp)+
  then show ?thesis
    using assms(2,3) by (intro wired_inv_grows [OF assms(1,4) refl, where es = "[(m, frame)]" and fs = "[]"]) simp_all
qed

lemma wired_answers:
  assumes "osx_system_step True junk u h s (wo_system z) y"
    and "io_sent (fst (yo_server y)) = io_sent (fst (yo_server (wo_system z))) @ [frame]"
    and "length frame < 8192" and "wired_osx_inv junk u h s w0 z"
  shows "wired_osx_inv junk u h s w0 (z\<lparr>wo_system := y, wo_rep := wo_rep z @ frame\<rparr>)"
proof -
  have "yo_sent y = yo_sent (wo_system z)" "yo_read y = yo_read (wo_system z)"
    "io_step True junk u h s (yo_server (wo_system z)) (yo_server y)"
    using assms(1) by (cases rule: system_step_frames; use assms(2) in simp)+
  then show ?thesis
    using io_step_frames assms(2,3)
    by (intro wired_inv_grows [OF assms(1,4) refl, where es = "[]" and fs = "[frame]"]) fastforce+
qed

text \<open>A request that is read is the first one in the pipe; so is a reply.\<close>

lemma wired_gets_request:
  assumes "yo_server (wo_system z) = (i, w)" and "io_req i = Req_Read" and "wired_osx_inv junk u h s w0 z"
    and "unread_requests (wo_system z) \<noteq> []" and "0 \<le> fd" and "0 \<le> fd'"
  obtains m frame sock' i' rest where
      "osx_read_frame 2 fd fd' [[], []] (wo_req z) sock (io_rbuf i) =
        Some (Inr (E_Success, take 8 frame, drop 8 frame, sock', concat rest, []))"
    and "instance_osx_read_init junk u E_Success (\<lambda>_. drop 8 frame) (i\<lparr>io_rbuf := take 8 frame\<rparr>) = Inr i'"
    and "osx_system_step True junk u h s (wo_system z)
      ((wo_system z)\<lparr>yo_server := (i'\<lparr>io_req := (if goes_on i' then Req_Wait else Req_Exit)\<rparr>, w)\<rparr>)"
    and "i' = i\<lparr>io_rbuf := [], io_msgs := io_msgs i @ [decoded junk u m], io_writer_sem := io_writer_sem i + 1,
      io_bodies := io_bodies i @ [drop 8 frame]\<rparr>"
    and "frame = snd (yo_sent (wo_system z) ! length (io_bodies i))" and "frame = frame_image (call_wire m)"
    and "rest = map snd (drop (Suc (length (io_bodies i))) (yo_sent (wo_system z)))"
proof -
  let ?y = "wo_system z"
  have inv: "(osx_system_step True junk u h s)\<^sup>*\<^sup>* (osx_system_init w0) ?y" "small_frames ?y" "wo_req z = concat (unread_requests ?y)"
    using assms(3) by (simp_all add: wired_osx_inv_def Let_def)
  obtain m frame rest where e: "yo_sent ?y ! length (io_bodies i) = (m, frame)"
    and m: "unread_requests ?y = frame # rest" "frame = frame_image (call_wire m)" "proper_call m"
    "(m, frame) \<in> set (yo_sent ?y)" "10 \<le> length frame" "read_size (take 8 frame) = Inr (length frame - 8)"
    "rest = map snd (drop (Suc (length (io_bodies i))) (yo_sent ?y))"
    "io_bodies i @ [drop 8 frame] = take (Suc (length (io_bodies i))) (map (\<lambda>(m, frame). drop 8 frame) (yo_sent ?y))"
    by (rule next_request [OF inv(1) assms(4), unfolded assms(1) fst_conv])
  have small: "length frame < 8192" using inv(2) m(4) by (auto simp: small_frames_def)
  have fifo: "wo_req z = frame @ concat rest" using inv(3) m(1) by simp
  have "2 + 8 \<le> length frame" "9 \<le> length frame" using m(5) by simp_all
  from read_front [OF fifo this small m(6) assms(5,6), of sock "io_rbuf i"] obtain sock' where
    read: "osx_read_frame 2 fd fd' [[], []] (wo_req z) sock (io_rbuf i) =
      Some (Inr (E_Success, take 8 frame, drop 8 frame, sock', concat rest, []))" by blast
  let ?i' = "i\<lparr>io_rbuf := [], io_msgs := io_msgs i @ [decoded junk u m], io_writer_sem := io_writer_sem i + 1,
      io_bodies := io_bodies i @ [drop 8 frame]\<rparr>"
  have init: "instance_osx_read_init junk u E_Success (\<lambda>_. drop 8 frame) (i\<lparr>io_rbuf := take 8 frame\<rparr>) = Inr ?i'"
    using m(2,3) by (intro read_init_proper) simp_all
  have "length (take 8 frame) = 8" using m(5) by simp
  then have "io_step True junk u h s (yo_server ?y) (?i'\<lparr>io_req := (if goes_on ?i' then Req_Wait else Req_Exit)\<rparr>, w)"
    unfolding assms(1) by (rule io_step.req_read [OF assms(2) _ disjI1 [OF TrueI] init])
  then have "osx_system_step True junk u h s ?y
      (?y\<lparr>yo_server := (?i'\<lparr>io_req := (if goes_on ?i' then Req_Wait else Req_Exit)\<rparr>, w)\<rparr>)"
    by (rule osx_system_step.serves) (use m(8) in simp)
  moreover have "frame = snd (yo_sent ?y ! length (io_bodies i))" by (simp add: e)
  ultimately show thesis using that [OF read init _ refl _ m(2,7)] by blast
qed

lemma wired_gets_reply:
  assumes "classes_ok h s" and "heap_ok h" and "wired_osx_inv junk u h s w0 z"
    and "unread_replies (wo_system z) \<noteq> []" and "0 \<le> fd" and "0 \<le> fd'"
  obtains frame sock' rest where
      "osx_read_frame 1 fd fd' [[], []] (wo_rep z) sock buf = Some (Inr (E_Success, take 8 frame, drop 8 frame, sock', concat rest, []))"
    and "frame = io_sent (fst (yo_server (wo_system z))) ! yo_read (wo_system z)"
    and "yo_read (wo_system z) < length (io_sent (fst (yo_server (wo_system z))))"
    and "rest = drop (Suc (yo_read (wo_system z))) (io_sent (fst (yo_server (wo_system z))))"
proof -
  let ?y = "wo_system z"
  have inv: "(osx_system_step True junk u h s)\<^sup>*\<^sup>* (osx_system_init w0) ?y" "small_frames ?y" "wo_rep z = concat (unread_replies ?y)"
    using assms(3) by (simp_all add: wired_osx_inv_def Let_def)
  obtain frame rest where f: "unread_replies ?y = frame # rest" "frame = io_sent (fst (yo_server ?y)) ! yo_read ?y"
    "yo_read ?y < length (io_sent (fst (yo_server ?y)))" "9 \<le> length frame" "read_size (take 8 frame) = Inr (length frame - 8)"
    "rest = drop (Suc (yo_read ?y)) (io_sent (fst (yo_server ?y)))"
    by (rule next_reply [OF assms(1,2) inv(1) assms(4)])
  have small: "length frame < 8192" using inv(2) f(2,3) by (auto simp: small_frames_def)
  have fifo: "wo_rep z = frame @ concat rest" using inv(3) f(1) by simp
  have "1 + 8 \<le> length frame" using f(4) by simp
  from read_front [OF fifo this f(4) small f(5) assms(5,6), of sock buf] show thesis
    using that f(2,3,6) by blast
qed

text \<open>Every step keeps the invariant, and is one of the system whose pipes deliver.\<close>

lemma wired_request_step:
  assumes "yo_server (wo_system z) = (i, w)" and "io_req i = Req_Read" and "wired_osx_inv junk u h s w0 z" and "0 \<le> fd'"
    and read: "osx_read_frame 2 fd fd' [[], []] (wo_req z) sock (io_rbuf i) = Some (Inr (ec, hdr, body, sock', fifo, rest))"
    and init: "instance_osx_read_init junk u ec (\<lambda>_. body) (i\<lparr>io_rbuf := hdr\<rparr>) = Inr i'"
    and y: "y = (wo_system z)\<lparr>yo_server := (i'\<lparr>io_req := (if goes_on i' then Req_Wait else Req_Exit)\<rparr>, w)\<rparr>"
  shows "osx_system_step True junk u h s (wo_system z) y \<and> wired_osx_inv junk u h s w0 (z\<lparr>wo_system := y, wo_req := fifo\<rparr>)"
proof (cases "fd < 0")
  case True
  let ?y = "wo_system z" and ?k = "i'\<lparr>io_req := (if goes_on i' then Req_Wait else Req_Exit)\<rparr>"
  have e: "ec = E_Error" "hdr = resize_bytes 8 (io_rbuf i)" "fifo = wo_req z"
    using read_not_opened [OF True, of 2 fd' "[[], []]" "wo_req z" sock "io_rbuf i"] read by auto
  then have i': "i' = i\<lparr>io_rbuf := hdr\<rparr>" using init by (simp add: instance_osx_read_init_def)
  have k: "io_step True junk u h s (yo_server ?y) (?k, w)"
    unfolding assms(1) by (rule io_step.req_read [OF assms(2) _ disjI1 [OF TrueI] init]) (simp add: e(2))
  obtain n where "io_bodies i = take n (map (\<lambda>(m, frame). drop 8 frame) (yo_sent ?y))"
    using reachable_calls [of True junk u h s w0 ?y] assms(1,3) frames_of_entries
    by (fastforce simp: wired_osx_inv_def Let_def)
  then have "osx_system_step True junk u h s ?y y"
    unfolding y by (intro osx_system_step.serves [OF k, of n]) (simp add: i')
  then show ?thesis
    using assms(1) by (auto intro!: wired_inv_grows [OF _ assms(3) refl, where es = "[]" and fs = "[]"] simp: y i' e(3))
next
  case False
  then have fd: "0 \<le> fd" by simp
  let ?y = "wo_system z"
  have inv: "small_frames ?y" "yo_read ?y \<le> length (io_sent (fst (yo_server ?y)))" "wo_req z = concat (unread_requests ?y)"
    "wo_rep z = concat (unread_replies ?y)"
    using assms(3) by (simp_all add: wired_osx_inv_def Let_def)
  have "unread_requests ?y \<noteq> []" using read inv(3) read_empty [OF fd] by auto
  then obtain m frame sock2 i2 rest2 where
    r: "osx_read_frame 2 fd fd' [[], []] (wo_req z) sock (io_rbuf i) =
        Some (Inr (E_Success, take 8 frame, drop 8 frame, sock2, concat rest2, []))"
      "instance_osx_read_init junk u E_Success (\<lambda>_. drop 8 frame) (i\<lparr>io_rbuf := take 8 frame\<rparr>) = Inr i2"
      "osx_system_step True junk u h s ?y (?y\<lparr>yo_server := (i2\<lparr>io_req := (if goes_on i2 then Req_Wait else Req_Exit)\<rparr>, w)\<rparr>)"
      "i2 = i\<lparr>io_rbuf := [], io_msgs := io_msgs i @ [decoded junk u m], io_writer_sem := io_writer_sem i + 1,
        io_bodies := io_bodies i @ [drop 8 frame]\<rparr>"
      "frame = snd (yo_sent ?y ! length (io_bodies i))" "frame = frame_image (call_wire m)"
      "rest2 = map snd (drop (Suc (length (io_bodies i))) (yo_sent ?y))"
    by (rule wired_gets_request [OF assms(1-3) _ fd assms(4), where sock = sock])
  have eq: "ec = E_Success" "hdr = take 8 frame" "body = drop 8 frame" "fifo = concat rest2" using read r(1) by simp_all
  then have "i2 = i'" using init r(2) by simp
  then have step: "osx_system_step True junk u h s ?y y" using r(3) y by simp
  have "unread_requests y = rest2" "unread_replies y = unread_replies ?y" "small_frames y"
    using r(4,7) assms(1) inv(1) y \<open>i2 = i'\<close> by (auto simp: unread_requests_def unread_replies_def small_frames_def)
  then show ?thesis
    using step inv r(4) assms(1) y \<open>i2 = i'\<close> eq(4) by (auto intro!: wired_inv_step [OF _ assms(3)])
qed

lemma wired_reply_step:
  assumes "classes_ok h s" and "heap_ok h" and "wired_osx_inv junk u h s w0 z" and "x = yo_threads (wo_system z)"
    and "e \<in> set (yo_reading (wo_system z))" and "co_socket (oc_client x)" and "\<not> co_shutting_down (oc_client x)"
    and "0 \<le> fd" and "0 \<le> fd'"
    and read: "osx_read_frame 1 fd fd' [[], []] (wo_rep z) sock (co_buf (oc_client x)) = Some (Inr (ec, hdr, body, sock', fifo, rest))"
    and recv: "client_osx_receive cj cu ec hdr (\<lambda>_. body) (oc_client x, oc_stack x) = Inr (c, w)"
    and y: "y = (wo_system z)\<lparr>yo_threads := x\<lparr>oc_client := c, oc_stack := w, oc_busy := oc_busy x - 1\<rparr>,
      yo_reading := remove1 e (yo_reading (wo_system z)), yo_read := Suc (yo_read (wo_system z))\<rparr>"
  shows "osx_system_step True junk u h s (wo_system z) y \<and> wired_osx_inv junk u h s w0 (z\<lparr>wo_system := y, wo_rep := fifo\<rparr>)"
proof -
  let ?y = "wo_system z"
  have inv: "small_frames ?y" "wo_req z = concat (unread_requests ?y)" "wo_rep z = concat (unread_replies ?y)"
    using assms(3) by (simp_all add: wired_osx_inv_def Let_def)
  have "unread_replies ?y \<noteq> []" using read inv(3) read_empty [OF assms(8)] by auto
  then obtain frame sock2 rest2 where r:
      "osx_read_frame 1 fd fd' [[], []] (wo_rep z) sock (co_buf (oc_client x)) =
        Some (Inr (E_Success, take 8 frame, drop 8 frame, sock2, concat rest2, []))"
      "frame = io_sent (fst (yo_server ?y)) ! yo_read ?y" "yo_read ?y < length (io_sent (fst (yo_server ?y)))"
      "rest2 = drop (Suc (yo_read ?y)) (io_sent (fst (yo_server ?y)))"
    by (rule wired_gets_reply [OF assms(1-3) _ assms(8,9), where sock = sock and buf = "co_buf (oc_client x)"])
  have eq: "ec = E_Success" "hdr = take 8 frame" "body = drop 8 frame" "fifo = concat rest2" using read r(1) by simp_all
  have step: "osx_system_step True junk u h s ?y y" unfolding y
    by (rule osx_system_step.reads [OF assms(4-7) _ r(3,2)]) (use recv eq in simp_all)
  have "unread_requests y = unread_requests ?y" "unread_replies y = rest2" "small_frames y"
    using inv(1) y r(4) by (auto simp: unread_requests_def unread_replies_def small_frames_def)
  then show ?thesis
    using step inv r(3) y eq(4) by (auto intro!: wired_inv_step [OF _ assms(3)])
qed

lemma wired_step_simulated:
  assumes "wired_osx_step junk u h s z z'" and "wired_osx_inv junk u h s w0 z" and "classes_ok h s" and "heap_ok h"
  shows "osx_system_step True junk u h s (wo_system z) (wo_system z') \<and> wired_osx_inv junk u h s w0 z'"
  using assms(1)
proof (cases rule: wired_osx_step.cases)
  case (others y)
  then show ?thesis using wired_others [OF others(2-6) assms(2)] by simp
next
  case (sends y m frame fd sock pieces sock')
  then show ?thesis using wired_sends [OF sends(2-4) assms(2)] written_pieces [OF sends(6,5)] by simp
next
  case (answers y frame fd sock pieces sock')
  then show ?thesis using wired_answers [OF answers(2-4) assms(2)] written_pieces [OF answers(6,5)] by simp
next
  case (gets_request y i w fd' fd sock ec hdr body sock' fifo rest i')
  then show ?thesis using wired_request_step [OF _ gets_request(4) assms(2) gets_request(5-7) refl] by simp
next
  case (gets_reply y x e fd fd' sock ec hdr body sock' fifo rest cj cu c w)
  then show ?thesis
    using wired_reply_step [OF assms(3,4,2) _ _ gets_reply(5-10) refl] by simp
qed

interpretation wired_osx: state_machine "\<lambda>z. z = wired_osx_init w0" "wired_osx_step junk u h s"
  "\<lambda>z. classes_ok h s \<and> heap_ok h \<longrightarrow> wired_osx_inv junk u h s w0 z"
  for w0 junk u h s
proof
  show "z = wired_osx_init w0 \<Longrightarrow> classes_ok h s \<and> heap_ok h \<longrightarrow> wired_osx_inv junk u h s w0 z" for z
    by (simp add: wired_osx_inv_def wired_osx_init_def unread_requests_def unread_replies_def small_frames_def
        osx_system_init_def instance_osx_make_def)
qed (blast dest: wired_step_simulated)

section \<open>And a run of that system is one over the pipes\<close>

text \<open>A header that was read with its message: what was read is the next frame in the pipe.\<close>

lemma wired_lift_read:
  assumes "yo_server (wo_system z) = (i, w)" and "io_req i = Req_Read" and "wired_osx_inv junk u h s w0 z"
    and "instance_osx_read_init junk u ec body (i\<lparr>io_rbuf := hdr\<rparr>) = Inr i'" and "io_bodies i' \<noteq> io_bodies i"
    and "io_bodies i' = take n (map (\<lambda>(m, frame). drop 8 frame) (yo_sent (wo_system z)))"
  shows "\<exists>z'. wired_osx_step junk u h s z z' \<and>
    wo_system z' = (wo_system z)\<lparr>yo_server := (i'\<lparr>io_req := (if goes_on i' then Req_Wait else Req_Exit)\<rparr>, w)\<rparr>"
proof -
  let ?y = "wo_system z" and ?l = "length (io_bodies i)"
  obtain msg k bs where msg: "i' = i\<lparr>io_rbuf := [], io_msgs := io_msgs i @ [msg], io_writer_sem := io_writer_sem i + 1,
      io_bodies := io_bodies i @ [bs]\<rparr>" "function_call_deserialize junk (function_call_init u u) bs 0 = Inr (msg, k)"
    using assms(4) by (cases rule: io_read_init_cases) (use assms(5) in auto)
  then have bodies: "io_bodies i @ [bs] = take n (map (\<lambda>(m, frame). drop 8 frame) (yo_sent ?y))" using assms(6) by simp
  from arg_cong [OF this, of length] have l: "?l < length (yo_sent ?y)" "?l < n" by auto
  have "bs = take n (map (\<lambda>(m, frame). drop 8 frame) (yo_sent ?y)) ! ?l" by (metis bodies nth_append_length)
  also have "... = drop 8 (snd (yo_sent ?y ! ?l))" using l by (simp add: split_beta)
  finally have bs: "bs = drop 8 (snd (yo_sent ?y ! ?l))" .
  have "unread_requests ?y \<noteq> []" using l(1) by (simp add: unread_requests_def assms(1))
  then obtain m frame sock' i2 rest where
    r: "osx_read_frame 2 0 0 [[], []] (wo_req z) (osx_socket_open []) (io_rbuf i) =
        Some (Inr (E_Success, take 8 frame, drop 8 frame, sock', concat rest, []))"
      "instance_osx_read_init junk u E_Success (\<lambda>_. drop 8 frame) (i\<lparr>io_rbuf := take 8 frame\<rparr>) = Inr i2"
      "osx_system_step True junk u h s ?y (?y\<lparr>yo_server := (i2\<lparr>io_req := (if goes_on i2 then Req_Wait else Req_Exit)\<rparr>, w)\<rparr>)"
      "i2 = i\<lparr>io_rbuf := [], io_msgs := io_msgs i @ [decoded junk u m], io_writer_sem := io_writer_sem i + 1,
        io_bodies := io_bodies i @ [drop 8 frame]\<rparr>"
      "frame = snd (yo_sent ?y ! length (io_bodies i))" "frame = frame_image (call_wire m)"
      "rest = map snd (drop (Suc (length (io_bodies i))) (yo_sent ?y))"
    by (rule wired_gets_request [OF assms(1-3) _ order_refl order_refl, where sock = "osx_socket_open []"])
  then have bs: "bs = drop 8 frame" using bs by simp
  have "decoded junk u m = msg" using msg(2) bs r(6) by (simp add: decoded_def)
  then have "i2 = i'" using r(4) msg(1) bs by simp
  with wired_osx_step.gets_request [OF refl assms(1,2) order_refl r(1,2)] show ?thesis by fastforce
qed

lemma wired_lift_serves:
  assumes "io_step True junk u h s (yo_server (wo_system z)) k" and "gets_message (fst (yo_server (wo_system z))) (fst k)"
    and bodies: "io_bodies (fst k) = take n (map (\<lambda>(m, frame). drop 8 frame) (yo_sent (wo_system z)))"
    and "wired_osx_inv junk u h s w0 z" and "\<forall>f \<in> set (io_sent (fst k)). length f < 8192"
  shows "\<exists>z'. wired_osx_step junk u h s z z' \<and> wo_system z' = (wo_system z)\<lparr>yo_server := k\<rparr>"
proof -
  let ?y = "wo_system z" and ?i = "fst (yo_server (wo_system z))"
  have step: "osx_system_step True junk u h s ?y (?y\<lparr>yo_server := k\<rparr>)" by (rule osx_system_step.serves [OF assms(1) bodies])
  note frames = io_step_frames [OF assms(1)]
  show ?thesis
  proof (cases "io_req ?i = Req_Read \<and> io_req (fst k) \<noteq> Req_Read")
    case True
    with assms(2) have new: "io_bodies (fst k) \<noteq> io_bodies ?i" by (simp add: gets_message_def)
    from assms(1) show ?thesis
    proof (cases rule: io_step.cases)
      case (req_read i1 hdr ec body i' w1)
      then show ?thesis
        using wired_lift_read [OF _ _ assms(4) req_read(6)] new bodies by auto
    next
      case (rep_serve i1 w1 b i' w')
      from rep_serve(4) have "io_bodies i' = io_bodies i1" by (cases rule: serve_cases) simp_all
      then show ?thesis using rep_serve(1,2) new by simp
    qed (use True new in auto)
  next
    case False
    then have same: "io_sent (fst k) = io_sent ?i \<or> (\<exists>f. io_sent (fst k) = io_sent ?i @ [f])" using frames by blast
    then show ?thesis
    proof
      assume "io_sent (fst k) = io_sent ?i"
      then have "wired_osx_step junk u h s z (z\<lparr>wo_system := ?y\<lparr>yo_server := k\<rparr>\<rparr>)"
        using False by (intro wired_osx_step.others [OF step]) simp_all
      then show ?thesis by fastforce
    next
      assume "\<exists>f. io_sent (fst k) = io_sent ?i @ [f]"
      then obtain f where f: "io_sent (fst k) = io_sent ?i @ [f]" by blast
      obtain pieces sock' where "osx_write 0 (whole_writes 0 (chunks_of f)) f (osx_socket_open []) = Some (E_Success, pieces, sock')"
        using osx_write_whole [of 0 f "osx_socket_open []"] by auto
      from wired_osx_step.answers [OF step _ _ order_refl this] show ?thesis using f assms(5) by fastforce
    qed
  qed
qed

lemma wired_lift:
  assumes "osx_fed True junk u h s (wo_system z) y" and "wired_osx_inv junk u h s w0 z" and "small_frames y"
    and "classes_ok h s" and "heap_ok h"
  shows "\<exists>z'. wired_osx_step junk u h s z z' \<and> wo_system z' = y"
proof -
  have step: "osx_system_step True junk u h s (wo_system z) y" and msg: "gets_message (fst (yo_server (wo_system z))) (fst (yo_server y))"
    using assms(1) by (simp_all add: osx_fed_def)
  have other: ?thesis if "yo_server y = yo_server (wo_system z)" "yo_sent y = yo_sent (wo_system z)" "yo_read y = yo_read (wo_system z)"
  proof -
    have "wired_osx_step junk u h s z (z\<lparr>wo_system := y\<rparr>)"
      by (rule wired_osx_step.others [OF step]) (use that in simp_all)
    then show ?thesis by fastforce
  qed
  from step show ?thesis
  proof (cases rule: osx_system_step.cases)
    case (writes e)
    obtain m frame where e: "e = (m, frame)" by fastforce
    obtain pieces sock' where "osx_write 0 (whole_writes 0 (chunks_of frame)) frame (osx_socket_open []) = Some (E_Success, pieces, sock')"
      using osx_write_whole [of 0 frame "osx_socket_open []"] by auto
    moreover have "yo_sent y = yo_sent (wo_system z) @ [(m, frame)]" "length frame < 8192"
      using writes(1) e assms(3) by (auto simp: small_frames_def)
    ultimately have "wired_osx_step junk u h s z (z\<lparr>wo_system := y, wo_req := wo_req z @ concat pieces\<rparr>)"
      by (intro wired_osx_step.sends [OF step]) simp_all
    then show ?thesis by fastforce
  next
    case (serves k n)
    then show ?thesis using wired_lift_serves [OF serves(2) _ serves(3) assms(2)] msg assms(3) by (simp add: small_frames_def)
  next
    case (reads x e ec f cj cu c w)
    have "unread_replies (wo_system z) \<noteq> []" using reads(7) by (simp add: unread_replies_def)
    then obtain frame sock' rest where r:
      "osx_read_frame 1 0 0 [[], []] (wo_rep z) (osx_socket_open []) (co_buf (oc_client x)) =
        Some (Inr (E_Success, take 8 frame, drop 8 frame, sock', concat rest, []))"
      "frame = io_sent (fst (yo_server (wo_system z))) ! yo_read (wo_system z)"
      by (rule wired_gets_reply [OF assms(4,5,2) _ order_refl order_refl, where sock = "osx_socket_open []"])
    have "client_osx_receive cj cu E_Success (take 8 frame) (\<lambda>_. drop 8 frame) (oc_client x, oc_stack x) = Inr (c, w)"
      using reads(6,8,9) r(2) by (auto simp: client_osx_receive_def client_osx_read_init_def)
    from wired_osx_step.gets_reply [OF refl reads(2-5) order_refl order_refl r(1) this] show ?thesis
      unfolding reads(1) by fastforce
  qed (use other in simp_all)
qed

lemma small_frames_back:
  assumes "osx_system_step short junk u h s y y'" and "small_frames y'"
  shows "small_frames y"
  using assms(1)
proof (cases rule: system_step_frames)
  case serves
  then show ?thesis using io_step_frames [OF serves(3)] assms(2) by (auto simp: small_frames_def)
qed (use assms(2) in \<open>auto simp: small_frames_def\<close>)

lemma wired_lift_run:
  assumes "(osx_fed True junk u h s)\<^sup>*\<^sup>* (wo_system z) y" and "wired_osx_inv junk u h s w0 z" and "small_frames y"
    and "classes_ok h s" and "heap_ok h"
  shows "\<exists>z'. (wired_osx_step junk u h s)\<^sup>*\<^sup>* z z' \<and> wo_system z' = y"
  using assms(1,3)
proof (induction rule: rtranclp_induct)
  case (step y1 y2)
  then have "small_frames y1" using small_frames_back unfolding osx_fed_def by blast
  then obtain z1 where z1: "(wired_osx_step junk u h s)\<^sup>*\<^sup>* z z1" "wo_system z1 = y1" using step(3) by blast
  have "wired_osx_inv junk u h s w0 z1" using wired_osx.inv_steps [OF z1(1), of w0] assms(2,4,5) by blast
  from wired_lift [OF _ this step(4) assms(4,5)] z1(2) step(2) obtain z2 where
    z2: "wired_osx_step junk u h s z1 z2" "wo_system z2 = y2" by blast
  from rtranclp.rtrancl_into_rtrancl [OF z1(1) z2(1)] z2(2) show ?case by blast
qed auto

text \<open>A call of which the request and every reply are smaller than a chunk.\<close>

definition small_call :: "'w heap \<Rightarrow> 'w server \<Rightarrow> u64 \<Rightarrow> function_call \<Rightarrow> bool" where
  "small_call h s u m \<longleftrightarrow> function_call_size m + 8 < 8192 \<and>
     (\<forall>m' w reply w'. call_content m' = call_content m \<longrightarrow>
        execute_request h s 0 u m' w = Inr (reply, w') \<longrightarrow> reply_ok reply \<and> function_reply_size reply + 8 < 8192)"

lemma small_call_fits: "small_call h s u m \<Longrightarrow> replies_fit h s 0 u [m]"
  by (force simp: small_call_def replies_fit_def)

lemma small_call_frames:
  assumes "small_call h s u m" and "proper_call m" and "serve_body junk u h s 0 (call_wire m) w = Inr (f, w')"
  shows "length (frame_image (call_wire m)) < 8192" and "length f < 8192"
proof -
  show "length (frame_image (call_wire m)) < 8192"
    using assms(1) by (simp add: small_call_def frame_image_def length_call_wire)
  note m' = decoded_call [OF assms(2), of junk u]
  obtain reply where reply: "execute_request h s 0 u (decoded junk u m) w = Inr (reply, w')"
    "pack_frame function_reply_size function_reply_serialize reply = Inr f"
    using assms(3) m'(1) by (auto simp: serve_body_def rbind_eq_Inr_iff)
  have ok: "reply_ok reply" "function_reply_size reply + 8 < 8192"
    using assms(1) m'(2) reply(1) unfolding small_call_def by blast+
  then have "f = frame_image (reply_wire reply)" using reply(2) reply.pack_frame_image [of reply] by simp
  then show "length f < 8192" using ok(2) by (simp add: frame_image_def length_reply_wire)
qed

lemma counting_small_call: "small_call [0 \<mapsto> counting_collection] counting_server 0 (counting_call 1)"
  using counting_reply_small by (fastforce simp: small_call_def counting_call_def build_call_def function_call_size_def
      value_size_def value_of_string_def value_of_uint64_def)

lemma counting_wired_inv:
  "wired_osx_inv junk u [0 \<mapsto> counting_collection] counting_server w0 (wired_osx_init w0)"
  using wired_osx.inv_start [OF refl, of "[0 \<mapsto> counting_collection]" counting_server junk u w0] counting_ok by simp

text \<open>A call that is served over the pipes.\<close>

lemma wired_call_run:
  assumes "classes_ok h s" and "heap_ok h" and "(wired_osx_step junk u h s)\<^sup>*\<^sup>* (wired_osx_init w0) z"
    and "osx_system_quiet (wo_system z)" and "x = yo_threads (wo_system z)" and "oc_stack x = Some st" and "st data = None"
    and "oc_time x + 1 \<noteq> 0" and "m = build_call (oc_time x + 1) cu cname fname args" and "proper_call m" and "small_call h s u m"
    and oc: "oc = table_answer h s 0 (decoded junk u m) (snd (yo_server (wo_system z)))"
  shows "\<exists>z' vals c. (wired_osx_step junk u h s)\<^sup>*\<^sup>* z z' \<and> wo_req z' = [] \<and> wo_rep z' = [] \<and>
    yo_sent (wo_system z') = yo_sent (wo_system z) @ [(m, frame_image (call_wire m))] \<and>
    (data, callback_key (oc_time x + 1)) \<in> oc_callers (yo_threads (wo_system z')) \<and>
    client_osx_sync_end (callback_key (oc_time x + 1)) data (oc_client (yo_threads (wo_system z')), oc_stack (yo_threads (wo_system z'))) =
      Some (Inr (vals, c, Some st)) \<and>
    outcome_seen cname fname oc vals \<and> snd (yo_server (wo_system z')) = outcome_world (snd (yo_server (wo_system z))) oc \<and>
    osx_system_quiet ((wo_system z')\<lparr>yo_threads := (yo_threads (wo_system z'))\<lparr>oc_client := c\<rparr>\<rparr>)"
proof -
  let ?y = "wo_system z"
  have wired: "wired_osx_inv junk u h s w0 z" using wired_osx.reachable_inv [OF refl assms(3)] assms(1,2) by blast
  then have "(osx_system_step True junk u h s)\<^sup>*\<^sup>* (osx_system_init w0) ?y" and small: "small_frames ?y"
    by (simp_all add: wired_osx_inv_def Let_def)
  then have inv: "osx_system_inv True junk u h s w0 ?y" by (intro osx_system.reachable_inv [OF refl])
  obtain y' f vals c where run: "(osx_fed True junk u h s)\<^sup>*\<^sup>* ?y y'"
    and frames: "yo_sent y' = yo_sent ?y @ [(m, frame_image (call_wire m))]" "io_sent (fst (yo_server y')) = io_sent (fst (yo_server ?y)) @ [f]"
      "serve_body junk u h s 0 (call_wire m) (snd (yo_server ?y)) = Inr (f, outcome_world (snd (yo_server ?y)) oc)"
    and rest: "(data, callback_key (oc_time x + 1)) \<in> oc_callers (yo_threads y')"
      "client_osx_sync_end (callback_key (oc_time x + 1)) data (oc_client (yo_threads y'), oc_stack (yo_threads y')) =
        Some (Inr (vals, c, Some st))"
      "outcome_seen cname fname oc vals" "snd (yo_server y') = outcome_world (snd (yo_server ?y)) oc"
      "osx_system_quiet (y'\<lparr>yo_threads := (yo_threads y')\<lparr>oc_client := c\<rparr>\<rparr>)"
    using osx_system_call_run [OF assms(1,2) inv assms(4-10) small_call_fits [OF assms(11)] oc] by blast
  have "small_frames y'"
    using small small_call_frames [OF assms(11,10) frames(3)] frames(1,2) by (auto simp: small_frames_def)
  from wired_lift_run [OF run wired this assms(1,2)] obtain z' where z': "(wired_osx_step junk u h s)\<^sup>*\<^sup>* z z'" "wo_system z' = y'"
    by blast
  have "wired_osx_inv junk u h s w0 z'" using wired_osx.inv_steps [OF z'(1), of w0] wired assms(1,2) by blast
  then have "wo_req z' = concat (unread_requests y')" "wo_rep z' = concat (unread_replies y')"
    by (simp_all add: wired_osx_inv_def Let_def z'(2))
  then have empty: "wo_req z' = []" "wo_rep z' = []"
    using rest(5) by (simp_all add: osx_system_quiet_def unread_requests_def unread_replies_def)
  show ?thesis
    by (intro exI conjI, rule z'(1), (rule empty)+) (unfold z'(2), rule frames(1), (rule rest)+)
qed

lemma counting_wired_run:
  "\<exists>z vals c. (wired_osx_step (\<lambda>_. 0) 0 [0 \<mapsto> counting_collection] counting_server)\<^sup>*\<^sup>* (wired_osx_init 5) z \<and>
    (8, 1) \<in> oc_callers (yo_threads (wo_system z)) \<and>
    yo_sent (wo_system z) = [(counting_call 1, frame_image (call_wire (counting_call 1)))] \<and>
    client_osx_sync_end 1 8 (oc_client (yo_threads (wo_system z)), oc_stack (yo_threads (wo_system z))) =
      Some (Inr (vals, c, Some (\<lambda>_. None)))"
proof -
  have y: "wo_system (wired_osx_init 5) = osx_system_init 5" by (simp add: wired_osx_init_def)
  show ?thesis
    using wired_call_run [where data = 8 and z = "wired_osx_init 5" and junk = "\<lambda>_. 0", unfolded y, OF counting_ok
        rtranclp.rtrancl_refl osx_quiet_init refl counting_osx(1) refl counting_osx(4,3) counting_proper counting_small_call refl]
    by (auto simp: counting_osx(5,6))
qed

section \<open>Properties\<close>

text \<open>C5. The pipes of a macOS connection carry whole frames, in order. In every state that the threads of the
  client, the two threads of the instance and failed openings of a pipe for a header lead to, reading and writing
  the named pipes as the code does, as long as every frame is shorter than 8192 bytes and put into its pipe by one
  call of \<open>::write\<close>, opening a pipe for a write or for the body of a frame succeeds, and the calls and their
  replies can be stored: the steps taken are steps
  of the system whose pipes deliver, the request pipe holds exactly the frames written and not yet read by the
  instance, one behind the other, and the reply pipe those the instance has written and no thread has read.\<close>

theorem osx_pipes_refine:
  assumes "classes_ok h s" and "heap_ok h" and "(wired_osx_step junk u h s)\<^sup>*\<^sup>* (wired_osx_init w0) z" and "y = wo_system z"
  shows "(osx_system_step True junk u h s)\<^sup>*\<^sup>* (osx_system_init w0) y \<and>
    wo_req z = concat (map snd (drop (length (io_bodies (fst (yo_server y)))) (yo_sent y))) \<and>
    io_bodies (fst (yo_server y)) = take (length (io_bodies (fst (yo_server y)))) (map (\<lambda>(m, frame). drop 8 frame) (yo_sent y)) \<and>
    wo_rep z = concat (drop (yo_read y) (io_sent (fst (yo_server y)))) \<and> yo_read y \<le> length (io_sent (fst (yo_server y)))"
proof -
  have "wired_osx_inv junk u h s w0 z" using wired_osx.reachable_inv [OF refl assms(3)] assms(1,2) by blast
  then have inv: "(osx_system_step True junk u h s)\<^sup>*\<^sup>* (osx_system_init w0) y" "yo_read y \<le> length (io_sent (fst (yo_server y)))"
    "wo_req z = concat (unread_requests y)" "wo_rep z = concat (unread_replies y)"
    by (simp_all add: wired_osx_inv_def Let_def assms(4))
  note calls = reachable_calls [OF inv(1)]
  show ?thesis
    using inv calls(2) unfolding unread_requests_def unread_replies_def frames_of_entries [OF calls(1)]
    by (auto simp: min_def)
qed

theorem osx_pipes_refine_witness:
  "\<exists>z. (wired_osx_step (\<lambda>_. 0) 0 [0 \<mapsto> counting_collection] counting_server)\<^sup>*\<^sup>* (wired_osx_init 5) z \<and>
     wo_req z = frame_image (call_wire (counting_call 1)) \<and> wo_rep z = []"
proof -
  let ?y = "osx_system_init (5 :: nat)" and ?x = "yo_threads (osx_system_init (5 :: nat))"
  let ?e = "(counting_call 1, frame_image (call_wire (counting_call 1)))"
  have y: "wo_system (wired_osx_init 5) = ?y" by (simp add: wired_osx_init_def)
  have "osx_client_inv 1 ?x" "0 < co_writer_sem (oc_client ?x)" "co_socket (oc_client ?x)"
    using osx_client_inv_init by (simp_all add: osx_system_init_def osx_callers_init_def client_osx_make_def)
  then obtain c where run: "(osx_fed True (\<lambda>_. 0) 0 [0 \<mapsto> counting_collection] counting_server)\<^sup>*\<^sup>* ?y
      (?y\<lparr>yo_threads := ?x\<lparr>oc_stack := stack_alloc 8 (Some (\<lambda>_. None)), oc_time := oc_time ?x + 1,
          oc_callers := insert (8, callback_key (oc_time ?x + 1)) (oc_callers ?x), oc_client := c, oc_busy := oc_busy ?x + 1\<rparr>,
        yo_sent := yo_sent ?y @ [?e], yo_reading := ?e # yo_reading ?y\<rparr>)" (is "_\<^sup>*\<^sup>* _ ?y'")
    by (rule osx_call_opens [OF refl _ _ _ counting_osx(1) refl counting_osx(4,3) counting_proper counting_replies_fit])
  have "length (snd ?e) < 8192"
    using counting_small_call by (simp add: small_call_def frame_image_def length_call_wire)
  then have "small_frames ?y'" by (simp add: small_frames_def osx_system_init_def instance_osx_make_def)
  moreover have "(osx_fed True (\<lambda>_. 0) 0 [0 \<mapsto> counting_collection] counting_server)\<^sup>*\<^sup>* (wo_system (wired_osx_init 5)) ?y'"
    using run by (simp only: y)
  ultimately obtain z where
    z: "(wired_osx_step (\<lambda>_. 0) 0 [0 \<mapsto> counting_collection] counting_server)\<^sup>*\<^sup>* (wired_osx_init 5) z" "wo_system z = ?y'"
    using wired_lift_run [OF _ counting_wired_inv _ counting_ok] by blast
  from osx_pipes_refine [OF counting_ok z(1) refl] show ?thesis
    unfolding z(2) using z(1) by (auto simp: osx_system_init_def instance_osx_make_def)
qed

text \<open>C3. Every caller on macOS gets the answer to its own call, over the pipes. In every state that any number of
  threads in the helper, calls without a callback or with one of the application, cancellations, a shutdown, \<open>stop\<close>,
  the two threads of the instance and failed openings of a pipe for a header lead to, in any order, with the
  code's reads and writes of the pipes, as long as every frame is shorter than 8192 bytes and put into its pipe by
  one call of \<open>::write\<close>, opening a pipe for a write or for the body of a frame succeeds, and the
  calls and their replies can be stored: a caller that returns
  from the helper returns what a caller must see for the outcome of the call with its id, when all calls are run on
  the server's table one after the other in the order they were written. No two calls have the same id.\<close>

theorem osx_wired_own_answers:
  assumes "classes_ok h s" and "heap_ok h" and "(wired_osx_step junk u h s)\<^sup>*\<^sup>* (wired_osx_init w0) z" and "y = wo_system z"
    and "(data, cbid) \<in> oc_callers (yo_threads y)"
    and "client_osx_sync_end cbid data (oc_client (yo_threads y), oc_stack (yo_threads y)) = Some (Inr (vals, c, w))"
  shows "(\<exists>j < length (yo_sent y). let m = fst (yo_sent y ! j) in cbid = callback_key (call_time m) \<and>
      outcome_seen (value_str (call_class_name m)) (value_str (call_function_name m))
        (outcomes junk u h s w0 (yo_sent y) ! j) vals) \<and>
    distinct (map (call_time \<circ> fst) (yo_unsent y @ yo_held y @ yo_sent y))"
proof -
  have "wired_osx_inv junk u h s w0 z" using wired_osx.reachable_inv [OF refl assms(3)] assms(1,2) by blast
  then have "(osx_system_step True junk u h s)\<^sup>*\<^sup>* (osx_system_init w0) y"
    by (simp add: wired_osx_inv_def Let_def assms(4))
  from osx_system_own_answers [OF assms(1,2) this assms(5,6)] show ?thesis .
qed

theorem osx_wired_own_answers_witness:
  "\<exists>(z :: nat wired_osx) vals c w. (8, 1) \<in> oc_callers (yo_threads (wo_system z)) \<and> length (yo_sent (wo_system z)) = 1 \<and>
    client_osx_sync_end 1 8 (oc_client (yo_threads (wo_system z)), oc_stack (yo_threads (wo_system z))) = Some (Inr (vals, c, w)) \<and>
    outcome_seen ''C'' ''f'' (outcomes (\<lambda>_. 0) 0 [0 \<mapsto> counting_collection] counting_server 5 (yo_sent (wo_system z)) ! 0) vals"
proof -
  obtain z vals c where r: "(wired_osx_step (\<lambda>_. 0) 0 [0 \<mapsto> counting_collection] counting_server)\<^sup>*\<^sup>* (wired_osx_init 5) z"
    "(8, 1) \<in> oc_callers (yo_threads (wo_system z))"
    "yo_sent (wo_system z) = [(counting_call 1, frame_image (call_wire (counting_call 1)))]"
    "client_osx_sync_end 1 8 (oc_client (yo_threads (wo_system z)), oc_stack (yo_threads (wo_system z))) =
      Some (Inr (vals, c, Some (\<lambda>_. None)))"
    using counting_wired_run by blast
  have names: "value_str (call_class_name (counting_call 1)) = ''C''" "value_str (call_function_name (counting_call 1)) = ''f''"
    by (simp_all add: counting_call_def build_call_def value_of_string_def)
  from osx_wired_own_answers [OF counting_ok r(1) refl r(2,4)] have
    "outcome_seen ''C'' ''f'' (outcomes (\<lambda>_. 0) 0 [0 \<mapsto> counting_collection] counting_server 5 (yo_sent (wo_system z)) ! 0) vals"
    by (auto simp: r(3) names Let_def)
  with r(2-4) show ?thesis by (intro exI [of _ z] exI [of _ vals]) auto
qed



end
