(* ===== verification/Spec2Isabelle.thy ===== *)
theory Spec2Isabelle
  imports Ipc_Base Ipc_Typing Win_Overlapped Named_Pipe_Osx System_Win System_Osx System_Callers_Osx Wired_Osx
begin

text \<open>
  A verification library for lib-streamlabs-ipc, a C++ library for remote procedure calls between two
  processes over a named pipe (Windows) or a pair of FIFOs (macOS).

  \<^bold>\<open>The program.\<close> A server has a table of classes (collections) of functions. A client sends a message
  \<open>function_call\<close>, with a unique id, a class name, a function name and argument values; the server looks the
  function up, runs it, and answers with a \<open>function_reply\<close> that has the same id and the results, or an
  error text. A message is serialised into a frame: eight bytes whose last four are the size of the body,
  then the body. \<open>ipc::server\<close> has a watcher thread that accepts clients on its sockets and makes a
  \<open>server_instance\<close> for each; an instance reads requests, executes them through \<open>client_call_function\<close>,
  and writes the replies. A client keeps the callbacks of its pending calls in a table by id. Windows I/O is
  asynchronous: a transfer is an \<open>async_op\<close> with callbacks that run when a wait finds it completed. On
  macOS reads and writes block, and semaphores order the threads.

  \<^bold>\<open>Theories\<close>, in the order of their imports, with the code they model:

  \<^item> \<open>Ipc_Prelude\<close>: types, faults and their bind, \<open>size_t\<close> subtraction, little-endian words, checked access
    to byte vectors, and the locale \<open>state_machine\<close>: an invariant of a step relation.
  \<^item> \<open>Ordered_Map\<close>: \<open>std::map\<close> as a list sorted by its keys, with a locale for the laws of a map.
  \<^item> \<open>Wire_Codec\<close>: loops over value lists, \<open>make_sendable\<close>, \<open>read_size\<close> (\<open>include/ipc.hpp\<close>), and locales for
    what a codec and a frame promise, interpreted for values, calls and replies.
  \<^item> \<open>Ipc_Value\<close> (\<open>ipc-value.cpp\<close>), \<open>Ipc_Message\<close> (the messages of \<open>ipc.cpp\<close>), \<open>Ipc_Base\<close> (the rest of
    \<open>ipc.cpp\<close>), \<open>Ipc_Function\<close> (\<open>ipc-function.cpp\<close>, \<open>ipc-class.cpp\<close>).
  \<^item> \<open>Ipc_Dispatch\<close>: the state of \<open>ipc::server\<close>, its setters, \<open>register_collection\<close> and
    \<open>client_call_function\<close>. \<open>Ipc_Server\<close>: the rest of \<open>ipc-server.cpp\<close>, the life of the clients.
  \<^item> \<open>Ipc_Rpc\<close>: building, executing and answering one call, composed through the frames. \<open>Ipc_Typing\<close>: the
    well-typed values of such a call. \<open>Serial_Server\<close>: what an instance has to do with a list of requests, one after
    the other, and a locale for the machines that do it.
  \<^item> \<open>Async_Op\<close> (\<open>error.hpp\<close>, \<open>async_op.cpp\<close>, both \<open>async_request.cpp\<close>, \<open>translate_error\<close>), \<open>Win_Overlapped\<close>
    (\<open>overlapped.cpp\<close>, the rest of \<open>utility.cpp\<close>), \<open>Waitable\<close> (both \<open>waitable.cpp\<close> and \<open>semaphore.cpp\<close>).
  \<^item> \<open>Socket_Win\<close> (\<open>ipc-socket-win.cpp\<close>), \<open>Socket_Osx\<close> (\<open>ipc-socket-osx.cpp\<close>) and, on FIFOs that other
    processes write to, \<open>Pipe_Osx\<close>; \<open>Named_Pipe_Osx\<close> (\<open>apple/named-pipe.cpp\<close>, which the build does not use any more).
  \<^item> \<open>Client_Base\<close>: the part of \<open>call\<close> both clients share, and \<open>CallData\<close>. \<open>Client_Win\<close>
    (\<open>ipc-client-win.cpp\<close>) and \<open>Client_Osx\<close> (\<open>ipc-client-osx.cpp\<close>); threads that share a client in \<open>Sync_Callers\<close>,
    \<open>Client_Sync_Win\<close> and \<open>Client_Sync_Osx\<close>.
  \<^item> \<open>Instance_Win\<close> (\<open>ipc-server-instance-win.cpp\<close>) and \<open>Instance_Osx\<close> (\<open>ipc-server-instance-osx.cpp\<close>), as serial
    servers in \<open>Serial_Win\<close> and \<open>Serial_Osx\<close>.
  \<^item> \<open>Call_Answer\<close>, \<open>System_Win\<close>, \<open>System_Callers_Osx\<close>: any number of callers, the pipe and an instance together,
    as step relations over pipes that deliver whole frames. \<open>System_Osx\<close>: one whole call of the macOS helper and the
    run of the instance that answers it. \<open>Wired_Osx\<close>: the macOS system with its two FIFOs, and the reads and
    writes of the sockets on them, which refines \<open>System_Callers_Osx\<close>.

  \<^bold>\<open>How code becomes definitions.\<close> A class is a record, an enumeration a datatype, a method a function that
  takes the object and gives it back. An operation that may raise, abort or leave a buffer has a result
  \<open>fault + 'a\<close>: \<open>Exception\<close>, \<open>Abort\<close>, or \<open>Bad_Access\<close> for what C++ leaves undefined. Integers have their width
  where they wrap (\<open>u32\<close>, \<open>u64\<close>, \<open>size_sub\<close>). A type variable \<open>'w\<close> is the world that handlers and callbacks
  of the application act on; they are arguments. Answers of the operating system are arguments as well:
  single values, functions, or lists of answers for loops. A loop that has used up its answers, and a wait
  for a semaphore that nobody can post, has the value \<open>None\<close>; the theorems on such loops say for which
  answers they return. There is no other fuel: every loop of the code is a total recursion on its data, on
  the answers, or (\<open>kill_all\<close>, \<open>osx_write_loop\<close>) with a measure. \<open>junk\<close> and \<open>u\<close> stand for the contents of
  unions that no constructor writes; the theorems hold for all of them.

  \<^bold>\<open>What the theorems show.\<close>

  \<^item> Codecs: values, calls and replies survive the wire, decoders accept only canonical input or fault, and
    streams of frames are read back one by one. Where the decoder reads past a truncated message is stated.
  \<^item> Dispatch: \<open>client_call_function\<close> refines the lookup in an abstract table; a failed call has no effect; a
    whole remote call refines the same table across the wire, and keeps its values well-typed.
  \<^item> Instances: whatever the order of their steps, both instances have run the requests they have taken one
    after the other, in the order they came, and their replies are the ones of the table, once each.
  \<^item> Systems: on both platforms every synchronous caller that returns has the answer to its own call, whatever the
    other callers do, and a call through client, pipe, instance and table can return: on Windows over a pipe that
    delivers whole messages, on macOS over the FIFOs, under the premises below.
  \<^item> Pipes on macOS: a write ends and sends what a reference says, whatever the system calls answer; a frame
    shorter than 8192 bytes that is in the pipe in one piece is received whole. With such frames the system
    on two FIFOs refines the one whose pipes deliver, and its pipes hold whole frames in order. What a
    reader gets when the pipe cannot be opened for a body is stated as well.
  \<^item> Requests: whatever the callbacks do with a request, each runs at most once per arming.
  \<^item> Server: connect and disconnect notifications match the clients in every reachable state.
  \<^item> Windows client: no callback runs twice, no registered one is forgotten when the connection is lost, and
    no callback ever uses the stack data of a synchronous call that has returned; a synchronous call
    returns what its reply carries.
  \<^item> macOS client: threads that share it, with synchronous calls, asynchronous ones and \<open>stop\<close>, exclude one another
    between the write of a frame and the end of its call until it is stopped, and a semaphore that is lost
    stays lost for all of them until then.
  \<^item> Windows instance: replies leave in the order of the requests, each once, one request at a time.
  \<^item> macOS: the two threads of an instance take turns; a synchronous call returns what its reply carries
    and leaves the client ready for the next.
  \<^item> Where the code does not do what it means to, a theorem states what it does instead: clients that block
    after an asynchronous call or a lost reply, an instance that stops after one failed read or takes from
    an empty queue, frames of certain lengths that are never received, that are cut or that are
    read past the end of their buffer, depending on the timing, a wait that reports the wrong item, a
    buffer that is freed while it is written, requests that abort the server.

  \<^bold>\<open>Interfaces.\<close> Locales state what one component relies on in another, and each is interpreted on the
  model: maps (\<open>om\<close>), codecs and frames (\<open>val\<close>, \<open>call\<close>, \<open>reply\<close>), requests (\<open>win_req\<close>, \<open>osx_req\<close>), sockets that
  accept (\<open>win_sock\<close>, \<open>osx_sock\<close>, \<open>np_sock\<close>), and state machines (\<open>server_life\<close>, \<open>client_calls\<close>, \<open>sync\<close>, \<open>osx_client\<close>, \<open>iw\<close>, \<open>turn\<close>,
  \<open>queue\<close>, \<open>stuck\<close>, \<open>win_system\<close>, \<open>osx_system\<close>, \<open>wired_osx\<close>) of which serial servers (\<open>iw_serial\<close>, \<open>io_serial\<close>) are a special case.

  \<^bold>\<open>Bounds.\<close> Sizes and offsets are natural numbers; that the objects of a process lie below \<open>2 ^ 64\<close> bytes, a
  body below \<open>2 ^ 32\<close> and a macOS buffer below \<open>2 ^ 31\<close> is a premise or a remark where it matters. \<open>size_t\<close> and
  pointers have 64 bits, integers are little-endian.

  \<^bold>\<open>Not modelled.\<close> Interfaces, the console output, the text of log lines, the elapsed times given to the freeze callback,
  and destructors that only close a handle no operation uses again are left out. Threads interleave at the
  points named in each theory, which are the locks, the waits and the semaphores; data races between these
  points are not modelled, and neither is a callback that takes the lock under which it runs, which
  blocks its thread. A step of an instance gives the application the client id 0, as the code does. The
  requests of the instances never have a write in flight on macOS, so that the write queue of the macOS
  instance is modelled but never used. In \<open>System_Win\<close> the pipe delivers what is written, so that a
  read gets all the bytes it asked for, and the read of a body does not fail once its header has come; calls and
  replies can be stored. In \<open>System_Callers_Osx\<close> the pipes deliver too, which \<open>Wired_Osx\<close> proves for runs in which every frame is
  shorter than 8192 bytes, one call of \<open>::write\<close> puts it into the FIFO in one piece (the system promises this up to
  \<open>PIPE_BUF\<close>, 512 bytes on macOS), and the pipes can be opened for writes and for bodies, while opening one for
  a header may fail. What happens otherwise is the subject of \<open>Socket_Osx\<close> and \<open>Pipe_Osx\<close>. No theorem says that a reader on
  macOS keeps up with longer frames. In the systems the application's own callbacks leave the stacks of
  the synchronous callers alone, and after \<open>stop\<close> no thread uses the socket, which would be undefined.
\<close>

end
